(* ===== verification/LB_Prelude.thy ===== *)
theory LB_Prelude
  imports Main "HOL-Library.Word"
begin

section \<open>Shared vocabulary of the development\<close>

text \<open>
  Exceptions and results, the loops that stop at the first exception, decimal printing
  (\<^verbatim>\<open>std::to_string\<close> and \<^verbatim>\<open>boost::lexical_cast<std::string>\<close> of a non-negative
  integer) and the generic lemmas on lists and strings the components share.

  An operation of the program that may throw returns \<^verbatim>\<open>'a result\<close>: \<^verbatim>\<open>Inl e\<close> is
  the exception \<^verbatim>\<open>e\<close>, \<^verbatim>\<open>Inr x\<close> the value returned. A member function that also
  changes its object returns a pair of such a result and the new object, because C++ keeps
  what was written before the throw. \<^verbatim>\<open>UndefinedBehaviour\<close> is not an exception the
  program could catch: it marks the inputs for which C++ gives the code no meaning (a
  remainder by zero, an element past the end), so that no theorem can hide them.
\<close>

datatype exn =
    RuntimeError string
  | YamlError string
  | SystemError string
  | LengthError
  | BadVariantAccess
  | UndefinedBehaviour string

type_synonym 'a result = "exn + 'a"

named_theorems lb_simps "unfolding rules of the model's small operations"

subsection \<open>Results\<close>

definition rbind :: "'a result \<Rightarrow> ('a \<Rightarrow> 'b result) \<Rightarrow> 'b result" where
  "rbind r f = (case r of Inl e \<Rightarrow> Inl e | Inr x \<Rightarrow> f x)"

lemma rbind_simps [simp]:
  "rbind (Inl e) f = Inl e"
  "rbind (Inr x) f = f x"
  by (simp_all add: rbind_def)

lemma rbind_eq_Inr [simp]: "rbind r f = Inr y \<longleftrightarrow> (\<exists>x. r = Inr x \<and> f x = Inr y)"
  by (cases r) auto

lemma rbind_eq_Inl: "rbind r f = Inl e \<longleftrightarrow> r = Inl e \<or> (\<exists>x. r = Inr x \<and> f x = Inl e)"
  by (cases r) auto

fun rfold :: "('s \<Rightarrow> 'x \<Rightarrow> 's result) \<Rightarrow> 's \<Rightarrow> 'x list \<Rightarrow> 's result" where
  "rfold f s [] = Inr s"
| "rfold f s (x # xs) = rbind (f s x) (\<lambda>s'. rfold f s' xs)"

lemma rfold_append: "rfold f s (xs @ ys) = rbind (rfold f s xs) (\<lambda>s'. rfold f s' ys)"
  by (induction xs arbitrary: s) (auto simp: rbind_def split: sum.splits)

lemma rfold_invariant:
  assumes "rfold f s xs = Inr t" and "I s"
    and "\<And>s x s'. x \<in> set xs \<Longrightarrow> I s \<Longrightarrow> f s x = Inr s' \<Longrightarrow> I s'"
  shows "I t"
  using assms by (induction xs arbitrary: s) auto

lemma rfold_collect:
  "rfold (\<lambda>acc x. rbind (f x) (\<lambda>y. Inr (acc @ [y]))) acc xs = Inr ys \<longleftrightarrow>
    (\<exists>zs. ys = acc @ zs \<and> list_all2 (\<lambda>x z. f x = Inr z) xs zs)"
proof (induction xs arbitrary: acc)
  case Nil
  then show ?case by auto
next
  case (Cons x xs)
  then show ?case by (auto simp: list_all2_Cons1)
qed

lemma result_cases [case_names Throw Return]:
  obtains (Throw) e where "(r :: 'a result) = Inl e" | (Return) x where "r = Inr x"
  by (cases r) auto

subsection \<open>Decimal printing\<close>

fun dec :: "nat \<Rightarrow> string" where
  "dec n = (if n < 10 then [''0123456789'' ! n] else dec (n div 10) @ [''0123456789'' ! (n mod 10)])"

declare dec.simps [simp del]

definition is_digit :: "char \<Rightarrow> bool" where
  "is_digit c \<longleftrightarrow> c \<in> set ''0123456789''"

lemma digit_is_digit [simp]: "d < 10 \<Longrightarrow> is_digit (''0123456789'' ! d)"
  unfolding is_digit_def by (rule nth_mem) simp

lemma digit_inj: "d < 10 \<Longrightarrow> e < 10 \<Longrightarrow> ''0123456789'' ! d = ''0123456789'' ! e \<longleftrightarrow> d = e"
  by (subst nth_eq_iff_index_eq) auto

lemma dec_digits: "c \<in> set (dec n) \<Longrightarrow> is_digit c"
proof (induction n rule: dec.induct)
  case (1 n)
  then show ?case
    by (cases "n < 10") (auto simp: dec.simps [of n])
qed

lemma dec_not_Nil [simp]: "dec n \<noteq> []" "[] \<noteq> dec n"
  by (subst dec.simps, simp)+

lemma dec_inj [simp]: "dec m = dec n \<longleftrightarrow> m = n"
proof
  show "dec m = dec n \<Longrightarrow> m = n"
  proof (induction m arbitrary: n rule: dec.induct)
    case (1 m)
    show ?case
    proof (cases "m < 10 \<or> n < 10")
      case True
      with 1(2) show ?thesis
        by (auto simp: dec.simps [of m] dec.simps [of n] digit_inj split: if_splits)
    next
      case False
      with 1(2) have "dec (m div 10) = dec (n div 10)" and "m mod 10 = n mod 10"
        by (auto simp: dec.simps [of m] dec.simps [of n] digit_inj)
      with 1(1) False have "m div 10 = n div 10" and "m mod 10 = n mod 10" by auto
      then show ?thesis by (metis div_mult_mod_eq)
    qed
  qed
qed simp

lemma digit_not_special:
  "is_digit c \<Longrightarrow> c \<noteq> CHR '':'' \<and> c \<noteq> CHR ''#'' \<and> c \<noteq> CHR ''/'' \<and> c \<noteq> CHR ''?'' \<and> c \<noteq> CHR '' ''"
  by (auto simp: is_digit_def)

lemma dec_no_colon [simp]: "CHR '':'' \<notin> set (dec n)"
  using dec_digits digit_not_special by blast

subsection \<open>Lists\<close>

lemma append_sep_last_eq:
  assumes "xs @ c # ys = xs' @ c # ys'" and "c \<notin> set ys" and "c \<notin> set ys'"
  shows "xs = xs' \<and> ys = ys'"
proof -
  have "takeWhile (\<lambda>x. x \<noteq> c) (rev zs @ c # rev us) = rev zs" if "c \<notin> set zs" for zs us
    using that by (induction zs rule: rev_induct) auto
  from this [OF assms(2), of xs] this [OF assms(3), of xs'] have "rev ys = rev ys'"
    using arg_cong [OF assms(1), of rev] by simp
  with assms(1) show ?thesis by simp
qed

lemma takeWhile_append_stop: "\<forall>x \<in> set xs. P x \<Longrightarrow> \<not> P y \<Longrightarrow> takeWhile P (xs @ y # ys) = xs"
  by (induction xs) auto

lemma find_filter_keep: "find Q xs = Some e \<Longrightarrow> P e \<Longrightarrow> find Q (filter P xs) = Some e"
  by (induction xs) (auto split: if_splits)

lemma find_filter_None: "find Q xs = None \<Longrightarrow> find Q (filter P xs) = None"
  by (induction xs) (auto split: if_splits)

lemma hd_filter_keep: "xs \<noteq> [] \<Longrightarrow> P (hd xs) \<Longrightarrow> hd (filter P xs) = hd xs"
  by (cases xs) auto

primrec first_index :: "('x \<Rightarrow> bool) \<Rightarrow> 'x list \<Rightarrow> nat option" where
  "first_index P [] = None"
| "first_index P (x # xs) = (if P x then Some 0 else map_option Suc (first_index P xs))"

definition erase_at :: "nat \<Rightarrow> 'x list \<Rightarrow> 'x list" where
  "erase_at i xs = take i xs @ drop (Suc i) xs"

lemma first_index_Some:
  "first_index P xs = Some i \<Longrightarrow> i < length xs \<and> P (xs ! i) \<and> (\<forall>j < i. \<not> P (xs ! j))"
proof (induction xs arbitrary: i)
  case (Cons x xs)
  then show ?case by (auto simp: less_Suc_eq_0_disj split: if_splits)
qed simp

lemma first_index_None: "first_index P xs = None \<longleftrightarrow> (\<forall>x \<in> set xs. \<not> P x)"
  by (induction xs) auto

lemma length_erase_at [simp]: "i < length xs \<Longrightarrow> length (erase_at i xs) = length xs - 1"
  by (simp add: erase_at_def)

lemma erase_at_Cons [simp]:
  "erase_at 0 (x # xs) = xs" "erase_at (Suc i) (x # xs) = x # erase_at i xs"
  by (simp_all add: erase_at_def)

lemma set_erase_at_subset: "set (erase_at i xs) \<subseteq> set xs"
  by (auto simp: erase_at_def dest: in_set_takeD in_set_dropD)

lemma set_erase_at: "i < length xs \<Longrightarrow> set xs = insert (xs ! i) (set (erase_at i xs))"
  unfolding erase_at_def
  by (metis id_take_nth_drop list.simps(15) set_append Un_insert_right)

lemma map_erase_at: "map f (erase_at i xs) = erase_at i (map f xs)"
  by (simp add: erase_at_def take_map drop_map)

lemma erase_at_list_update: "erase_at i (xs[i := x]) = erase_at i xs"
  by (simp add: erase_at_def)

lemma sorted_wrt_erase_at: "sorted_wrt R xs \<Longrightarrow> sorted_wrt R (erase_at i xs)"
proof (induction xs arbitrary: i)
  case (Cons x xs)
  then show ?case
    using set_erase_at_subset [of _ xs] by (cases i) auto
qed (simp add: erase_at_def)

text \<open>How many elements of a list have a property.\<close>

definition tally :: "('x \<Rightarrow> bool) \<Rightarrow> 'x list \<Rightarrow> nat" where
  "tally P xs = length (filter P xs)"

lemma tally_simps [simp]:
  "tally P [] = 0" "tally P (x # xs) = tally P xs + (if P x then 1 else 0)" "tally P (xs @ ys) = tally P xs + tally P ys"
  by (simp_all add: tally_def)

lemma tally_erase_at: "i < length xs \<Longrightarrow> tally P xs = tally P (erase_at i xs) + (if P (xs ! i) then 1 else 0)"
  by (subst id_take_nth_drop [of i xs]) (simp_all add: erase_at_def)

lemma tally_update: "i < length xs \<Longrightarrow> P x = P (xs ! i) \<Longrightarrow> tally P (xs[i := x]) = tally P xs"
  using tally_erase_at [of i xs P] tally_erase_at [of i "xs[i := x]" P] by (simp add: erase_at_list_update)

subsection \<open>Partial maps\<close>

lemma ran_delete: "m k = Some w \<Longrightarrow> ran m = insert w (ran (m(k := None)))"
  by (auto simp: ran_def) (metis option.inject)

lemma image_ran_upd:
  assumes "m key = Some w" and "f w' = f w"
  shows "f ` ran (m(key \<mapsto> w')) = f ` ran m"
proof -
  have "ran (m(key \<mapsto> w')) = insert w' (ran (m(key := None)))"
    by (auto simp: ran_def split: if_splits)
  with assms ran_delete [of m key w] show ?thesis by simp
qed

lemma ex_key_upd:
  "m k = None \<Longrightarrow> (\<exists>j. (m(k \<mapsto> x)) j = Some v \<and> P) \<longleftrightarrow> v = x \<and> P \<or> (\<exists>j. m j = Some v \<and> P)"
  by (auto simp: fun_upd_def) (metis option.distinct(1))

lemma ex_key_delete:
  "m k = Some w \<Longrightarrow> w \<noteq> v \<Longrightarrow> (\<exists>j. (m(k := None)) j = Some v \<and> P) \<longleftrightarrow> (\<exists>j. m j = Some v \<and> P)"
  by (auto simp: fun_upd_def) (metis option.inject)

end
