(* ===== verification/Regex_Match.thy ===== *)
theory Regex_Match
  imports LB_Prelude
begin

section \<open>The regular expressions the program hands to CTRE\<close>

text \<open>
  \<^verbatim>\<open>src/lb/url.hpp\<close> matches URLs with a compile-time regular expression. The matcher is
  the third-party library CTRE, whose documented semantics is that of PCRE: repetitions and
  optional groups are greedy, alternatives are tried from the longest to the shortest, and the
  whole string must be consumed (\<^verbatim>\<open>ctre::match\<close>).

  This theory gives the abstract syntax of the constructs the pattern uses, that documented
  backtracking semantics as an executable function \<^verbatim>\<open>rx_match\<close>, and the declarative
  language of a pattern, \<^verbatim>\<open>rx_derives\<close>. The equivalence of the two says when a match
  exists; the greedy lemmas say which one is found.
\<close>

datatype rx =
    Chars "char \<Rightarrow> bool" nat "nat option"
  | Cat rx rx
  | Maybe rx
  | Group nat rx

type_synonym caps = "nat \<Rightarrow> string"

definition Lit :: "char \<Rightarrow> rx" where
  "Lit c = Chars (\<lambda>x. x = c) 1 (Some 1)"

definition no_caps :: caps where
  "no_caps = (\<lambda>_. [])"

primrec try_lengths :: "nat \<Rightarrow> nat \<Rightarrow> (nat \<Rightarrow> 'r option) \<Rightarrow> 'r option" where
  "try_lengths lo 0 f = (if lo = 0 then f 0 else None)"
| "try_lengths lo (Suc m) f =
     (if Suc m < lo then None
      else case f (Suc m) of Some r \<Rightarrow> Some r | None \<Rightarrow> try_lengths lo m f)"

definition run_length :: "(char \<Rightarrow> bool) \<Rightarrow> nat option \<Rightarrow> string \<Rightarrow> nat" where
  "run_length P hi s =
     (case hi of None \<Rightarrow> length (takeWhile P s) | Some h \<Rightarrow> min h (length (takeWhile P s)))"

primrec rx_bt :: "rx \<Rightarrow> caps \<Rightarrow> string \<Rightarrow> (caps \<Rightarrow> string \<Rightarrow> 'r option) \<Rightarrow> 'r option" where
  "rx_bt (Chars P lo hi) c s k = try_lengths lo (run_length P hi s) (\<lambda>n. k c (drop n s))"
| "rx_bt (Cat a b) c s k = rx_bt a c s (\<lambda>c' s'. rx_bt b c' s' k)"
| "rx_bt (Maybe a) c s k = (case rx_bt a c s k of Some r \<Rightarrow> Some r | None \<Rightarrow> k c s)"
| "rx_bt (Group i a) c s k =
     rx_bt a c s (\<lambda>c' s'. k (c'(i := take (length s - length s') s)) s')"

definition rx_match :: "rx \<Rightarrow> string \<Rightarrow> caps option" where
  "rx_match r s = rx_bt r no_caps s (\<lambda>c s'. if s' = [] then Some c else None)"

subsection \<open>The language of a pattern\<close>

inductive rx_derives :: "rx \<Rightarrow> caps \<Rightarrow> string \<Rightarrow> caps \<Rightarrow> string \<Rightarrow> bool" where
  chars: "lo \<le> length u \<Longrightarrow> (case hi of None \<Rightarrow> True | Some h \<Rightarrow> length u \<le> h) \<Longrightarrow>
     \<forall>x \<in> set u. P x \<Longrightarrow> rx_derives (Chars P lo hi) c (u @ s) c s"
| cat: "rx_derives a c s c' s' \<Longrightarrow> rx_derives b c' s' c'' s'' \<Longrightarrow> rx_derives (Cat a b) c s c'' s''"
| present: "rx_derives a c s c' s' \<Longrightarrow> rx_derives (Maybe a) c s c' s'"
| absent: "rx_derives (Maybe a) c s c s"
| group: "rx_derives a c (u @ s') c' s' \<Longrightarrow> rx_derives (Group i a) c (u @ s') (c'(i := u)) s'"

inductive_cases derives_CharsE: "rx_derives (Chars P lo hi) c s c' s'"
inductive_cases derives_CatE: "rx_derives (Cat a b) c s c' s'"
inductive_cases derives_MaybeE: "rx_derives (Maybe a) c s c' s'"
inductive_cases derives_GroupE: "rx_derives (Group i a) c s c' s'"

lemma derives_lit: "rx_derives (Lit x) c (x # s) c s"
  using rx_derives.chars [of 1 "[x]" "Some 1" "\<lambda>y. y = x" c s] by (simp add: Lit_def)

lemma derives_litE:
  assumes "rx_derives (Lit x) c s c' s'"
  obtains "s = x # s'" and "c' = c"
proof -
  from assms obtain u where u: "s = u @ s'" "c' = c" "length u = Suc 0" "\<forall>y \<in> set u. y = x"
    unfolding Lit_def by (elim derives_CharsE) simp
  then have "u = [x]" by (metis length_0_conv length_Suc_conv list.set_intros(1))
  with u(1,2) that show ?thesis by simp
qed

lemmas derives_elims = derives_CharsE derives_CatE derives_MaybeE derives_GroupE derives_litE

lemma derives_plain: "\<forall>x \<in> set u. P x \<Longrightarrow> lo \<le> length u \<Longrightarrow> rx_derives (Chars P lo None) c (u @ s) c s"
  by (rule rx_derives.chars) auto

primrec rx_groups :: "rx \<Rightarrow> nat set" where
  "rx_groups (Chars P lo hi) = {}"
| "rx_groups (Cat a b) = rx_groups a \<union> rx_groups b"
| "rx_groups (Maybe a) = rx_groups a"
| "rx_groups (Group i a) = insert i (rx_groups a)"

lemma rx_groups_Lit [simp]: "rx_groups (Lit x) = {}"
  by (simp add: Lit_def)

lemma derives_frame: "rx_derives r c s c' s' \<Longrightarrow> i \<notin> rx_groups r \<Longrightarrow> c' i = c i"
  by (induction rule: rx_derives.induct) auto

lemma derives_suffix: "rx_derives r c s c' s' \<Longrightarrow> \<exists>u. s = u @ s'"
  by (induction rule: rx_derives.induct) auto

lemma derives_group_take:
  assumes "rx_derives a c s c' s'"
  shows "rx_derives (Group i a) c s (c'(i := take (length s - length s') s)) s'"
proof -
  obtain u where s: "s = u @ s'" using derives_suffix [OF assms] by blast
  then show ?thesis using rx_derives.group [of a c u s' c' i] assms by simp
qed

lemma try_lengths_Some:
  "try_lengths lo m f = Some r \<Longrightarrow> \<exists>n. lo \<le> n \<and> n \<le> m \<and> f n = Some r"
proof (induction m)
  case (Suc m)
  then show ?case
    by (cases "f (Suc m)") (auto split: if_splits intro: le_SucI exI [of _ "Suc m"])
qed (auto split: if_splits)

lemma try_lengths_complete:
  "lo \<le> n \<Longrightarrow> n \<le> m \<Longrightarrow> f n \<noteq> None \<Longrightarrow> try_lengths lo m f \<noteq> None"
  by (induction m) (auto split: option.splits simp: le_Suc_eq)

lemma try_lengths_greedy: "lo \<le> m \<Longrightarrow> f m = Some r \<Longrightarrow> try_lengths lo m f = Some r"
  by (cases m) auto

lemma take_run_length: "n \<le> run_length P hi s \<Longrightarrow>
    length (take n s) = n \<and> (\<forall>x \<in> set (take n s). P x) \<and> (case hi of None \<Rightarrow> True | Some h \<Rightarrow> n \<le> h)"
proof -
  assume n: "n \<le> run_length P hi s"
  then have le: "n \<le> length (takeWhile P s)" by (auto simp: run_length_def split: option.splits)
  then have "take n s = take n (takeWhile P s)"
    by (metis takeWhile_eq_take take_take min.absorb1)
  with le n show ?thesis
    by (auto simp: run_length_def dest!: in_set_takeD set_takeWhileD split: option.splits)
qed

lemma length_le_run_length:
  "\<forall>x \<in> set u. P x \<Longrightarrow> (case hi of None \<Rightarrow> True | Some h \<Rightarrow> length u \<le> h) \<Longrightarrow>
    length u \<le> run_length P hi (u @ s)"
  by (auto simp: run_length_def takeWhile_append2 split: option.splits)

lemma rx_bt_sound: "rx_bt r c s k = Some x \<Longrightarrow> \<exists>c' s'. rx_derives r c s c' s' \<and> k c' s' = Some x"
proof (induction r arbitrary: c s k)
  case (Chars P lo hi)
  then obtain n where n: "lo \<le> n" "n \<le> run_length P hi s" "k c (drop n s) = Some x"
    by (auto dest: try_lengths_Some)
  have "rx_derives (Chars P lo hi) c (take n s @ drop n s) c (drop n s)"
    using take_run_length [OF n(2)] n(1)
    by (intro rx_derives.chars) (auto split: option.splits)
  with n(3) show ?case unfolding append_take_drop_id by (intro exI conjI)
next
  case (Cat a b)
  from Cat.prems have "rx_bt a c s (\<lambda>c' s'. rx_bt b c' s' k) = Some x" by simp
  from Cat.IH(1) [OF this] obtain c' s' where a: "rx_derives a c s c' s'" and b: "rx_bt b c' s' k = Some x"
    by blast
  from Cat.IH(2) [OF b] a show ?case by (blast intro: rx_derives.cat)
next
  case (Maybe a)
  then show ?case
    by (auto split: option.splits intro: rx_derives.present rx_derives.absent dest!: Maybe.IH)
next
  case (Group i a)
  from Group.prems have "rx_bt a c s (\<lambda>c' s'. k (c'(i := take (length s - length s') s)) s') = Some x"
    by simp
  from Group.IH [OF this] show ?case by (blast intro: derives_group_take)
qed

lemma rx_bt_complete: "rx_derives r c s c' s' \<Longrightarrow> k c' s' \<noteq> None \<Longrightarrow> rx_bt r c s k \<noteq> None"
proof (induction arbitrary: k rule: rx_derives.induct)
  case (chars lo u hi P c s)
  then show ?case
    using try_lengths_complete [of lo "length u" "run_length P hi (u @ s)" "\<lambda>n. k c (drop n (u @ s))"]
    by (auto dest: length_le_run_length)
next
  case (cat a c s c' s' b c'' s'')
  then show ?case by simp
next
  case (present a c s c' s')
  then have "rx_bt a c s k \<noteq> None" by blast
  then show ?case by auto
next
  case (absent a c s)
  then show ?case by (auto split: option.splits)
next
  case (group a c u s' c' i)
  let ?k = "\<lambda>c' r. k (c'(i := take (length (u @ s') - length r) (u @ s'))) r"
  from group.prems have "?k c' s' \<noteq> None" by (simp add: fun_upd_def)
  then have "rx_bt a c (u @ s') ?k \<noteq> None" by (rule group.IH)
  then show ?case by simp
qed

lemma rx_match_Some: "rx_match r s = Some c \<Longrightarrow> rx_derives r no_caps s c []"
  unfolding rx_match_def by (auto dest!: rx_bt_sound split: if_splits)

lemma rx_match_iff: "rx_match r s \<noteq> None \<longleftrightarrow> (\<exists>c. rx_derives r no_caps s c [])"
proof
  show "rx_match r s \<noteq> None \<Longrightarrow> \<exists>c. rx_derives r no_caps s c []"
    by (auto dest: rx_match_Some)
next
  assume "\<exists>c. rx_derives r no_caps s c []"
  then obtain c where "rx_derives r no_caps s c []" by blast
  then show "rx_match r s \<noteq> None"
    unfolding rx_match_def by (rule rx_bt_complete) simp
qed

subsection \<open>Greedy choices\<close>

text \<open>
  The first choice of a repetition is its longest run; when the rest of the pattern matches
  after it, that is the match found. These rules compute the match the library returns without
  enumerating the alternatives.
\<close>

definition longest_run :: "(char \<Rightarrow> bool) \<Rightarrow> nat \<Rightarrow> nat option \<Rightarrow> string \<Rightarrow> string \<Rightarrow> bool" where
  "longest_run P lo hi u s \<longleftrightarrow> list_all P u \<and> (s = [] \<or> \<not> P (hd s)) \<and> lo \<le> length u \<and>
     (case hi of None \<Rightarrow> True | Some h \<Rightarrow> length u \<le> h)"

lemma longest_run_length: "longest_run P lo hi u s \<Longrightarrow> run_length P hi (u @ s) = length u"
proof -
  assume "longest_run P lo hi u s"
  moreover from this have "takeWhile P (u @ s) = u"
    by (cases s) (auto simp: longest_run_def list_all_iff takeWhile_append_stop)
  ultimately show ?thesis
    by (auto simp: longest_run_def run_length_def split: option.splits)
qed

lemma bt_chars:
  "longest_run P lo hi u s \<Longrightarrow> k c s \<noteq> None \<Longrightarrow> rx_bt (Chars P lo hi) c (u @ s) k = k c s"
proof -
  assume run: "longest_run P lo hi u s" and "k c s \<noteq> None"
  then obtain y where y: "k c s = Some y" by blast
  from run have "lo \<le> length u" by (simp add: longest_run_def)
  with y longest_run_length [OF run]
  show "rx_bt (Chars P lo hi) c (u @ s) k = k c s"
    by (simp add: try_lengths_greedy)
qed

lemma bt_group_chars:
  assumes "longest_run P lo hi u s" and "k (c(i := u)) s \<noteq> None"
  shows "rx_bt (Group i (Chars P lo hi)) c (u @ s) k = k (c(i := u)) s"
  using bt_chars [OF assms(1), of "\<lambda>c' s'. k (c'(i := take (length (u @ s) - length s') (u @ s))) s'" c] assms(2)
  by (simp del: rx_bt.simps(1))

lemma bt_lit [simp]: "rx_bt (Lit x) c (x # s) k = k c s"
  by (simp add: Lit_def run_length_def split: option.splits)

lemma bt_lit_Nil [simp]: "rx_bt (Lit x) c [] k = None"
  by (simp add: Lit_def run_length_def)

lemma bt_lit_other [simp]: "y \<noteq> x \<Longrightarrow> rx_bt (Lit x) c (y # s) k = None"
  by (simp add: Lit_def run_length_def)

lemma bt_group_lit_chars:
  assumes "longest_run P lo hi u s" and "k (c(i := u, j := x # u)) s \<noteq> None"
  shows "rx_bt (Group j (Cat (Lit x) (Group i (Chars P lo hi)))) c (x # u @ s) k = k (c(i := u, j := x # u)) s"
proof -
  let ?k = "\<lambda>c' s'. k (c'(j := take (length (x # u @ s) - length s') (x # u @ s))) s'"
  have "?k (c(i := u)) s = k (c(i := u, j := x # u)) s" by (simp add: Suc_diff_le)
  with bt_group_chars [OF assms(1), of ?k c i] assms(2) show ?thesis
    by (simp del: rx_bt.simps(1) rx_bt.simps(4) add: rx_bt.simps(4) [of j])
qed

lemma bt_maybe_present: "rx_bt a c s k \<noteq> None \<Longrightarrow> rx_bt (Maybe a) c s k = rx_bt a c s k"
  by auto

lemma bt_maybe_absent: "rx_bt a c s k = None \<Longrightarrow> rx_bt (Maybe a) c s k = k c s"
  by auto

lemma bt_group_None:
  "(\<And>c' s'. \<not> rx_derives a c s c' s') \<Longrightarrow> rx_bt a c s k = None"
  by (cases "rx_bt a c s k") (auto dest: rx_bt_sound)

declare rx_bt.simps(1) [simp del]

end
