(* ===== verification/Environment.thy ===== *)
theory Environment
  imports Regex_Match
begin

section \<open>The libraries below the program\<close>

text \<open>
  Functions of libraries that are not part of the repository are fields of one record, passed
  to every definition that uses them:
  \<^item> \<^verbatim>\<open>ctre_match\<close>: \<^verbatim>\<open>ctre::match\<close> of a pattern on a string, with its captures;
  \<^item> \<^verbatim>\<open>addr_of_string\<close>, \<^verbatim>\<open>addr_to_string\<close>: \<^verbatim>\<open>boost::asio::ip::address::from_string\<close>
    (\<^verbatim>\<open>None\<close> where it throws) and \<^verbatim>\<open>address::to_string\<close>; the address type is a type
    variable;
  \<^item> \<^verbatim>\<open>std_hash\<close>: \<^verbatim>\<open>std::hash<std::string>\<close>, whose values the standard leaves to the
    implementation.

  The named hypotheses below state what the documentation of these libraries promises. The
  record \<^verbatim>\<open>sample_env\<close> satisfies all of them and is what the witnesses evaluate.
\<close>

record 'a env =
  ctre_match :: "rx \<Rightarrow> string \<Rightarrow> caps option"
  addr_of_string :: "string \<Rightarrow> 'a option"
  addr_to_string :: "'a \<Rightarrow> string"
  std_hash :: "string \<Rightarrow> 64 word"

definition pcre_env :: "'a env \<Rightarrow> bool" where
  "pcre_env E \<longleftrightarrow> (\<forall>r s. ctre_match E r s = rx_match r s)"

text \<open>Two different addresses never print alike.\<close>

definition addr_print_inj :: "'a env \<Rightarrow> bool" where
  "addr_print_inj E \<longleftrightarrow> inj (addr_to_string E)"

text \<open>The characters an IPv4 or IPv6 address is printed with (\<^verbatim>\<open>inet_ntop\<close>).\<close>

definition addr_char :: "char \<Rightarrow> bool" where
  "addr_char c \<longleftrightarrow> c \<in> set ''0123456789abcdef.:''"

definition addr_print_chars :: "'a env \<Rightarrow> bool" where
  "addr_print_chars E \<longleftrightarrow> (\<forall>a. addr_to_string E a \<noteq> [] \<and> list_all addr_char (addr_to_string E a))"

lemma pcre_envD: "pcre_env E \<Longrightarrow> ctre_match E r s = rx_match r s"
  by (simp add: pcre_env_def)

subsection \<open>A sample environment\<close>

text \<open>
  Addresses are the strings they print as; a string is an address when it is made of address
  characters; the hash is a polynomial in the characters, modulo \<^verbatim>\<open>2^64\<close>.
\<close>

typedef sample_addr = "{s :: string. s \<noteq> [] \<and> list_all addr_char s}"
  morphisms print_addr Sample_addr
proof
  show "''0'' \<in> {s. s \<noteq> [] \<and> list_all addr_char s}" by (simp add: addr_char_def)
qed

definition sample_hash :: "string \<Rightarrow> 64 word" where
  "sample_hash s = fold (\<lambda>c h. h * 31 + word_of_nat (of_char c)) s 7"

definition sample_env :: "sample_addr env" where
  "sample_env = \<lparr>
     ctre_match = rx_match,
     addr_of_string = (\<lambda>s. if s \<noteq> [] \<and> list_all addr_char s then Some (Sample_addr s) else None),
     addr_to_string = print_addr,
     std_hash = sample_hash\<rparr>"

lemma print_Sample_addr [simp]:
  "s \<noteq> [] \<Longrightarrow> list_all addr_char s \<Longrightarrow> print_addr (Sample_addr s) = s"
  by (simp add: Sample_addr_inverse)

lemma sample_env_ok [simp]:
  "pcre_env sample_env" "addr_print_inj sample_env" "addr_print_chars sample_env"
  using print_addr
  by (auto simp: pcre_env_def addr_print_inj_def addr_print_chars_def sample_env_def
        inj_def print_addr_inject)

lemma sample_addr_of_string [simp]:
  "s \<noteq> [] \<Longrightarrow> list_all addr_char s \<Longrightarrow> addr_of_string sample_env s = Some (Sample_addr s)"
  by (simp add: sample_env_def)

lemma sample_addr_to_string [simp]: "addr_to_string sample_env = print_addr"
  by (simp add: sample_env_def)

lemma sample_std_hash [simp]: "std_hash sample_env = sample_hash"
  by (simp add: sample_env_def)

end
