(* ===== verification/Url.thy ===== *)
theory Url
  imports Environment
begin

section \<open>URLs: \<^verbatim>\<open>src/lb/url.hpp\<close>, \<^verbatim>\<open>src/lb/url.cpp\<close>\<close>

text \<open>
  The pattern, the constructor of \<^verbatim>\<open>lb::Url\<close>, \<^verbatim>\<open>IsUrl\<close>, \<^verbatim>\<open>DefaultProtocolPort\<close> and the
  comparison. The theorems: which strings the pattern accepts at all; that the constructor
  recovers the components of every URL written in the usual way; and that a query or fragment
  that follows the host without a path ends up in the host name.
\<close>

definition whitespace :: "char \<Rightarrow> bool" where
  "whitespace c \<longleftrightarrow> c \<in> {CHR '' '', CHR 0x09, CHR 0x0A, CHR 0x0B, CHR 0x0C, CHR 0x0D}"

definition word_char :: "char \<Rightarrow> bool" where
  "word_char c \<longleftrightarrow>
     c \<in> set ''ABCDEFGHIJKLMNOPQRSTUVWXYZabcdefghijklmnopqrstuvwxyz0123456789_''"

definition host_char :: "char \<Rightarrow> bool" where
  "host_char c \<longleftrightarrow> c \<noteq> CHR ''/'' \<and> \<not> whitespace c \<and> c \<noteq> CHR '':''"

definition path_char :: "char \<Rightarrow> bool" where
  "path_char c \<longleftrightarrow> c \<noteq> CHR ''?'' \<and> \<not> whitespace c \<and> c \<noteq> CHR ''#''"

definition query_char :: "char \<Rightarrow> bool" where
  "query_char c \<longleftrightarrow> \<not> whitespace c \<and> c \<noteq> CHR ''#''"

definition fragment_char :: "char \<Rightarrow> bool" where
  "fragment_char c \<longleftrightarrow> \<not> whitespace c"

abbreviation protocol_rx :: rx where
  "protocol_rx \<equiv> Maybe (Group 1 (Cat (Group 2 (Chars word_char 1 None))
     (Cat (Lit CHR '':'') (Cat (Lit CHR ''/'') (Lit CHR ''/'')))))"

abbreviation host_rx :: rx where
  "host_rx \<equiv> Group 3 (Chars host_char 1 None)"

abbreviation port_rx :: rx where
  "port_rx \<equiv> Maybe (Group 4 (Cat (Lit CHR '':'') (Group 5 (Chars is_digit 2 (Some 5)))))"

abbreviation path_rx :: rx where
  "path_rx \<equiv> Group 6 (Chars path_char 0 None)"

abbreviation query_rx :: rx where
  "query_rx \<equiv> Maybe (Group 7 (Cat (Lit CHR ''?'') (Group 8 (Chars query_char 0 None))))"

abbreviation fragment_rx :: rx where
  "fragment_rx \<equiv> Maybe (Group 9 (Cat (Lit CHR ''#'') (Group 10 (Chars fragment_char 0 None))))"

definition url_pattern :: rx where
  "url_pattern = Cat protocol_rx (Cat host_rx (Cat port_rx (Cat path_rx (Cat query_rx fragment_rx))))"

record url =
  whole_url :: string
  u_protocol :: string
  u_hostname :: string
  u_port :: string
  u_path :: string
  u_query :: string
  u_fragment :: string

definition protocol_to_default_port :: "string \<rightharpoonup> string" where
  "protocol_to_default_port = map_of [(''http'', ''80''), (''https'', ''443''), (''ftp'', ''21''), (''ssh'', ''22'')]"

definition DefaultProtocolPort :: "string \<Rightarrow> string result" where
  "DefaultProtocolPort protocol =
     (case protocol_to_default_port protocol of
        Some p \<Rightarrow> Inr p
      | None \<Rightarrow> Inl (RuntimeError
          (''Unknown protocol: '' @ protocol @ ''. Specify port mannualy'')))"

definition IsUrl :: "'a env \<Rightarrow> string \<Rightarrow> bool" where
  "IsUrl E src \<longleftrightarrow> ctre_match E url_pattern src \<noteq> None"

definition Url_ctor :: "'a env \<Rightarrow> string \<Rightarrow> url result" where
  "Url_ctor E s =
     (case ctre_match E url_pattern s of
        None \<Rightarrow> Inl (RuntimeError (''Invalid url: '' @ s))
      | Some m \<Rightarrow>
          let protocol = (if m 2 \<noteq> [] then m 2 else ''http'') in
          rbind (if m 5 \<noteq> [] then Inr (m 5) else DefaultProtocolPort protocol)
            (\<lambda>port. Inr \<lparr>whole_url = s, u_protocol = protocol, u_hostname = m 3, u_port = port,
               u_path = m 6, u_query = m 8, u_fragment = m 10\<rparr>))"

definition Url_Protocol :: "url \<Rightarrow> string" where
  "Url_Protocol u = u_protocol u"

definition Url_Hostname :: "url \<Rightarrow> string" where
  "Url_Hostname u = u_hostname u"

definition Url_Port :: "url \<Rightarrow> string" where
  "Url_Port u = u_port u"

definition Url_Path :: "url \<Rightarrow> string" where
  "Url_Path u = u_path u"

definition Url_Query :: "url \<Rightarrow> string" where
  "Url_Query u = u_query u"

definition Url_Fragment :: "url \<Rightarrow> string" where
  "Url_Fragment u = u_fragment u"

definition Url_ToString :: "url \<Rightarrow> string" where
  "Url_ToString u = whole_url u"

lemmas url_getters [simp] = Url_Protocol_def Url_Hostname_def Url_Port_def Url_Path_def Url_Query_def
  Url_Fragment_def Url_ToString_def

definition url_eq :: "url \<Rightarrow> url \<Rightarrow> bool" where
  "url_eq lhs rhs \<longleftrightarrow> Url_ToString lhs = Url_ToString rhs"

subsection \<open>Which strings are URLs\<close>

definition url_syntax :: "string \<Rightarrow> bool" where
  "url_syntax s \<longleftrightarrow>
     s \<noteq> [] \<and> (\<forall>c \<in> set s. \<not> whitespace c) \<and> hd s \<noteq> CHR ''/'' \<and> hd s \<noteq> CHR '':''"

lemmas char_classes = host_char_def path_char_def query_char_def fragment_char_def

lemma word_charD:
  "word_char c \<Longrightarrow> \<not> whitespace c \<and> c \<noteq> CHR ''/'' \<and> c \<noteq> CHR '':''"
proof -
  have "\<not> word_char c" if "whitespace c \<or> c = CHR ''/'' \<or> c = CHR '':''"
    using that unfolding whitespace_def insert_iff by (elim disjE emptyE) (simp_all add: word_char_def)
  then show "word_char c \<Longrightarrow> ?thesis" by blast
qed

lemma digit_class: "is_digit c \<Longrightarrow> \<not> whitespace c \<and> path_char c \<and> host_char c"
  by (auto simp: is_digit_def whitespace_def path_char_def host_char_def)

lemma not_whitespace_punct [simp]:
  "\<not> whitespace CHR '':''" "\<not> whitespace CHR ''/''" "\<not> whitespace CHR ''?''" "\<not> whitespace CHR ''#''"
  by (auto simp: whitespace_def)

lemma derives_tail:
  assumes "\<forall>c \<in> set s. \<not> whitespace c"
  shows "\<exists>c'. rx_derives (Cat path_rx (Cat query_rx fragment_rx)) c s c' []"
proof -
  have frag: "\<exists>c'. rx_derives fragment_rx c t c' []"
    if "\<forall>c \<in> set t. \<not> whitespace c" and "t = [] \<or> hd t = CHR ''#''" for c t
  proof (cases t)
    case (Cons x f)
    with that have x: "x = CHR ''#''" and f: "\<forall>c \<in> set f. fragment_char c"
      by (auto simp: fragment_char_def)
    have "rx_derives (Group 10 (Chars fragment_char 0 None)) c (f @ []) (c(10 := f)) []"
      using f by (intro rx_derives.group derives_plain) auto
    with Cons x have "rx_derives (Cat (Lit CHR ''#'') (Group 10 (Chars fragment_char 0 None))) c (t @ []) (c(10 := f)) []"
      by (auto intro: rx_derives.cat derives_lit)
    from rx_derives.present [OF rx_derives.group [OF this, of 9]] show ?thesis by auto
  qed (auto intro: rx_derives.absent)
  have quer: "\<exists>c'. rx_derives (Cat query_rx fragment_rx) c t c' []"
    if t: "\<forall>c \<in> set t. \<not> whitespace c" "t = [] \<or> \<not> path_char (hd t)" for c t
  proof (cases "t \<noteq> [] \<and> hd t = CHR ''?''")
    case True
    then obtain q where q: "t = CHR ''?'' # q" by (cases t) auto
    define u v where "u = takeWhile query_char q" and "v = dropWhile query_char q"
    have uv: "q = u @ v" and u: "\<forall>c \<in> set u. query_char c"
      by (auto simp: u_def v_def dest: set_takeWhileD)
    have v': "\<forall>c \<in> set v. \<not> whitespace c" using t(1) q uv by auto
    have "v = [] \<or> \<not> query_char (hd v)"
      using hd_dropWhile [of query_char q] by (auto simp: v_def [symmetric])
    with v' have v: "v = [] \<or> hd v = CHR ''#''" by (cases v) (auto simp: query_char_def)
    have "rx_derives (Group 8 (Chars query_char 0 None)) c (u @ v) (c(8 := u)) v"
      using u by (intro rx_derives.group derives_plain) auto
    then have "rx_derives (Cat (Lit CHR ''?'') (Group 8 (Chars query_char 0 None))) c ((CHR ''?'' # u) @ v) (c(8 := u)) v"
      by (auto intro: rx_derives.cat derives_lit)
    from rx_derives.present [OF rx_derives.group [OF this, of 7]]
    have "rx_derives query_rx c t (c(8 := u, 7 := CHR ''?'' # u)) v" by (simp add: q uv)
    with frag [OF v' v] show ?thesis by (blast intro: rx_derives.cat)
  next
    case False
    with t have "t = [] \<or> hd t = CHR ''#''" by (cases t) (auto simp: path_char_def)
    from frag [OF t(1) this] show ?thesis by (blast intro: rx_derives.cat rx_derives.absent)
  qed
  define u v where "u = takeWhile path_char s" and "v = dropWhile path_char s"
  have uv: "s = u @ v" and u: "\<forall>c \<in> set u. path_char c"
    by (auto simp: u_def v_def dest: set_takeWhileD)
  have v: "v = [] \<or> \<not> path_char (hd v)"
    using hd_dropWhile [of path_char s] by (auto simp: v_def [symmetric])
  have v': "\<forall>c \<in> set v. \<not> whitespace c" using assms uv by auto
  have "rx_derives path_rx c (u @ v) (c(6 := u)) v"
    using u by (intro rx_derives.group derives_plain) auto
  with quer [OF v' v] show ?thesis unfolding uv by (blast intro: rx_derives.cat)
qed

lemma url_syntax_derives:
  assumes "url_syntax s"
  shows "\<exists>c'. rx_derives url_pattern c s c' []"
proof -
  from assms obtain x t where s: "s = [x] @ t" and x: "host_char x" and t: "\<forall>c \<in> set t. \<not> whitespace c"
    by (cases s) (auto simp: url_syntax_def host_char_def)
  have host: "rx_derives host_rx c s (c(3 := [x])) t"
    unfolding s using x by (intro rx_derives.group derives_plain) auto
  obtain c' where "rx_derives (Cat path_rx (Cat query_rx fragment_rx)) (c(3 := [x])) t c' []"
    using derives_tail [OF t] by blast
  then have "rx_derives url_pattern c s c' []"
    unfolding url_pattern_def
    by (intro rx_derives.cat [OF rx_derives.absent] rx_derives.cat [OF host])
  then show ?thesis by blast
qed

lemma port_rx_chars:
  "rx_derives port_rx c s c' s' \<Longrightarrow> \<exists>u. s = u @ s' \<and> (\<forall>x \<in> set u. \<not> whitespace x)"
  by (fastforce elim!: derives_elims dest: digit_class)

lemma path_rx_chars:
  "rx_derives path_rx c s c' s' \<Longrightarrow> \<exists>u. s = u @ s' \<and> (\<forall>x \<in> set u. \<not> whitespace x)"
  by (fastforce elim!: derives_elims simp: path_char_def)

lemma query_rx_chars:
  "rx_derives query_rx c s c' s' \<Longrightarrow> \<exists>u. s = u @ s' \<and> (\<forall>x \<in> set u. \<not> whitespace x)"
  by (fastforce elim!: derives_elims simp: query_char_def)

lemma fragment_rx_chars:
  "rx_derives fragment_rx c s c' s' \<Longrightarrow> \<exists>u. s = u @ s' \<and> (\<forall>x \<in> set u. \<not> whitespace x)"
  by (fastforce elim!: derives_elims simp: fragment_char_def)

lemma host_rx_chars:
  "rx_derives host_rx c s c' s' \<Longrightarrow> \<exists>u. s = u @ s' \<and> u \<noteq> [] \<and> (\<forall>x \<in> set u. host_char x) \<and> c' = c(3 := u)"
  by (fastforce elim!: derives_elims)

lemma protocol_rx_chars:
  assumes "rx_derives protocol_rx c s c' s'"
  shows "s = s' \<and> c' = c \<or>
    (\<exists>w. w \<noteq> [] \<and> (\<forall>x \<in> set w. word_char x) \<and> s = w @ ''://'' @ s' \<and> c' = c(2 := w, 1 := w @ ''://''))"
  using assms by (elim derives_elims) auto

lemma derives_url_syntax:
  assumes "rx_derives url_pattern c s c' []"
  shows "url_syntax s"
proof -
  from assms obtain c1 s1 c2 s2 c3 s3 c4 s4 c5 s5 where
    p: "rx_derives protocol_rx c s c1 s1" and h: "rx_derives host_rx c1 s1 c2 s2"
    and "rx_derives port_rx c2 s2 c3 s3" "rx_derives path_rx c3 s3 c4 s4"
      "rx_derives query_rx c4 s4 c5 s5" "rx_derives fragment_rx c5 s5 c' []"
    unfolding url_pattern_def by (elim derives_CatE) blast
  then have s2: "\<forall>x \<in> set s2. \<not> whitespace x"
    by (force dest!: port_rx_chars path_rx_chars query_rx_chars fragment_rx_chars)
  from h obtain u where u: "s1 = u @ s2" "u \<noteq> []" "\<forall>x \<in> set u. host_char x"
    by (blast dest: host_rx_chars)
  then have s1: "url_syntax s1"
    using s2 by (cases u) (auto simp: url_syntax_def host_char_def)
  from protocol_rx_chars [OF p] show ?thesis
  proof (elim disjE exE conjE)
    fix w assume "w \<noteq> []" "\<forall>x \<in> set w. word_char x" "s = w @ ''://'' @ s1"
    with s1 show ?thesis
      by (cases w) (auto simp: url_syntax_def dest: word_charD)
  qed (use s1 in simp)
qed

lemma match_iff_url_syntax: "rx_match url_pattern s \<noteq> None \<longleftrightarrow> url_syntax s"
  using url_syntax_derives derives_url_syntax by (auto simp: rx_match_iff simp del: not_None_eq)

lemma no_slash_no_protocol:
  assumes "rx_match url_pattern s = Some c" and "CHR ''/'' \<notin> set s"
  shows "c 2 = []"
proof -
  from rx_match_Some [OF assms(1)] obtain c1 s1 where
    p: "rx_derives protocol_rx no_caps s c1 s1" and
    r: "rx_derives (Cat host_rx (Cat port_rx (Cat path_rx (Cat query_rx fragment_rx)))) c1 s1 c []"
    unfolding url_pattern_def by (rule derives_CatE)
  from protocol_rx_chars [OF p] assms(2) have "c1 = no_caps" by auto
  with derives_frame [OF r, of 2] show ?thesis by (simp add: no_caps_def)
qed

text \<open>
  A string without a slash that the pattern accepts (\<^verbatim>\<open>address:port#replica\<close>, the names of the
  replicas on the hash ring, is one) is always a URL the constructor accepts: its protocol
  defaults to \<^verbatim>\<open>http\<close>, whose port is known.
\<close>

lemma Url_ctor_no_slash:
  assumes "pcre_env E" and "url_syntax s" and "CHR ''/'' \<notin> set s"
  shows "\<exists>u. Url_ctor E s = Inr u \<and> whole_url u = s \<and> u_protocol u = ''http''"
proof -
  from assms(2) obtain c where "rx_match url_pattern s = Some c"
    using match_iff_url_syntax [of s] by auto
  with no_slash_no_protocol [OF this assms(3)] assms(1) show ?thesis
    by (auto simp: Url_ctor_def pcre_envD DefaultProtocolPort_def protocol_to_default_port_def Let_def)
qed

lemma Url_ctor_whole: "Url_ctor E s = Inr u \<Longrightarrow> whole_url u = s"
  by (auto simp: Url_ctor_def Let_def split: option.splits)

lemma Url_ctor_invalid:
  "pcre_env E \<Longrightarrow> \<not> url_syntax s \<Longrightarrow> Url_ctor E s = Inl (RuntimeError (''Invalid url: '' @ s))"
  using match_iff_url_syntax [of s] by (auto simp: Url_ctor_def pcre_envD)

subsection \<open>Components are recovered\<close>

record url_parts =
  p_protocol :: "string option"
  p_host :: string
  p_port :: "string option"
  p_path :: string
  p_query :: "string option"
  p_fragment :: "string option"

definition opt_str :: "string option \<Rightarrow> string" where
  "opt_str x = (case x of None \<Rightarrow> [] | Some s \<Rightarrow> s)"

definition query_suffix :: "string option \<Rightarrow> string" where
  "query_suffix x = (case x of None \<Rightarrow> [] | Some q \<Rightarrow> ''?'' @ q)"

definition fragment_suffix :: "string option \<Rightarrow> string" where
  "fragment_suffix x = (case x of None \<Rightarrow> [] | Some f \<Rightarrow> ''#'' @ f)"

definition port_suffix :: "string option \<Rightarrow> string" where
  "port_suffix x = (case x of None \<Rightarrow> [] | Some p \<Rightarrow> '':'' @ p)"

definition protocol_prefix :: "string option \<Rightarrow> string" where
  "protocol_prefix x = (case x of None \<Rightarrow> [] | Some p \<Rightarrow> p @ ''://'')"

definition render :: "url_parts \<Rightarrow> string" where
  "render p = protocol_prefix (p_protocol p) @ p_host p @ port_suffix (p_port p) @ p_path p @
     query_suffix (p_query p) @ fragment_suffix (p_fragment p)"

definition wf_parts :: "url_parts \<Rightarrow> bool" where
  "wf_parts p \<longleftrightarrow>
     list_all word_char (opt_str (p_protocol p)) \<and> p_protocol p \<noteq> Some [] \<and>
     p_host p \<noteq> [] \<and> list_all host_char (p_host p) \<and>
     list_all is_digit (opt_str (p_port p)) \<and>
     (case p_port p of None \<Rightarrow> True | Some d \<Rightarrow> 2 \<le> length d \<and> length d \<le> 5) \<and>
     list_all path_char (p_path p) \<and> (p_path p = [] \<or> hd (p_path p) = CHR ''/'') \<and>
     list_all query_char (opt_str (p_query p)) \<and> list_all fragment_char (opt_str (p_fragment p)) \<and>
     (p_port p = None \<and> p_path p = [] \<longrightarrow> p_query p = None \<and> p_fragment p = None)"

lemma suffix_simps [simp]:
  "opt_str None = []" "opt_str (Some s) = s"
  "query_suffix None = []" "query_suffix (Some s) = CHR ''?'' # s"
  "fragment_suffix None = []" "fragment_suffix (Some s) = CHR ''#'' # s"
  "port_suffix None = []" "port_suffix (Some s) = CHR '':'' # s"
  "protocol_prefix None = []" "protocol_prefix (Some s) = s @ ''://''"
  by (simp_all add: opt_str_def query_suffix_def fragment_suffix_def port_suffix_def protocol_prefix_def)

definition accept :: "caps \<Rightarrow> string \<Rightarrow> caps option" where
  "accept c s = (if s = [] then Some c else None)"

definition cap_fragment :: "string option \<Rightarrow> caps \<Rightarrow> caps" where
  "cap_fragment fo c = (case fo of None \<Rightarrow> c | Some f \<Rightarrow> c(10 := f, 9 := CHR ''#'' # f))"

definition cap_query :: "string option \<Rightarrow> caps \<Rightarrow> caps" where
  "cap_query qo c = (case qo of None \<Rightarrow> c | Some q \<Rightarrow> c(8 := q, 7 := CHR ''?'' # q))"

definition cap_port :: "string option \<Rightarrow> caps \<Rightarrow> caps" where
  "cap_port po c = (case po of None \<Rightarrow> c | Some d \<Rightarrow> c(5 := d, 4 := CHR '':'' # d))"

definition cap_protocol :: "string option \<Rightarrow> caps \<Rightarrow> caps" where
  "cap_protocol po c = (case po of None \<Rightarrow> c | Some w \<Rightarrow> c(2 := w, 1 := w @ ''://''))"

lemma bt_fragment:
  assumes "list_all fragment_char (opt_str fo)"
  shows "rx_bt fragment_rx c (fragment_suffix fo) accept = Some (cap_fragment fo c)"
proof (cases fo)
  case None
  then show ?thesis by (simp add: cap_fragment_def accept_def)
next
  case (Some f)
  with assms have "longest_run fragment_char 0 None f []" by (simp add: longest_run_def)
  from bt_group_lit_chars [OF this, of accept c 10 9 "CHR ''#''"] Some show ?thesis
    by (simp add: cap_fragment_def accept_def del: rx_bt.simps(4))
qed

lemma bt_query:
  assumes "list_all query_char (opt_str qo)" and "list_all fragment_char (opt_str fo)"
  shows "rx_bt (Cat query_rx fragment_rx) c (query_suffix qo @ fragment_suffix fo) accept =
    Some (cap_fragment fo (cap_query qo c))"
proof (cases qo)
  case None
  then show ?thesis
    using bt_fragment [OF assms(2), of c] by (cases fo) (simp_all add: cap_query_def)
next
  case (Some q)
  with assms have "longest_run query_char 0 None q (fragment_suffix fo)"
    by (cases fo) (auto simp: longest_run_def query_char_def)
  from bt_group_lit_chars [OF this, of "\<lambda>c s. rx_bt fragment_rx c s accept" c 8 7 "CHR ''?''"]
    bt_fragment [OF assms(2)] Some
  show ?thesis by (simp add: cap_query_def del: rx_bt.simps(4))
qed

lemma bt_path:
  assumes "list_all path_char pa" and "list_all query_char (opt_str qo)" and "list_all fragment_char (opt_str fo)"
  shows "rx_bt (Cat path_rx (Cat query_rx fragment_rx)) c (pa @ query_suffix qo @ fragment_suffix fo) accept =
    Some (cap_fragment fo (cap_query qo (c(6 := pa))))"
proof -
  from assms have "longest_run path_char 0 None pa (query_suffix qo @ fragment_suffix fo)"
    by (cases qo; cases fo) (auto simp: longest_run_def path_char_def)
  from bt_group_chars [OF this, of "\<lambda>c s. rx_bt (Cat query_rx fragment_rx) c s accept" c 6]
    bt_query [OF assms(2,3)]
  show ?thesis by (simp del: rx_bt.simps(4))
qed

lemma bt_port:
  assumes "list_all is_digit (opt_str po)" and "\<And>d. po = Some d \<Longrightarrow> 2 \<le> length d \<and> length d \<le> 5"
    and "list_all path_char pa" and "pa = [] \<or> hd pa = CHR ''/''"
    and "list_all query_char (opt_str qo)" and "list_all fragment_char (opt_str fo)"
  shows "rx_bt (Cat port_rx (Cat path_rx (Cat query_rx fragment_rx))) c
      (port_suffix po @ pa @ query_suffix qo @ fragment_suffix fo) accept =
    Some (cap_fragment fo (cap_query qo ((cap_port po c)(6 := pa))))"
proof (cases po)
  case None
  have "rx_bt port_rx c (pa @ query_suffix qo @ fragment_suffix fo) k = k c (pa @ query_suffix qo @ fragment_suffix fo)"
    for k :: "caps \<Rightarrow> string \<Rightarrow> caps option"
    using assms(4) by (cases pa; cases qo; cases fo) auto
  with None show ?thesis
    by (simp only: rx_bt.simps(2) [of port_rx] bt_path [OF assms(3,5,6)] suffix_simps append_Nil
        cap_port_def option.case)
next
  case (Some d)
  with assms have "longest_run is_digit 2 (Some 5) d (pa @ query_suffix qo @ fragment_suffix fo)"
    by (cases pa; cases qo; cases fo) (auto simp: longest_run_def is_digit_def)
  from bt_group_lit_chars [OF this, of "\<lambda>c s. rx_bt (Cat path_rx (Cat query_rx fragment_rx)) c s accept" c 5 4 "CHR '':''"]
    bt_path [OF assms(3,5,6)] Some
  show ?thesis by (simp add: cap_port_def del: rx_bt.simps(4))
qed

lemma bt_host:
  assumes "wf_parts p"
  shows "rx_bt (Cat host_rx (Cat port_rx (Cat path_rx (Cat query_rx fragment_rx)))) c
      (p_host p @ port_suffix (p_port p) @ p_path p @ query_suffix (p_query p) @ fragment_suffix (p_fragment p)) accept =
    Some (cap_fragment (p_fragment p) (cap_query (p_query p) ((cap_port (p_port p) (c(3 := p_host p)))(6 := p_path p))))"
proof -
  let ?t = "port_suffix (p_port p) @ p_path p @ query_suffix (p_query p) @ fragment_suffix (p_fragment p)"
  from assms have "longest_run host_char 1 None (p_host p) ?t"
    by (cases "p_port p"; cases "p_path p"; cases "p_query p"; cases "p_fragment p")
      (auto simp: longest_run_def wf_parts_def host_char_def Suc_le_eq)
  note host = bt_group_chars [OF this, of "\<lambda>c s. rx_bt (Cat port_rx (Cat path_rx (Cat query_rx fragment_rx))) c s accept" c 3]
  have "rx_bt (Cat port_rx (Cat path_rx (Cat query_rx fragment_rx))) c' ?t accept =
      Some (cap_fragment (p_fragment p) (cap_query (p_query p) ((cap_port (p_port p) c')(6 := p_path p))))" for c'
    using assms by (intro bt_port) (auto simp: wf_parts_def)
  note port = this
  show ?thesis
    by (simp only: rx_bt.simps(2) [of host_rx] host port option.distinct not_False_eq_True)
qed

lemma bt_protocol_absent:
  assumes "wf_parts p"
  shows "rx_bt (Group 1 (Cat (Group 2 (Chars word_char 1 None)) (Cat (Lit CHR '':'') (Cat (Lit CHR ''/'') (Lit CHR ''/'')))))
      c (p_host p @ port_suffix (p_port p) @ p_path p @ query_suffix (p_query p) @ fragment_suffix (p_fragment p)) k = None"
proof (rule bt_group_None, rule notI)
  let ?t = "port_suffix (p_port p) @ p_path p @ query_suffix (p_query p) @ fragment_suffix (p_fragment p)"
  fix c' s'
  assume "rx_derives (Group 1 (Cat (Group 2 (Chars word_char 1 None)) (Cat (Lit CHR '':'') (Cat (Lit CHR ''/'') (Lit CHR ''/'')))))
      c (p_host p @ ?t) c' s'"
  then obtain w where w: "\<forall>x \<in> set w. word_char x" and eq: "p_host p @ ?t = w @ CHR '':'' # CHR ''/'' # CHR ''/'' # s'"
    by (elim derives_elims) auto
  let ?P = "\<lambda>x. x \<noteq> CHR '':'' \<and> x \<noteq> CHR ''/''"
  have "takeWhile ?P (w @ CHR '':'' # CHR ''/'' # CHR ''/'' # s') = w"
    using w by (intro takeWhile_append_stop) (auto dest: word_charD)
  moreover have "takeWhile ?P (p_host p @ ?t) = p_host p @ takeWhile ?P ?t"
    using assms by (intro takeWhile_append2) (auto simp: wf_parts_def list_all_iff host_char_def)
  moreover have "takeWhile ?P ?t = []"
    using assms by (cases "p_port p"; cases "p_path p") (auto simp: wf_parts_def)
  ultimately have "p_host p = w" using eq by (metis append_Nil2)
  with eq have "?t = CHR '':'' # CHR ''/'' # CHR ''/'' # s'" by simp
  with assms show False
    by (cases "p_port p"; cases "the (p_port p)"; cases "p_path p") (auto simp: wf_parts_def is_digit_def)
qed

lemma bt_url:
  assumes "wf_parts p"
  shows "rx_bt url_pattern c (render p) accept =
    Some (cap_fragment (p_fragment p) (cap_query (p_query p)
      ((cap_port (p_port p) ((cap_protocol (p_protocol p) c)(3 := p_host p)))(6 := p_path p))))"
proof (cases "p_protocol p")
  case None
  then show ?thesis
    by (simp only: url_pattern_def render_def rx_bt.simps(2) [of protocol_rx] suffix_simps append_Nil
        bt_maybe_absent [OF bt_protocol_absent [OF assms]] bt_host [OF assms] cap_protocol_def option.case)
next
  case (Some w)
  let ?t = "p_host p @ port_suffix (p_port p) @ p_path p @ query_suffix (p_query p) @ fragment_suffix (p_fragment p)"
  let ?k = "\<lambda>c s. rx_bt (Cat host_rx (Cat port_rx (Cat path_rx (Cat query_rx fragment_rx)))) c s accept"
  let ?slashes = "Cat (Lit CHR '':'') (Cat (Lit CHR ''/'') (Lit CHR ''/''))"
  let ?c = "c(2 := w, 1 := w @ ''://'')"
  from Some assms have run: "longest_run word_char 1 None w (''://'' @ ?t)"
    by (auto simp: longest_run_def wf_parts_def Suc_le_eq dest: word_charD)
  have "rx_bt (Cat (Group 2 (Chars word_char 1 None)) ?slashes) c (w @ ''://'' @ ?t) k = k (c(2 := w)) ?t"
    if "k (c(2 := w)) ?t \<noteq> None" for k :: "caps \<Rightarrow> string \<Rightarrow> caps option"
    using bt_group_chars [OF run, of "\<lambda>c s. rx_bt ?slashes c s k" c 2] that
    by (simp del: rx_bt.simps(4))
  from this [of "\<lambda>c' s'. ?k (c'(1 := take (length (w @ ''://'' @ ?t) - length s') (w @ ''://'' @ ?t))) s'"] bt_host [OF assms, of ?c]
  have "rx_bt protocol_rx c (w @ ''://'' @ ?t) ?k = ?k ?c ?t"
    by (subst bt_maybe_present) (simp_all only: rx_bt.simps(4) [of 1], simp_all del: rx_bt.simps)
  with bt_host [OF assms, of ?c] Some show ?thesis
    by (simp only: url_pattern_def render_def rx_bt.simps(2) [of protocol_rx] suffix_simps
        append_assoc cap_protocol_def option.case)
qed

lemma match_render:
  assumes "wf_parts p"
  shows "\<exists>m. rx_match url_pattern (render p) = Some m \<and> m 2 = opt_str (p_protocol p) \<and> m 3 = p_host p \<and>
    m 5 = opt_str (p_port p) \<and> m 6 = p_path p \<and> m 8 = opt_str (p_query p) \<and> m 10 = opt_str (p_fragment p)"
proof -
  have "rx_match url_pattern (render p) = rx_bt url_pattern no_caps (render p) accept"
    unfolding rx_match_def by (simp add: accept_def [abs_def])
  then show ?thesis unfolding bt_url [OF assms]
    by (cases "p_protocol p"; cases "p_port p"; cases "p_query p"; cases "p_fragment p")
      (simp_all add: cap_fragment_def cap_query_def cap_port_def cap_protocol_def no_caps_def)
qed

definition parts_protocol :: "url_parts \<Rightarrow> string" where
  "parts_protocol p = (case p_protocol p of None \<Rightarrow> ''http'' | Some w \<Rightarrow> w)"

text \<open>C27. Round trip of the URL constructor. For every URL written from its components in the
  usual way (an optional protocol, a host, an optional port of two to five digits, a path that is
  empty or starts with a slash, an optional query and an optional fragment; a query or fragment
  only after a port or a path), the constructor succeeds and the accessors return exactly those
  components, with the protocol defaulting to http and the port to the protocol's default. The
  only URLs of this form it rejects are those without a port whose protocol has no default.\<close>

theorem Url_ctor_render:
  assumes "pcre_env E" and "wf_parts p" and "p_port p \<noteq> None \<or> protocol_to_default_port (parts_protocol p) \<noteq> None"
  shows "Url_ctor E (render p) = Inr \<lparr>
     whole_url = render p,
     u_protocol = parts_protocol p,
     u_hostname = p_host p,
     u_port = (case p_port p of Some d \<Rightarrow> d | None \<Rightarrow> the (protocol_to_default_port (parts_protocol p))),
     u_path = p_path p,
     u_query = opt_str (p_query p),
     u_fragment = opt_str (p_fragment p)\<rparr>"
proof -
  obtain m where m: "rx_match url_pattern (render p) = Some m" "m 2 = opt_str (p_protocol p)" "m 3 = p_host p"
    "m 5 = opt_str (p_port p)" "m 6 = p_path p" "m 8 = opt_str (p_query p)" "m 10 = opt_str (p_fragment p)"
    using match_render [OF assms(2)] by blast
  have proto: "(if m 2 \<noteq> [] then m 2 else ''http'') = parts_protocol p"
    using assms(2) m(2) by (cases "p_protocol p") (auto simp: parts_protocol_def wf_parts_def)
  show ?thesis
  proof (cases "p_port p")
    case None
    then obtain d where "protocol_to_default_port (parts_protocol p) = Some d" using assms(3) by auto
    with None show ?thesis
      using m(1,3-7) by (simp add: Url_ctor_def pcre_envD [OF assms(1)] proto DefaultProtocolPort_def Let_def)
  next
    case (Some d)
    then have "d \<noteq> []" using assms(2) by (auto simp: wf_parts_def)
    with Some show ?thesis
      using m(1,3-7) by (simp add: Url_ctor_def pcre_envD [OF assms(1)] proto Let_def)
  qed
qed

definition sample_parts :: url_parts where
  "sample_parts = \<lparr>p_protocol = Some ''https'', p_host = ''www.example.co.uk'', p_port = None,
     p_path = ''/blog'', p_query = Some ''docid=720'', p_fragment = Some ''dayone''\<rparr>"

lemma wf_sample_parts: "wf_parts sample_parts"
  by (simp add: wf_parts_def sample_parts_def word_char_def char_classes whitespace_def)

theorem Url_ctor_render_witness:
  "Url_ctor sample_env ''https://www.example.co.uk/blog?docid=720#dayone'' = Inr \<lparr>
     whole_url = ''https://www.example.co.uk/blog?docid=720#dayone'', u_protocol = ''https'',
     u_hostname = ''www.example.co.uk'', u_port = ''443'', u_path = ''/blog'',
     u_query = ''docid=720'', u_fragment = ''dayone''\<rparr>"
  using Url_ctor_render [of sample_env sample_parts] wf_sample_parts
  by (simp add: sample_parts_def render_def parts_protocol_def protocol_to_default_port_def)

text \<open>C28. The strings \<^verbatim>\<open>IsUrl\<close> accepts: exactly the non-empty ones without whitespace
  that do not start with a slash or a colon. In particular an IPv6 address that starts with
  \<^verbatim>\<open>::\<close> is no URL, whatever follows it.\<close>

theorem IsUrl_iff:
  assumes "pcre_env E"
  shows "IsUrl E s \<longleftrightarrow>
    s \<noteq> [] \<and> (\<forall>c. c \<in> set s \<longrightarrow> \<not> whitespace c) \<and> hd s \<noteq> CHR ''/'' \<and> hd s \<noteq> CHR '':''"
  using match_iff_url_syntax [of s]
  by (simp add: IsUrl_def pcre_envD [OF assms] url_syntax_def Ball_def)

theorem IsUrl_iff_witness:
  "IsUrl sample_env ''127.0.0.1:8080#0'' \<and> \<not> IsUrl sample_env ''::1:8080#0''"
  using IsUrl_iff [of sample_env "''127.0.0.1:8080#0''"] IsUrl_iff [of sample_env "''::1:8080#0''"]
  by (auto simp: whitespace_def)

text \<open>A query that follows the host directly, without a path, is not recognised: the host
  pattern only stops at a slash, a colon or whitespace, so the constructor succeeds with the
  question mark and the query inside the host name, and an empty query.\<close>

theorem Url_query_without_path:
  assumes "pcre_env E" and "protocol_to_default_port w = Some d"
    and "h \<noteq> []" and "list_all host_char h" and "list_all host_char q"
  shows "\<exists>u. Url_ctor E (w @ ''://'' @ h @ ''?'' @ q) = Inr u \<and>
    u_hostname u = h @ ''?'' @ q \<and> u_query u = [] \<and> u_port u = d"
proof -
  define p where "p = \<lparr>p_protocol = Some w, p_host = h @ ''?'' @ q, p_port = None, p_path = [],
    p_query = None, p_fragment = None\<rparr>"
  from assms(2) have w: "w \<noteq> [] \<and> list_all word_char w"
    by (auto simp: protocol_to_default_port_def word_char_def split: if_splits)
  with assms have "wf_parts p" by (auto simp: wf_parts_def p_def host_char_def)
  from match_render [OF this] obtain m where "rx_match url_pattern (render p) = Some m" "m 2 = w"
    "m 3 = h @ ''?'' @ q" "m 5 = []" "m 8 = []" by (auto simp: p_def)
  moreover have "render p = w @ ''://'' @ h @ ''?'' @ q" by (simp add: render_def p_def)
  ultimately show ?thesis using w assms(2)
    by (simp add: Url_ctor_def pcre_envD [OF assms(1)] DefaultProtocolPort_def)
qed

theorem Url_query_without_path_witness:
  "\<exists>u. Url_ctor sample_env ''http://example.com?x=1'' = Inr u \<and>
    u_hostname u = ''example.com?x=1'' \<and> u_query u = [] \<and> u_port u = ''80''"
  using Url_query_without_path [of sample_env "''http''" "''80''" "''example.com''" "''x=1''"]
  by (simp add: protocol_to_default_port_def host_char_def whitespace_def)

end
