(* ===== verification/Backend.thy ===== *)
theory Backend
  imports Url
begin

section \<open>Backends: \<^verbatim>\<open>class Backend\<close> of \<^verbatim>\<open>src/lb/tcp/selectors.hpp\<close> and \<^verbatim>\<open>selectors.cpp\<close>\<close>

text \<open>
  A backend is an IP endpoint or a URL (\<^verbatim>\<open>std::variant<EndpointType, UrlType>\<close>). An endpoint
  (\<^verbatim>\<open>boost::asio::ip::tcp::endpoint\<close>) is an address and a 16-bit port; the port of a
  configuration is an \<^verbatim>\<open>int\<close> that the endpoint's constructor takes as an
  \<^verbatim>\<open>unsigned short\<close>.
\<close>

record 'a endpoint =
  ep_addr :: 'a
  ep_port :: "16 word"

datatype 'a backend = EndpointB "'a endpoint" | UrlB url

primrec Backend_IsUrl :: "'a backend \<Rightarrow> bool" where
  "Backend_IsUrl (EndpointB e) = False"
| "Backend_IsUrl (UrlB u) = True"

primrec IsIpEndpoint :: "'a backend \<Rightarrow> bool" where
  "IsIpEndpoint (EndpointB e) = True"
| "IsIpEndpoint (UrlB u) = False"

primrec AsEndpoint :: "'a backend \<Rightarrow> 'a endpoint result" where
  "AsEndpoint (EndpointB e) = Inr e"
| "AsEndpoint (UrlB u) = Inl BadVariantAccess"

primrec AsUrl :: "'a backend \<Rightarrow> url result" where
  "AsUrl (EndpointB e) = Inl BadVariantAccess"
| "AsUrl (UrlB u) = Inr u"

definition Backend_of_endpoint :: "'a endpoint \<Rightarrow> 'a backend" where
  "Backend_of_endpoint ep = EndpointB ep"

definition Backend_of_url :: "url \<Rightarrow> 'a backend" where
  "Backend_of_url u = UrlB u"

definition Backend_of_ip :: "'a env \<Rightarrow> string \<Rightarrow> int \<Rightarrow> 'a backend result" where
  "Backend_of_ip E ip_address port =
     (case addr_of_string E ip_address of
        None \<Rightarrow> Inl (SystemError ''address::from_string'')
      | Some a \<Rightarrow> Inr (EndpointB \<lparr>ep_addr = a, ep_port = word_of_int port\<rparr>))"

definition Backend_of_string :: "'a env \<Rightarrow> string \<Rightarrow> 'a backend result" where
  "Backend_of_string E url_string = rbind (Url_ctor E url_string) (\<lambda>u. Inr (UrlB u))"

fun backend_eq :: "'a backend \<Rightarrow> 'a backend \<Rightarrow> bool" where
  "backend_eq (UrlB u) (UrlB v) = url_eq u v"
| "backend_eq (EndpointB e) (EndpointB f) = (ep_addr e = ep_addr f \<and> ep_port e = ep_port f)"
| "backend_eq _ _ = False"

definition endpoint_string :: "'a env \<Rightarrow> 'a endpoint \<Rightarrow> string" where
  "endpoint_string E ep = addr_to_string E (ep_addr ep) @ '':'' @ dec (unat (ep_port ep))"

primrec Backend_ToString :: "'a env \<Rightarrow> 'a backend \<Rightarrow> string" where
  "Backend_ToString E (UrlB u) = Url_ToString u"
| "Backend_ToString E (EndpointB ep) = endpoint_string E ep"

text \<open>\<^verbatim>\<open>operator<<\<close>, which the log lines and the tests print backends with.\<close>

primrec Backend_output :: "'a env \<Rightarrow> 'a backend \<Rightarrow> string" where
  "Backend_output E (EndpointB ep) = addr_to_string E (ep_addr ep) @ '', '' @ dec (unat (ep_port ep))"
| "Backend_output E (UrlB u) = Url_Hostname u"

definition BackendHasher :: "'a env \<Rightarrow> 'a backend \<Rightarrow> 64 word" where
  "BackendHasher E b = std_hash E (Backend_ToString E b)"

subsection \<open>Equality and printing\<close>

lemma backend_eq_refl [simp, intro]: "backend_eq b b"
  by (cases b) (auto simp: url_eq_def)

lemma backend_eq_sym: "backend_eq a b \<longleftrightarrow> backend_eq b a"
  by (cases a; cases b) (auto simp: url_eq_def)

lemma backend_eq_trans [trans]: "backend_eq a b \<Longrightarrow> backend_eq b c \<Longrightarrow> backend_eq a c"
  by (cases a; cases b; cases c) (auto simp: url_eq_def)

lemma backend_eq_ToString: "backend_eq a b \<Longrightarrow> Backend_ToString E a = Backend_ToString E b"
  by (cases a; cases b) (auto simp: url_eq_def endpoint_string_def)

lemma endpoint_string_inj:
  assumes "addr_print_inj E" and "endpoint_string E e = endpoint_string E f"
  shows "ep_addr e = ep_addr f \<and> ep_port e = ep_port f"
proof -
  from assms(2) have "addr_to_string E (ep_addr e) = addr_to_string E (ep_addr f) \<and>
      dec (unat (ep_port e)) = dec (unat (ep_port f))"
    unfolding endpoint_string_def append_Cons append_Nil
    by (intro append_sep_last_eq) auto
  then show ?thesis using assms(1) by (auto simp: addr_print_inj_def word_unat_eq_iff dest: injD)
qed

text \<open>C29. On backends of the same kind, \<^verbatim>\<open>operator==\<close> and equality of \<^verbatim>\<open>ToString\<close>
  agree, so \<^verbatim>\<open>ToString\<close> is a sound key for the handle pools and the hash ring as long as a
  configuration does not mix a URL with an endpoint that prints like it.\<close>

theorem backend_key_faithful:
  assumes "addr_print_inj E" and "IsIpEndpoint a = IsIpEndpoint b"
  shows "Backend_ToString E a = Backend_ToString E b \<longleftrightarrow> backend_eq a b"
proof
  show "Backend_ToString E a = Backend_ToString E b \<Longrightarrow> backend_eq a b"
    using assms by (cases a; cases b) (auto simp: url_eq_def dest: endpoint_string_inj)
qed (rule backend_eq_ToString)

declare addr_char_def [simp]

definition sample_ep :: "string \<Rightarrow> 16 word \<Rightarrow> sample_addr endpoint" where
  "sample_ep s p = \<lparr>ep_addr = Sample_addr s, ep_port = p\<rparr>"

definition sample_url :: "string \<Rightarrow> url" where
  "sample_url s = \<lparr>whole_url = s, u_protocol = ''http'', u_hostname = s, u_port = ''80'', u_path = [],
     u_query = [], u_fragment = []\<rparr>"

theorem backend_key_faithful_witness:
  "Backend_ToString sample_env (EndpointB (sample_ep ''127.0.0.1'' 8081)) \<noteq>
   Backend_ToString sample_env (EndpointB (sample_ep ''127.0.0.1'' 8082))"
  using backend_key_faithful [of sample_env "EndpointB (sample_ep ''127.0.0.1'' 8081)"
      "EndpointB (sample_ep ''127.0.0.1'' 8082)"]
  by (simp add: sample_ep_def)

text \<open>Across the two kinds the keys can clash: a URL may be spelled like an endpoint.\<close>

lemma key_clash_across_kinds:
  "\<exists>a b. Backend_ToString sample_env a = Backend_ToString sample_env b \<and> \<not> backend_eq a b"
proof -
  have "Backend_ToString sample_env (EndpointB (sample_ep ''127.0.0.1'' 81)) =
      Backend_ToString sample_env (UrlB (sample_url ''127.0.0.1:81''))"
    by (simp add: sample_ep_def sample_url_def endpoint_string_def dec.simps)
  then show ?thesis by (meson backend_eq.simps)
qed

text \<open>The constructor from an address and an \<^verbatim>\<open>int\<close> port keeps the port only modulo
  65536: two configured ports that differ by a multiple of 65536, a negative one included, give
  equal backends, and no port is rejected.\<close>

theorem Backend_of_ip_port:
  assumes "addr_of_string E ip = Some a"
  shows "\<exists>b. Backend_of_ip E ip port = Inr (EndpointB b) \<and> ep_addr b = a \<and>
    uint (ep_port b) = port mod 65536 \<and>
    Backend_of_ip E ip (port + 65536 * k) = Backend_of_ip E ip port"
proof -
  have same: "(word_of_int (port + 65536 * k) :: 16 word) = word_of_int port"
    by (subst word_of_int_eq_iff, simp add: take_bit_eq_mod)
  have "Backend_of_ip E ip p = Inr (EndpointB \<lparr>ep_addr = a, ep_port = word_of_int p\<rparr>)" for p
    by (simp add: Backend_of_ip_def assms)
  moreover have "uint (word_of_int port :: 16 word) = port mod 65536"
    by (simp add: uint_word_of_int)
  ultimately show ?thesis
    by (intro exI [of _ "\<lparr>ep_addr = a, ep_port = word_of_int port\<rparr>"] conjI) (simp_all only: same endpoint.simps)
qed

theorem Backend_of_ip_port_witness:
  "\<exists>b. Backend_of_ip sample_env ''127.0.0.1'' 70000 = Inr (EndpointB b) \<and> uint (ep_port b) = 4464"
  using Backend_of_ip_port [of sample_env "''127.0.0.1''" "Sample_addr ''127.0.0.1''" 70000 0]
  by auto

end
