(* ===== verification/Yaml_Config.thy ===== *)
theory Yaml_Config
  imports Backend
begin

section \<open>Reading the configuration\<close>

text \<open>
  The configuration is a \<^verbatim>\<open>YAML::Node\<close> of yaml-cpp. The node type is a type variable; the
  operations of the library the program calls are the fields of a record. \<^verbatim>\<open>operator[]\<close> and
  the conversions \<^verbatim>\<open>as<T>\<close> may throw.

  The loop body that turns one entry of \<^verbatim>\<open>endpoints\<close> into a backend is written out five
  times in \<^verbatim>\<open>selectors.cpp\<close> (round robin, ip hash, consistent hash, least connections, least
  response time) with the same text; it is \<^verbatim>\<open>read_endpoint\<close> here. The weighted selector
  has a variant of its own.
\<close>

record 'n yaml =
  y_get :: "'n \<Rightarrow> string \<Rightarrow> 'n result"
  y_defined :: "'n \<Rightarrow> bool"
  y_is_map :: "'n \<Rightarrow> bool"
  y_is_seq :: "'n \<Rightarrow> bool"
  y_is_scalar :: "'n \<Rightarrow> bool"
  y_elems :: "'n \<Rightarrow> 'n list"
  y_string :: "'n \<Rightarrow> string result"
  y_int :: "'n \<Rightarrow> int result"
  y_size_t :: "'n \<Rightarrow> nat result"
  y_unsigned :: "'n \<Rightarrow> nat result"
  y_bool :: "'n \<Rightarrow> bool result"

definition has_field :: "'n yaml \<Rightarrow> 'n \<Rightarrow> string \<Rightarrow> bool result" where
  "has_field Y n key = rbind (y_get Y n key) (\<lambda>m. Inr (y_defined Y m))"

definition string_field :: "'n yaml \<Rightarrow> 'n \<Rightarrow> string \<Rightarrow> string result" where
  "string_field Y n key = rbind (y_get Y n key) (y_string Y)"

definition int_field :: "'n yaml \<Rightarrow> 'n \<Rightarrow> string \<Rightarrow> int result" where
  "int_field Y n key = rbind (y_get Y n key) (y_int Y)"

definition size_t_field :: "'n yaml \<Rightarrow> 'n \<Rightarrow> string \<Rightarrow> nat result" where
  "size_t_field Y n key = rbind (y_get Y n key) (y_size_t Y)"

definition read_endpoint :: "'a env \<Rightarrow> 'n yaml \<Rightarrow> 'n \<Rightarrow> 'a backend result" where
  "read_endpoint E Y ep =
     rbind (has_field Y ep ''url'') (\<lambda>has_url.
       if has_url then rbind (string_field Y ep ''url'') (Backend_of_string E)
       else rbind (has_field Y ep ''ip'') (\<lambda>has_ip.
         if \<not> has_ip then Inl (RuntimeError ''{} missed ip field'')
         else rbind (has_field Y ep ''port'') (\<lambda>has_port.
           if \<not> has_port then Inl (RuntimeError ''{} missed port field'')
           else rbind (string_field Y ep ''ip'') (\<lambda>ip.
             rbind (int_field Y ep ''port'') (\<lambda>port. Backend_of_ip E ip port)))))"

text \<open>The checks every \<^verbatim>\<open>Configure\<close> starts with, and the node it then iterates over.\<close>

definition endpoints_of :: "'n yaml \<Rightarrow> string \<Rightarrow> 'n \<Rightarrow> 'n list result" where
  "endpoints_of Y missed node =
     rbind (has_field Y node ''endpoints'') (\<lambda>has_endpoints.
       if \<not> has_endpoints then Inl (RuntimeError missed)
       else rbind (y_get Y node ''endpoints'') (\<lambda>ep_node.
         if \<not> y_is_seq Y ep_node then Inl (RuntimeError ''endpoints node must be a sequence'')
         else Inr (y_elems Y ep_node)))"

text \<open>What a list of entries denotes: the backends they describe, in order.\<close>

definition denotes :: "'a env \<Rightarrow> 'n yaml \<Rightarrow> 'n list \<Rightarrow> 'a backend list \<Rightarrow> bool" where
  "denotes E Y eps bs \<longleftrightarrow> list_all2 (\<lambda>ep b. read_endpoint E Y ep = Inr b) eps bs"

lemma denotes_simps [simp]:
  "denotes E Y [] bs \<longleftrightarrow> bs = []"
  "denotes E Y (ep # eps) bs \<longleftrightarrow> (\<exists>b bs'. bs = b # bs' \<and> read_endpoint E Y ep = Inr b \<and> denotes E Y eps bs')"
  by (auto simp: denotes_def list_all2_Cons1)

lemma denotes_unique: "denotes E Y eps bs \<Longrightarrow> denotes E Y eps cs \<Longrightarrow> bs = cs"
  by (induction eps arbitrary: bs cs) auto

text \<open>
  The shape all the configuration loops share: each entry is read and handed to the selector's
  own insertion, which may throw too.
\<close>

definition configure_with ::
    "'a env \<Rightarrow> 'n yaml \<Rightarrow> ('s \<Rightarrow> 'a backend \<Rightarrow> 's result) \<Rightarrow> 's \<Rightarrow> 'n list \<Rightarrow> 's result" where
  "configure_with E Y insert_op s eps =
     rfold (\<lambda>s ep. rbind (read_endpoint E Y ep) (insert_op s)) s eps"

lemma configure_with_denotes:
  "configure_with E Y ins s eps = Inr t \<longleftrightarrow> (\<exists>bs. denotes E Y eps bs \<and> rfold ins s bs = Inr t)"
  unfolding configure_with_def
proof (induction eps arbitrary: s)
  case (Cons ep eps)
  have "(\<exists>bs. denotes E Y (ep # eps) bs \<and> rfold ins s bs = Inr t) \<longleftrightarrow>
      (\<exists>b bs. read_endpoint E Y ep = Inr b \<and> denotes E Y eps bs \<and> rfold ins s (b # bs) = Inr t)"
    unfolding denotes_simps by (intro iffI; elim exE conjE; blast)
  then show ?case by (simp add: Cons.IH) blast
qed simp

subsection \<open>A sample document model\<close>

datatype ynode = YUndef | YScalar string | YSeq "ynode list" | YMap "(string \<times> ynode) list"

definition digit_value :: "char \<Rightarrow> nat" where
  "digit_value c = length (takeWhile (\<lambda>d. d \<noteq> c) ''0123456789'')"

definition parse_nat :: "string \<Rightarrow> nat result" where
  "parse_nat s = (if s \<noteq> [] \<and> list_all is_digit s
     then Inr (fold (\<lambda>c n. 10 * n + digit_value c) s 0) else Inl (YamlError ''bad conversion''))"

fun ynode_get :: "ynode \<Rightarrow> string \<Rightarrow> ynode result" where
  "ynode_get (YMap m) k = Inr (case map_of m k of None \<Rightarrow> YUndef | Some n \<Rightarrow> n)"
| "ynode_get (YScalar s) k = Inl (YamlError ''bad subscript'')"
| "ynode_get (YSeq xs) k = Inr YUndef"
| "ynode_get YUndef k = Inl (YamlError ''invalid node'')"

fun ynode_string :: "ynode \<Rightarrow> string result" where
  "ynode_string (YScalar s) = Inr s"
| "ynode_string n = Inl (YamlError ''bad conversion'')"

fun ynode_elems :: "ynode \<Rightarrow> ynode list" where
  "ynode_elems (YSeq xs) = xs"
| "ynode_elems n = []"

definition ynode_int :: "ynode \<Rightarrow> int result" where
  "ynode_int n = rbind (ynode_string n) (\<lambda>s.
     if s \<noteq> [] \<and> hd s = CHR ''-'' then rbind (parse_nat (tl s)) (\<lambda>k. Inr (- int k))
     else rbind (parse_nat s) (\<lambda>k. Inr (int k)))"

definition sample_yaml :: "ynode yaml" where
  "sample_yaml = \<lparr>y_get = ynode_get, y_defined = (\<lambda>n. n \<noteq> YUndef),
     y_is_map = (\<lambda>n. case n of YMap m \<Rightarrow> True | _ \<Rightarrow> False),
     y_is_seq = (\<lambda>n. case n of YSeq m \<Rightarrow> True | _ \<Rightarrow> False),
     y_is_scalar = (\<lambda>n. case n of YScalar m \<Rightarrow> True | _ \<Rightarrow> False),
     y_elems = ynode_elems, y_string = ynode_string, y_int = ynode_int,
     y_size_t = (\<lambda>n. rbind (ynode_string n) parse_nat),
     y_unsigned = (\<lambda>n. rbind (ynode_string n) parse_nat),
     y_bool = (\<lambda>n. rbind (ynode_string n) (\<lambda>s. if s = ''true'' then Inr True
        else if s = ''false'' then Inr False else Inl (YamlError ''bad conversion'')))\<rparr>"

lemmas sample_yaml_simps = sample_yaml_def ynode_int_def parse_nat_def digit_value_def is_digit_def
  has_field_def string_field_def int_field_def size_t_field_def

definition sample_ip_entry :: "string \<Rightarrow> string \<Rightarrow> ynode" where
  "sample_ip_entry ip port = YMap [(''ip'', YScalar ip), (''port'', YScalar port)]"

lemma read_sample_ip_entry:
  "ip \<noteq> [] \<Longrightarrow> list_all addr_char ip \<Longrightarrow> ynode_int (YScalar port) = Inr p \<Longrightarrow>
    read_endpoint sample_env sample_yaml (sample_ip_entry ip port) = Inr (EndpointB (sample_ep ip (word_of_int p)))"
  by (simp add: read_endpoint_def has_field_def string_field_def int_field_def sample_yaml_def
      sample_ip_entry_def Backend_of_ip_def sample_ep_def)

end
