(* ===== verification/Selector.thy ===== *)
theory Selector
  imports Yaml_Config
begin

section \<open>The selector interface: \<^verbatim>\<open>struct ISelector\<close>\<close>

text \<open>
  \<^verbatim>\<open>ISelector\<close> promises its client, the connector, two operations on a pool of backends:
  \<^verbatim>\<open>SelectBackend\<close> and \<^verbatim>\<open>ExcludeBackend\<close>. The locale states the contract the connector
  relies on, over an abstraction of the selector's state to the set of backends it can still
  select and the number of its entries; each selector's theory interprets it on its own state.
  The lemmas of the locale are proved once for all selectors: the pool only ever shrinks, a
  selection is always a member of the pool the selector started with, and the number of successful
  exclusions is bounded by the number of entries.
\<close>

datatype SelectorType =
    ROUND_ROBIN | WEIGHTED_ROUND_ROBIN | IP_HASH | CONSISTENT_HASH | LEAST_CONNECTIONS
  | LEAST_RESPONSE_TIME

primrec SelectorType_code :: "SelectorType \<Rightarrow> nat" where
  "SelectorType_code ROUND_ROBIN = 0"
| "SelectorType_code WEIGHTED_ROUND_ROBIN = 1"
| "SelectorType_code IP_HASH = 2"
| "SelectorType_code CONSISTENT_HASH = 3"
| "SelectorType_code LEAST_CONNECTIONS = 4"
| "SelectorType_code LEAST_RESPONSE_TIME = 5"

lemma SelectorType_code_inj: "SelectorType_code a = SelectorType_code b \<longleftrightarrow> a = b"
  by (cases a; cases b) simp_all

instantiation SelectorType :: linorder
begin

definition less_eq_SelectorType :: "SelectorType \<Rightarrow> SelectorType \<Rightarrow> bool" where
  "less_eq_SelectorType a b \<longleftrightarrow> SelectorType_code a \<le> SelectorType_code b"

definition less_SelectorType :: "SelectorType \<Rightarrow> SelectorType \<Rightarrow> bool" where
  "less_SelectorType a b \<longleftrightarrow> SelectorType_code a < SelectorType_code b"

instance
  by standard (auto simp: less_eq_SelectorType_def less_SelectorType_def SelectorType_code_inj)

end

definition all_excluded :: exn where
  "all_excluded = RuntimeError ''All backends are excluded!''"

text \<open>The two requests a client makes of a selector, and a run of them.\<close>

datatype ('c, 'b) request = Select 'c | Exclude 'b

fun run_requests ::
    "('s \<Rightarrow> 'c \<Rightarrow> 'b result \<times> 's) \<Rightarrow> ('s \<Rightarrow> 'b \<Rightarrow> unit result \<times> 's) \<Rightarrow> 's \<Rightarrow>
     ('c, 'b) request list \<Rightarrow> 'b result list \<times> 's" where
  "run_requests sel exc s [] = ([], s)"
| "run_requests sel exc s (Select c # rs) =
     (let (r, s') = sel s c; (out, t) = run_requests sel exc s' rs in (r # out, t))"
| "run_requests sel exc s (Exclude b # rs) = run_requests sel exc (snd (exc s b)) rs"

text \<open>
  Failover: the selector is asked for a backend; as long as the backend selected refuses the
  connection it is excluded and the selector asked again. \<open>n\<close> bounds the attempts.
\<close>

primrec failover ::
    "('s \<Rightarrow> 'c \<Rightarrow> 'b result \<times> 's) \<Rightarrow> ('s \<Rightarrow> 'b \<Rightarrow> unit result \<times> 's) \<Rightarrow> nat \<Rightarrow> ('b \<Rightarrow> bool) \<Rightarrow>
     's \<Rightarrow> 'c \<Rightarrow> 'b result option \<times> 's" where
  "failover sel exc 0 refuses s c = (None, s)"
| "failover sel exc (Suc n) refuses s c =
     (case sel s c of
        (Inl e, s') \<Rightarrow> (Some (Inl e), s')
      | (Inr b, s') \<Rightarrow>
          if refuses b then
            (case exc s' b of
               (Inl e, s'') \<Rightarrow> (Some (Inl e), s'')
             | (Inr _, s'') \<Rightarrow> failover sel exc n refuses s'' c)
          else (Some (Inr b), s'))"

lemma run_requests_selects:
  assumes "Inr x \<in> set (fst (run_requests sel exc s reqs))" and "P s"
    and "\<And>s c. P s \<Longrightarrow> P (snd (sel s c))" and "\<And>s b. P s \<Longrightarrow> P (snd (exc s b))"
    and "\<And>s c b. P s \<Longrightarrow> fst (sel s c) = Inr b \<Longrightarrow> Q b"
  shows "Q x"
  using assms(1,2)
proof (induction reqs arbitrary: s)
  case (Cons q reqs)
  show ?case
  proof (cases q)
    case (Select c)
    with Cons.prems consider "fst (sel s c) = Inr x" | "Inr x \<in> set (fst (run_requests sel exc (snd (sel s c)) reqs))"
      by (auto split: prod.splits)
    then show ?thesis
      by cases (use Cons assms(3,5) in blast)+
  next
    case (Exclude b)
    with Cons assms(4) show ?thesis by auto
  qed
qed simp

text \<open>\<open>n\<close> selections in a row, for one client.\<close>

primrec selects :: "('s \<Rightarrow> 'c \<Rightarrow> 'b result \<times> 's) \<Rightarrow> nat \<Rightarrow> 's \<Rightarrow> 'c \<Rightarrow> 'b result list \<times> 's" where
  "selects sel 0 s c = ([], s)"
| "selects sel (Suc n) s c =
     (let (b, s') = sel s c; (bs, t) = selects sel n s' c in (b # bs, t))"

lemma snd_selects_Suc: "snd (selects sel (Suc n) s c) = snd (selects sel n (snd (sel s c)) c)"
  by (simp split: prod.split)

lemma selects_add:
  "selects sel (m + n) s c =
    (let (bs, s') = selects sel m s c; (cs, t) = selects sel n s' c in (bs @ cs, t))"
  by (induction m arbitrary: s) (auto simp: Let_def split: prod.splits)

lemma selects_append:
  "selects sel m s c = (bs, s') \<Longrightarrow> selects sel n s' c = (cs, t) \<Longrightarrow> selects sel (m + n) s c = (bs @ cs, t)"
  by (simp add: selects_add)

lemma selects_cycles:
  "selects sel n s c = (bs, s) \<Longrightarrow> selects sel (k * n) s c = (concat (replicate k bs), s)"
  by (induction k) (auto intro: selects_append)

locale backend_selector =
  fixes select_op :: "'s \<Rightarrow> 'c \<Rightarrow> 'a backend result \<times> 's"
    and exclude_op :: "'s \<Rightarrow> 'a backend \<Rightarrow> unit result \<times> 's"
    and pool :: "'s \<Rightarrow> 'a backend set"
    and entries :: "'s \<Rightarrow> nat"
    and inv :: "'s \<Rightarrow> bool"
  assumes entries_zero: "inv s \<Longrightarrow> entries s = 0 \<longleftrightarrow> pool s = {}"
    and select_inv: "inv s \<Longrightarrow> pool s \<noteq> {} \<Longrightarrow> inv (snd (select_op s c))"
    and select_pool: "inv s \<Longrightarrow> pool s \<noteq> {} \<Longrightarrow> pool (snd (select_op s c)) = pool s"
    and select_entries: "inv s \<Longrightarrow> pool s \<noteq> {} \<Longrightarrow> entries (snd (select_op s c)) = entries s"
    and select_member: "inv s \<Longrightarrow> pool s \<noteq> {} \<Longrightarrow> \<exists>b \<in> pool s. fst (select_op s c) = Inr b"
    and exclude_inv: "inv s \<Longrightarrow> b \<in> pool s \<Longrightarrow> inv (snd (exclude_op s b))"
    and exclude_subset: "inv s \<Longrightarrow> b \<in> pool s \<Longrightarrow> pool (snd (exclude_op s b)) \<subseteq> pool s"
    and exclude_keeps: "inv s \<Longrightarrow> b \<in> pool s \<Longrightarrow> x \<in> pool s \<Longrightarrow> \<not> backend_eq x b \<Longrightarrow>
      x \<in> pool (snd (exclude_op s b))"
    and exclude_entries: "inv s \<Longrightarrow> b \<in> pool s \<Longrightarrow> entries (snd (exclude_op s b)) < entries s"
    and exclude_result: "inv s \<Longrightarrow> b \<in> pool s \<Longrightarrow>
      fst (exclude_op s b) = (if pool (snd (exclude_op s b)) = {} then Inl all_excluded else Inr ())"
begin

lemmas select_laws = select_inv select_pool select_entries
lemmas exclude_laws = exclude_inv exclude_subset exclude_entries exclude_result

lemma select_cases:
  assumes "inv s" and "pool s \<noteq> {}"
  obtains b s' where "select_op s c = (Inr b, s')" and "b \<in> pool s" and "inv s'"
    and "pool s' = pool s" and "entries s' = entries s"
proof -
  obtain r s' where rs: "select_op s c = (r, s')" by fastforce
  from select_member [OF assms, of c] rs obtain b where "b \<in> pool s" "r = Inr b" by auto
  with that [of b s'] rs select_laws [OF assms, of c] show ?thesis by auto
qed

lemma exclude_cases:
  assumes "inv s" and "b \<in> pool s"
  obtains (last) s' where "exclude_op s b = (Inl all_excluded, s')" and "inv s'" and "pool s' = {}"
      and "\<forall>x \<in> pool s. backend_eq x b"
  | (more) s' where "exclude_op s b = (Inr (), s')" and "inv s'" and "pool s' \<noteq> {}" and "pool s' \<subseteq> pool s"
      and "entries s' < entries s" and "\<forall>x \<in> pool s. \<not> backend_eq x b \<longrightarrow> x \<in> pool s'"
proof -
  obtain r s' where rs: "exclude_op s b = (r, s')" by fastforce
  have laws: "inv s'" "pool s' \<subseteq> pool s" "entries s' < entries s"
    "r = (if pool s' = {} then Inl all_excluded else Inr ())"
    "\<forall>x \<in> pool s. \<not> backend_eq x b \<longrightarrow> x \<in> pool s'"
    using exclude_laws [OF assms] exclude_keeps [OF assms] rs by auto
  show ?thesis
  proof (cases "pool s' = {}")
    case True
    with laws rs last [of s'] show ?thesis by auto
  next
    case False
    with laws rs more [of s'] show ?thesis by auto
  qed
qed

lemma failover_terminates:
  assumes "inv s" and "pool s \<noteq> {}" and "entries s \<le> n"
  shows "fst (failover select_op exclude_op n refuses s c) \<noteq> None"
  using assms
proof (induction n arbitrary: s)
  case 0
  then show ?case using entries_zero by auto
next
  case (Suc n)
  obtain b s' where sel: "select_op s c = (Inr b, s')" "b \<in> pool s" "inv s'" "pool s' = pool s" "entries s' = entries s"
    using select_cases [OF Suc.prems(1,2)] by metis
  from sel have b: "b \<in> pool s'" by simp
  from sel(3) b show ?case
  proof (cases rule: exclude_cases)
    case (last s'')
    with sel show ?thesis by simp
  next
    case (more s'')
    with sel Suc.prems have "fst (failover select_op exclude_op n refuses s'' c) \<noteq> None" by (intro Suc.IH) auto
    with more sel show ?thesis by simp
  qed
qed

lemma failover_accepting:
  assumes "inv s" and "a \<in> pool s" and "\<And>x. backend_eq x a \<Longrightarrow> \<not> refuses x" and "entries s \<le> n"
  shows "\<exists>b s'. failover select_op exclude_op n refuses s c = (Some (Inr b), s') \<and> b \<in> pool s \<and> \<not> refuses b \<and> inv s' \<and> a \<in> pool s'"
  using assms
proof (induction n arbitrary: s)
  case 0
  then show ?case using entries_zero by auto
next
  case (Suc n)
  from Suc.prems(2) have "pool s \<noteq> {}" by auto
  then obtain b s' where sel: "select_op s c = (Inr b, s')" "b \<in> pool s" "inv s'" "pool s' = pool s" "entries s' = entries s"
    using select_cases [OF Suc.prems(1)] by metis
  show ?case
  proof (cases "refuses b")
    case False
    with sel Suc.prems show ?thesis by auto
  next
    case True
    with Suc.prems(3) have ab: "\<not> backend_eq a b" by (metis backend_eq_sym)
    from sel have b: "b \<in> pool s'" by simp
    from sel(3) b show ?thesis
    proof (cases rule: exclude_cases)
      case (last s'')
      with ab Suc.prems(2) sel(4) show ?thesis by auto
    next
      case (more s'')
      with ab Suc.prems sel have "a \<in> pool s''" "entries s'' \<le> n" by auto
      from Suc.IH [OF more(2) this(1) Suc.prems(3) this(2)] True sel more
      show ?thesis by fastforce
    qed
  qed
qed

lemma failover_all_refuse:
  assumes "inv s" and "pool s \<noteq> {}" and "\<forall>x \<in> pool s. refuses x" and "entries s \<le> n"
  shows "\<exists>s'. failover select_op exclude_op n refuses s c = (Some (Inl all_excluded), s') \<and> pool s' = {}"
  using assms
proof (induction n arbitrary: s)
  case 0
  then show ?case using entries_zero by auto
next
  case (Suc n)
  obtain b s' where sel: "select_op s c = (Inr b, s')" "b \<in> pool s" "inv s'" "pool s' = pool s" "entries s' = entries s"
    using select_cases [OF Suc.prems(1,2)] by metis
  then have "b \<in> pool s'" by simp
  with sel(3) show ?case
  proof (cases rule: exclude_cases)
    case (last s'')
    with sel Suc.prems show ?thesis by auto
  next
    case (more s'')
    with Suc.prems sel have "\<exists>t. failover select_op exclude_op n refuses s'' c = (Some (Inl all_excluded), t) \<and> pool t = {}"
      by (intro Suc.IH) auto
    with more sel Suc.prems show ?thesis by auto
  qed
qed

end

text \<open>A selector that also guarantees that what was excluded is never selected again.\<close>

locale excluding_selector = backend_selector +
  assumes exclude_gone: "inv s \<Longrightarrow> b \<in> pool s \<Longrightarrow> x \<in> pool (snd (exclude_op s b)) \<Longrightarrow> \<not> backend_eq x b"
begin

lemma exclude_pool:
  assumes "inv s" and "b \<in> pool s"
  shows "pool (snd (exclude_op s b)) = {x \<in> pool s. \<not> backend_eq x b}"
  using exclude_subset [OF assms] exclude_keeps [OF assms] exclude_gone [OF assms] by blast

end

text \<open>
  A selector that several handlers share. A handler may exclude a backend that another handler has
  excluded since it was selected, so the contract has to say what an exclusion does of a backend
  that is no longer in the pool. \<open>known\<close> holds of the backends a handler may still come back with:
  the members of the pool, and those the selector can no longer find.
\<close>

locale shared_selector = backend_selector select_op exclude_op pool entries inv
  for select_op :: "'s \<Rightarrow> 'c \<Rightarrow> 'a backend result \<times> 's"
    and exclude_op :: "'s \<Rightarrow> 'a backend \<Rightarrow> unit result \<times> 's"
    and pool :: "'s \<Rightarrow> 'a backend set"
    and entries :: "'s \<Rightarrow> nat"
    and inv :: "'s \<Rightarrow> bool" +
  fixes known :: "'s \<Rightarrow> 'a backend \<Rightarrow> bool"
  assumes member_known: "inv s \<Longrightarrow> b \<in> pool s \<Longrightarrow> known s b"
    and select_known: "inv s \<Longrightarrow> pool s \<noteq> {} \<Longrightarrow> known s x \<Longrightarrow> known (snd (select_op s c)) x"
    and exclude_known: "inv s \<Longrightarrow> pool s \<noteq> {} \<Longrightarrow> known s b \<Longrightarrow> known s x \<Longrightarrow> known (snd (exclude_op s b)) x"
    and known_inv: "inv s \<Longrightarrow> pool s \<noteq> {} \<Longrightarrow> known s b \<Longrightarrow> inv (snd (exclude_op s b))"
    and known_subset: "inv s \<Longrightarrow> pool s \<noteq> {} \<Longrightarrow> known s b \<Longrightarrow> pool (snd (exclude_op s b)) \<subseteq> pool s"
    and known_result: "inv s \<Longrightarrow> pool s \<noteq> {} \<Longrightarrow> known s b \<Longrightarrow>
      fst (exclude_op s b) = (if pool (snd (exclude_op s b)) = {} then Inl all_excluded else Inr ())"
    and known_keeps: "inv s \<Longrightarrow> pool s \<noteq> {} \<Longrightarrow> known s b \<Longrightarrow> x \<in> pool s \<Longrightarrow> \<not> backend_eq x b \<Longrightarrow>
      x \<in> pool (snd (exclude_op s b))"
begin

lemma exclude_known_cases:
  assumes "inv s" and "pool s \<noteq> {}" and "known s b"
  obtains (last) s' where "exclude_op s b = (Inl all_excluded, s')" and "inv s'" and "pool s' = {}"
      and "\<And>x. known s x \<Longrightarrow> known s' x" and "\<And>x. x \<in> pool s \<Longrightarrow> backend_eq x b"
  | (more) s' where "exclude_op s b = (Inr (), s')" and "inv s'" and "pool s' \<noteq> {}" and "pool s' \<subseteq> pool s"
      and "\<And>x. known s x \<Longrightarrow> known s' x" and "\<And>x. x \<in> pool s \<Longrightarrow> \<not> backend_eq x b \<Longrightarrow> x \<in> pool s'"
proof -
  obtain r s' where rs: "exclude_op s b = (r, s')" by fastforce
  have laws: "inv s'" "pool s' \<subseteq> pool s" "r = (if pool s' = {} then Inl all_excluded else Inr ())"
    "\<And>x. known s x \<Longrightarrow> known s' x" "\<And>x. x \<in> pool s \<Longrightarrow> \<not> backend_eq x b \<Longrightarrow> x \<in> pool s'"
    using known_inv [OF assms] known_subset [OF assms] known_result [OF assms] exclude_known [OF assms] known_keeps [OF assms] rs by auto
  show ?thesis
  proof (cases "pool s' = {}")
    case True
    with laws rs show ?thesis by (intro last [of s']) auto
  next
    case False
    with laws rs show ?thesis by (intro more [of s']) auto
  qed
qed

end

text \<open>
  A shared selector that, when no two of its entries are equal, also guarantees that what was
  excluded by whichever handler is never selected again.
\<close>

locale exact_selector = shared_selector +
  fixes single :: "'s \<Rightarrow> bool"
  assumes select_single: "inv s \<Longrightarrow> pool s \<noteq> {} \<Longrightarrow> single s \<Longrightarrow> single (snd (select_op s c))"
    and exclude_single: "inv s \<Longrightarrow> pool s \<noteq> {} \<Longrightarrow> known s b \<Longrightarrow> single s \<Longrightarrow> single (snd (exclude_op s b))"
    and known_gone: "inv s \<Longrightarrow> pool s \<noteq> {} \<Longrightarrow> known s b \<Longrightarrow> single s \<Longrightarrow> x \<in> pool (snd (exclude_op s b)) \<Longrightarrow>
      \<not> backend_eq x b"
begin

lemma known_pool:
  assumes "inv s" and "pool s \<noteq> {}" and "known s b" and "single s"
  shows "pool (snd (exclude_op s b)) = {x \<in> pool s. \<not> backend_eq x b}"
  using known_subset [OF assms(1-3)] known_keeps [OF assms(1-3)] known_gone [OF assms] by blast

end

end
