(* ===== verification/Round_Robin.thy ===== *)
theory Round_Robin
  imports Selector
begin

section \<open>\<^verbatim>\<open>RoundRobinSelector\<close>\<close>

text \<open>
  The state is the counter and the vector of backends; \<^verbatim>\<open>SelectBackend\<close> advances the
  counter modulo the size and returns the element at it. A remainder by the size of an empty
  vector is undefined behaviour. The counter always stays below the size it was last reduced by,
  so \<^verbatim>\<open>std::size_t\<close> does not wrap and is a \<^verbatim>\<open>nat\<close> here.
\<close>

record 'a RoundRobinSelector =
  rr_counter :: nat
  rr_backends :: "'a backend list"

definition rr_new :: "'a RoundRobinSelector" where
  "rr_new = \<lparr>rr_counter = 0, rr_backends = []\<rparr>"

definition rr_emplace_back :: "'a RoundRobinSelector \<Rightarrow> 'a backend \<Rightarrow> 'a RoundRobinSelector result" where
  "rr_emplace_back s b = Inr (s\<lparr>rr_backends := rr_backends s @ [b]\<rparr>)"

definition rr_Configure ::
    "'a env \<Rightarrow> 'n yaml \<Rightarrow> 'n \<Rightarrow> 'a RoundRobinSelector \<Rightarrow> 'a RoundRobinSelector result" where
  "rr_Configure E Y balancing_node s =
     rbind (endpoints_of Y ''Round-robin endpoints node is missed'' balancing_node)
       (configure_with E Y rr_emplace_back s)"

definition rr_SelectBackend ::
    "'a RoundRobinSelector \<Rightarrow> 'a endpoint \<Rightarrow> 'a backend result \<times> 'a RoundRobinSelector" where
  "rr_SelectBackend s notused =
     (if rr_backends s = [] then (Inl (UndefinedBehaviour ''remainder by zero''), s)
      else let counter = (rr_counter s + 1) mod length (rr_backends s);
               s' = s\<lparr>rr_counter := counter\<rparr>
           in (Inr (rr_backends s' ! counter), s'))"

definition rr_ExcludeBackend ::
    "'a RoundRobinSelector \<Rightarrow> 'a backend \<Rightarrow> unit result \<times> 'a RoundRobinSelector" where
  "rr_ExcludeBackend s b =
     (let s' = s\<lparr>rr_backends := filter (\<lambda>x. \<not> backend_eq x b) (rr_backends s)\<rparr>
      in (if rr_backends s' = [] then Inl all_excluded else Inr (), s'))"

definition rr_Type :: SelectorType where
  "rr_Type = ROUND_ROBIN"

subsection \<open>The contract\<close>

abbreviation rr_pool :: "'a RoundRobinSelector \<Rightarrow> 'a backend set" where
  "rr_pool s \<equiv> set (rr_backends s)"

abbreviation rr_entries :: "'a RoundRobinSelector \<Rightarrow> nat" where
  "rr_entries s \<equiv> length (rr_backends s)"

lemmas rr_defs = rr_SelectBackend_def rr_ExcludeBackend_def Let_def

lemma filter_backend_less: "b \<in> set bs \<Longrightarrow> length (filter (\<lambda>x. \<not> backend_eq x b) bs) < length bs"
  by (rule length_filter_less [of b]) auto

interpretation rr: excluding_selector rr_SelectBackend rr_ExcludeBackend rr_pool rr_entries "\<lambda>s. True"
  by unfold_locales (auto simp: rr_defs filter_empty_conv filter_backend_less)

interpretation rr: shared_selector rr_SelectBackend rr_ExcludeBackend rr_pool rr_entries "\<lambda>s. True" "\<lambda>s b. True"
  by unfold_locales (auto simp: rr_defs filter_empty_conv)

subsection \<open>Rotation\<close>

lemma rr_selects_eq:
  assumes "rr_backends s \<noteq> []"
  shows "selects rr_SelectBackend n s c =
    (map (\<lambda>k. Inr (rr_backends s ! ((rr_counter s + k) mod length (rr_backends s)))) [1..<Suc n],
     if n = 0 then s else s\<lparr>rr_counter := (rr_counter s + n) mod length (rr_backends s)\<rparr>)"
  using assms
proof (induction n arbitrary: s)
  case (Suc n)
  let ?N = "length (rr_backends s)"
  let ?s = "s\<lparr>rr_counter := (rr_counter s + 1) mod ?N\<rparr>"
  have "selects rr_SelectBackend (Suc n) s c =
      (Inr (rr_backends s ! ((rr_counter s + 1) mod ?N)) # fst (selects rr_SelectBackend n ?s c), snd (selects rr_SelectBackend n ?s c))"
    using Suc.prems by (simp add: rr_SelectBackend_def Let_def split: prod.split)
  also have "fst (selects rr_SelectBackend n ?s c) =
      map (\<lambda>k. Inr (rr_backends s ! ((rr_counter s + k) mod ?N))) [2..<Suc (Suc n)]"
    using Suc.IH [of ?s] Suc.prems
    by (simp add: mod_simps map_Suc_upt [symmetric] del: map_Suc_upt upt_Suc) (simp add: numeral_2_eq_2 map_Suc_upt [symmetric] mod_simps del: upt_Suc)
  also have "snd (selects rr_SelectBackend n ?s c) = s\<lparr>rr_counter := (rr_counter s + Suc n) mod ?N\<rparr>"
    using Suc.IH [of ?s] Suc.prems by (auto simp: mod_simps)
  finally show ?case
    by (simp add: upt_conv_Cons numeral_2_eq_2 del: upt_Suc)
qed simp

text \<open>C23. One full cycle. From any state with backends, as many selections as there are backends
  return every backend exactly once, in the configured order starting after the counter, and leave
  the counter where it was (reduced by the size, when an exclusion had left it beyond).\<close>

theorem rr_full_cycle:
  assumes "rr_backends s \<noteq> []"
  shows "selects rr_SelectBackend (length (rr_backends s)) s c =
    (map Inr (rotate (Suc (rr_counter s)) (rr_backends s)),
     s\<lparr>rr_counter := rr_counter s mod length (rr_backends s)\<rparr>)"
proof -
  let ?N = "length (rr_backends s)"
  have "map (\<lambda>k. Inr (rr_backends s ! ((rr_counter s + k) mod ?N))) [1..<Suc ?N] =
      map Inr (rotate (Suc (rr_counter s)) (rr_backends s))"
    by (rule nth_equalityI) (auto simp: nth_rotate simp del: upt_Suc rotate_Suc)
  with assms show ?thesis by (simp add: rr_selects_eq del: rotate_Suc)
qed

definition sample_rr :: "sample_addr RoundRobinSelector" where
  "sample_rr = \<lparr>rr_counter = 0, rr_backends = [EndpointB (sample_ep ''127.0.0.1'' 8080),
     EndpointB (sample_ep ''127.0.0.1'' 8081), EndpointB (sample_ep ''127.0.0.1'' 8082)]\<rparr>"

theorem rr_full_cycle_witness:
  "selects rr_SelectBackend (length (rr_backends sample_rr)) sample_rr (sample_ep ''::1'' 5000) =
    ([Inr (EndpointB (sample_ep ''127.0.0.1'' 8081)), Inr (EndpointB (sample_ep ''127.0.0.1'' 8082)),
      Inr (EndpointB (sample_ep ''127.0.0.1'' 8080))], sample_rr)"
proof -
  have "rr_backends sample_rr \<noteq> []" by (simp add: sample_rr_def)
  note cycle = rr_full_cycle [OF this, of "sample_ep ''::1'' 5000"]
  show ?thesis unfolding cycle by (simp add: sample_rr_def)
qed

text \<open>An excluded backend is never selected again: whatever selections and exclusions
  follow its exclusion, none of them returns a backend equal to it.\<close>

theorem rr_excluded_never_selected:
  assumes "Inr x \<in> set (fst (run_requests rr_SelectBackend rr_ExcludeBackend
    (snd (rr_ExcludeBackend s b)) reqs))"
  shows "\<not> backend_eq x b"
  using assms
proof (rule run_requests_selects [where P = "\<lambda>s. \<forall>x \<in> rr_pool s. \<not> backend_eq x b"])
  fix t c y
  assume t: "\<forall>x \<in> rr_pool t. \<not> backend_eq x b" and y: "fst (rr_SelectBackend t c) = Inr y"
  from y have "rr_backends t \<noteq> []" by (auto simp: rr_defs)
  with t y rr.select_member [of t c] show "\<not> backend_eq y b" by auto
qed (auto simp: rr_defs)

theorem rr_excluded_never_selected_witness:
  "\<not> backend_eq (EndpointB (sample_ep ''127.0.0.1'' 8082)) (EndpointB (sample_ep ''127.0.0.1'' 8081))"
proof -
  have "Inr (EndpointB (sample_ep ''127.0.0.1'' 8082)) \<in> set (fst (run_requests rr_SelectBackend rr_ExcludeBackend
      (snd (rr_ExcludeBackend sample_rr (EndpointB (sample_ep ''127.0.0.1'' 8081)))) [Select (sample_ep ''::1'' 1)]))"
    by (simp add: rr_defs sample_rr_def sample_ep_def)
  then show ?thesis by (rule rr_excluded_never_selected)
qed

text \<open>\<^verbatim>\<open>Configure\<close> succeeds exactly when the endpoints node is a sequence whose entries all
  describe a backend, and then appends those backends in the order of the configuration, leaving
  the counter alone.\<close>

theorem rr_Configure_iff:
  "rr_Configure E Y node s = Inr t \<longleftrightarrow>
    (\<exists>eps bs. endpoints_of Y ''Round-robin endpoints node is missed'' node = Inr eps \<and>
      denotes E Y eps bs \<and> t = s\<lparr>rr_backends := rr_backends s @ bs\<rparr>)"
proof -
  have "rfold rr_emplace_back s bs = Inr (s\<lparr>rr_backends := rr_backends s @ bs\<rparr>)" for bs
    by (induction bs arbitrary: s) (auto simp: rr_emplace_back_def)
  then show ?thesis
    by (auto simp: rr_Configure_def configure_with_denotes)
qed

end
