(* ===== verification/Weighted_Round_Robin.thy ===== *)
theory Weighted_Round_Robin
  imports Selector "HOL-Library.Multiset"
begin

section \<open>\<^verbatim>\<open>WeightedRoundRobinSelector\<close>\<close>

text \<open>
  Every entry carries its weight and the number of turns it has had in its current round
  (\<^verbatim>\<open>current\<close>); \<^verbatim>\<open>AdvanceCounter\<close> gives the entry under the counter its turns and then moves
  on. \<^verbatim>\<open>Configure\<close> sorts the entries by descending weight with \<^verbatim>\<open>std::sort\<close>, whose order of
  equal weights the standard leaves open: the sort is a parameter with the standard's contract.
  Since \<^verbatim>\<open>current\<close> stays below the weight, its increments do not wrap.
\<close>

record 'a WeightWrapper =
  ww_backend :: "'a backend"
  ww_weight :: nat
  ww_current :: nat

record 'a WeightedRoundRobinSelector =
  wrr_backends :: "'a WeightWrapper list"
  wrr_counter :: nat

definition wrr_new :: "'a WeightedRoundRobinSelector" where
  "wrr_new = \<lparr>wrr_backends = [], wrr_counter = 0\<rparr>"

definition weight_compare :: "'a WeightWrapper \<Rightarrow> 'a WeightWrapper \<Rightarrow> bool" where
  "weight_compare a b \<longleftrightarrow> ww_weight a > ww_weight b"

text \<open>The contract of \<^verbatim>\<open>std::sort\<close> with \<^verbatim>\<open>weight_compare\<close>: a permutation in which no later
  element compares before an earlier one.\<close>

definition sort_spec :: "('a WeightWrapper list \<Rightarrow> 'a WeightWrapper list) \<Rightarrow> bool" where
  "sort_spec srt \<longleftrightarrow>
     (\<forall>xs. mset (srt xs) = mset xs \<and> sorted_wrt (\<lambda>a b. \<not> weight_compare b a) (srt xs))"

definition ReadWeight :: "'n yaml \<Rightarrow> 'n \<Rightarrow> nat result" where
  "ReadWeight Y ep =
     rbind (has_field Y ep ''weight'') (\<lambda>has_weight.
       if has_weight then size_t_field Y ep ''weight''
       else Inl (RuntimeError ''{} missed weight field''))"

definition read_weighted :: "'a env \<Rightarrow> 'n yaml \<Rightarrow> 'n \<Rightarrow> 'a WeightWrapper result" where
  "read_weighted E Y ep =
     rbind (ReadWeight Y ep) (\<lambda>weight.
       rbind (has_field Y ep ''url'') (\<lambda>has_url.
         if has_url then
           rbind (rbind (string_field Y ep ''url'') (Backend_of_string E)) (\<lambda>b.
             Inr \<lparr>ww_backend = b, ww_weight = weight, ww_current = 0\<rparr>)
         else rbind (has_field Y ep ''ip'') (\<lambda>has_ip.
           if has_ip then
             rbind (has_field Y ep ''port'') (\<lambda>has_port.
               if \<not> has_port then Inl (RuntimeError ''{} missed port field'')
               else rbind (string_field Y ep ''ip'') (\<lambda>ip.
                 rbind (int_field Y ep ''port'') (\<lambda>port.
                   rbind (Backend_of_ip E ip port) (\<lambda>b.
                     Inr \<lparr>ww_backend = b, ww_weight = weight, ww_current = 0\<rparr>))))
           else Inl (RuntimeError ''Weighted-round-robin endpoint is not defined: {}''))))"

definition wrr_push_back ::
    "'a WeightedRoundRobinSelector \<Rightarrow> 'a WeightWrapper \<Rightarrow> 'a WeightedRoundRobinSelector" where
  "wrr_push_back s w = s\<lparr>wrr_backends := wrr_backends s @ [w]\<rparr>"

definition wrr_Configure ::
    "('a WeightWrapper list \<Rightarrow> 'a WeightWrapper list) \<Rightarrow> 'a env \<Rightarrow> 'n yaml \<Rightarrow> 'n \<Rightarrow>
     'a WeightedRoundRobinSelector \<Rightarrow> 'a WeightedRoundRobinSelector result" where
  "wrr_Configure srt E Y balancing_node s =
     rbind (endpoints_of Y ''Weighted-round-robin endpoints node is missed'' balancing_node) (\<lambda>eps.
       rbind (rfold (\<lambda>s ep. rbind (read_weighted E Y ep) (\<lambda>w. Inr (wrr_push_back s w))) s eps) (\<lambda>s'.
         Inr (s'\<lparr>wrr_backends := srt (wrr_backends s')\<rparr>)))"

definition AdvanceCounter :: "'a WeightedRoundRobinSelector \<Rightarrow> 'a WeightedRoundRobinSelector" where
  "AdvanceCounter s =
     (let i = wrr_counter s; entry = wrr_backends s ! i in
      if ww_current entry + 1 < ww_weight entry
      then s\<lparr>wrr_backends := (wrr_backends s)[i := entry\<lparr>ww_current := ww_current entry + 1\<rparr>]\<rparr>
      else s\<lparr>wrr_backends := (wrr_backends s)[i := entry\<lparr>ww_current := 0\<rparr>],
             wrr_counter := (i + 1) mod length (wrr_backends s)\<rparr>)"

definition wrr_SelectBackend ::
    "'a WeightedRoundRobinSelector \<Rightarrow> 'a endpoint \<Rightarrow> 'a backend result \<times> 'a WeightedRoundRobinSelector" where
  "wrr_SelectBackend s notused =
     (if wrr_counter s < length (wrr_backends s)
      then (Inr (ww_backend (wrr_backends s ! wrr_counter s)), AdvanceCounter s)
      else (Inl (UndefinedBehaviour ''vector index out of range''), s))"

definition wrr_ExcludeBackend ::
    "'a WeightedRoundRobinSelector \<Rightarrow> 'a backend \<Rightarrow> unit result \<times> 'a WeightedRoundRobinSelector" where
  "wrr_ExcludeBackend s b =
     (let bs = (case first_index (\<lambda>w. backend_eq (ww_backend w) b) (wrr_backends s) of
             None \<Rightarrow> wrr_backends s
           | Some i \<Rightarrow>
               erase_at i (if i \<noteq> wrr_counter s
                 then (wrr_backends s)[wrr_counter s := (wrr_backends s ! wrr_counter s)\<lparr>ww_current := 0\<rparr>]
                 else wrr_backends s));
          s' = s\<lparr>wrr_backends := bs, wrr_counter := 0\<rparr>
      in (if bs = [] then Inl all_excluded else Inr (), s'))"

definition wrr_Type :: SelectorType where
  "wrr_Type = WEIGHTED_ROUND_ROBIN"

subsection \<open>The contract\<close>

abbreviation wrr_pool :: "'a WeightedRoundRobinSelector \<Rightarrow> 'a backend set" where
  "wrr_pool s \<equiv> ww_backend ` set (wrr_backends s)"

abbreviation wrr_entries :: "'a WeightedRoundRobinSelector \<Rightarrow> nat" where
  "wrr_entries s \<equiv> length (wrr_backends s)"

definition wrr_inv :: "'a WeightedRoundRobinSelector \<Rightarrow> bool" where
  "wrr_inv s \<longleftrightarrow> (wrr_backends s \<noteq> [] \<longrightarrow> wrr_counter s < length (wrr_backends s))"

definition wrr_distinct :: "'a WeightedRoundRobinSelector \<Rightarrow> bool" where
  "wrr_distinct s \<longleftrightarrow> sorted_wrt (\<lambda>x y. \<not> backend_eq x y) (map ww_backend (wrr_backends s))"

lemma map_backend_update:
  "ww_backend e = ww_backend (xs ! i) \<Longrightarrow> map ww_backend (xs[i := e]) = map ww_backend xs"
  by (cases "i < length xs") (auto simp: map_update list_update_same_conv list_update_beyond)

lemma AdvanceCounter_backends [simp]:
  "map ww_backend (wrr_backends (AdvanceCounter s)) = map ww_backend (wrr_backends s)"
  "length (wrr_backends (AdvanceCounter s)) = length (wrr_backends s)"
  by (auto simp: AdvanceCounter_def Let_def map_backend_update)

lemma AdvanceCounter_pool [simp]: "wrr_pool (AdvanceCounter s) = wrr_pool s"
  using AdvanceCounter_backends(1) [of s] by (metis set_map)

lemma AdvanceCounter_inv: "wrr_inv s \<Longrightarrow> wrr_inv (AdvanceCounter s)"
  by (auto simp: wrr_inv_def AdvanceCounter_def Let_def)

lemma exclude_backends:
  "map ww_backend (wrr_backends (snd (wrr_ExcludeBackend s b))) =
     (case first_index (\<lambda>w. backend_eq (ww_backend w) b) (wrr_backends s) of
        None \<Rightarrow> map ww_backend (wrr_backends s)
      | Some i \<Rightarrow> erase_at i (map ww_backend (wrr_backends s)))"
  by (auto simp: wrr_ExcludeBackend_def Let_def map_erase_at map_backend_update split: option.splits)

lemma exclude_member_index:
  assumes "b \<in> wrr_pool s"
  obtains i where "first_index (\<lambda>w. backend_eq (ww_backend w) b) (wrr_backends s) = Some i"
    and "i < length (wrr_backends s)" and "backend_eq (ww_backend (wrr_backends s ! i)) b"
proof -
  have "first_index (\<lambda>w. backend_eq (ww_backend w) b) (wrr_backends s) \<noteq> None"
    using assms unfolding first_index_None by auto
  then obtain i where "first_index (\<lambda>w. backend_eq (ww_backend w) b) (wrr_backends s) = Some i"
    by blast
  with that [of i] first_index_Some [OF this] show ?thesis by simp
qed

lemma wrr_pool_exclude:
  assumes "b \<in> wrr_pool s"
  shows "wrr_pool (snd (wrr_ExcludeBackend s b)) \<subseteq> wrr_pool s"
    and "length (wrr_backends (snd (wrr_ExcludeBackend s b))) < length (wrr_backends s)"
proof -
  from assms obtain i where i: "first_index (\<lambda>w. backend_eq (ww_backend w) b) (wrr_backends s) = Some i"
    "i < length (wrr_backends s)"
    by (rule exclude_member_index)
  let ?bs = "map ww_backend (wrr_backends s)"
  have eq: "map ww_backend (wrr_backends (snd (wrr_ExcludeBackend s b))) = erase_at i ?bs"
    using exclude_backends [of s b] i(1) by simp
  then have pool: "wrr_pool (snd (wrr_ExcludeBackend s b)) = set (erase_at i ?bs)"
    by (metis set_map)
  then show "wrr_pool (snd (wrr_ExcludeBackend s b)) \<subseteq> wrr_pool s"
    using set_erase_at_subset [of i ?bs] by simp
  from arg_cong [OF eq, of length] i(2)
  show "length (wrr_backends (snd (wrr_ExcludeBackend s b))) < length (wrr_backends s)" by simp
qed

lemma exclude_inv_result:
  "wrr_inv (snd (wrr_ExcludeBackend s b))"
  "fst (wrr_ExcludeBackend s b) =
    (if wrr_pool (snd (wrr_ExcludeBackend s b)) = {} then Inl all_excluded else Inr ())"
  by (auto simp: wrr_inv_def wrr_ExcludeBackend_def Let_def)

lemma wrr_exclude_pool_subset: "wrr_pool (snd (wrr_ExcludeBackend s b)) \<subseteq> wrr_pool s"
proof -
  have "wrr_pool t = set (map ww_backend (wrr_backends t))" for t :: "'a WeightedRoundRobinSelector" by simp
  then show ?thesis
    using exclude_backends [of s b] set_erase_at_subset [of _ "map ww_backend (wrr_backends s)"]
    by (metis (no_types, lifting) option.case_eq_if subset_refl)
qed

lemma wrr_exclude_keeps:
  assumes "x \<in> wrr_pool s" and "\<not> backend_eq x b"
  shows "x \<in> wrr_pool (snd (wrr_ExcludeBackend s b))"
proof -
  let ?bs = "map ww_backend (wrr_backends s)" and ?i = "first_index (\<lambda>w. backend_eq (ww_backend w) b) (wrr_backends s)"
  have pool: "wrr_pool t = set (map ww_backend (wrr_backends t))" for t :: "'a WeightedRoundRobinSelector" by simp
  have "x \<in> set (case ?i of None \<Rightarrow> ?bs | Some i \<Rightarrow> erase_at i ?bs)"
  proof (cases ?i)
    case (Some i)
    from first_index_Some [OF this] have "i < length ?bs" "backend_eq (?bs ! i) b" by simp_all
    with set_erase_at [of i ?bs] assms Some show ?thesis by auto
  qed (use assms(1) in simp)
  then show ?thesis unfolding pool exclude_backends .
qed

interpretation wrr: backend_selector wrr_SelectBackend wrr_ExcludeBackend wrr_pool wrr_entries wrr_inv
proof (unfold_locales, goal_cases)
  case (2 s c)
  then show ?case by (simp add: wrr_SelectBackend_def AdvanceCounter_inv)
next
  case (5 s c)
  then show ?case by (auto simp: wrr_SelectBackend_def wrr_inv_def)
next
  case (8 s b x)
  then show ?case by (intro wrr_exclude_keeps)
qed (simp_all add: wrr_SelectBackend_def wrr_pool_exclude exclude_inv_result)

interpretation wrr: shared_selector wrr_SelectBackend wrr_ExcludeBackend wrr_pool wrr_entries wrr_inv "\<lambda>s b. True"
  by unfold_locales (simp_all add: exclude_inv_result wrr_exclude_pool_subset wrr_exclude_keeps)

lemma wrr_distinct_steps:
  "wrr_distinct s \<Longrightarrow> wrr_distinct (snd (wrr_SelectBackend s c))"
  "wrr_distinct s \<Longrightarrow> wrr_distinct (snd (wrr_ExcludeBackend s b))"
  by (auto simp: wrr_distinct_def wrr_SelectBackend_def exclude_backends sorted_wrt_erase_at split: option.splits)

lemma wrr_exclude_gone:
  assumes "wrr_distinct s" and "x \<in> wrr_pool (snd (wrr_ExcludeBackend s b))"
  shows "\<not> backend_eq x b"
proof -
  let ?bs = "map ww_backend (wrr_backends s)" and ?i = "first_index (\<lambda>w. backend_eq (ww_backend w) b) (wrr_backends s)"
  have "wrr_pool t = set (map ww_backend (wrr_backends t))" for t :: "'a WeightedRoundRobinSelector" by simp
  with assms(2) have x: "x \<in> set (case ?i of None \<Rightarrow> ?bs | Some i \<Rightarrow> erase_at i ?bs)"
    unfolding exclude_backends [symmetric] by blast
  show ?thesis
  proof (cases ?i)
    case None
    with x show ?thesis by (auto simp: first_index_None)
  next
    case (Some i)
    from first_index_Some [OF Some] have i: "i < length (wrr_backends s)" "backend_eq (?bs ! i) b" by simp_all
    have "sorted_wrt (\<lambda>x y. \<not> backend_eq x y) (take i ?bs @ ?bs ! i # drop (Suc i) ?bs)"
      using assms(1) i(1) by (metis id_take_nth_drop length_map wrr_distinct_def)
    with x Some have "\<not> backend_eq x (?bs ! i)"
      by (auto simp: erase_at_def sorted_wrt_append backend_eq_sym)
    with i show ?thesis by (auto dest: backend_eq_trans backend_eq_sym [THEN iffD1])
  qed
qed

interpretation wrr_distinct: excluding_selector wrr_SelectBackend wrr_ExcludeBackend wrr_pool wrr_entries
  "\<lambda>s. wrr_inv s \<and> wrr_distinct s"
proof (unfold_locales, goal_cases)
  case (11 s b x)
  then show ?case by (intro wrr_exclude_gone) auto
next
  case (5 s c)
  then show ?case by (intro wrr.select_member) auto
qed (auto simp: wrr.select_laws wrr.exclude_laws wrr_distinct_steps wrr.exclude_keeps)

subsection \<open>The schedule\<close>

definition turns :: "'a WeightWrapper \<Rightarrow> nat" where
  "turns w = max 1 (ww_weight w)"

definition schedule :: "'a WeightWrapper list \<Rightarrow> 'a backend list" where
  "schedule ws = concat (map (\<lambda>w. replicate (turns w) (ww_backend w)) ws)"

definition wrr_fresh :: "'a WeightedRoundRobinSelector \<Rightarrow> bool" where
  "wrr_fresh s \<longleftrightarrow> wrr_counter s = 0 \<and> (\<forall>w \<in> set (wrr_backends s). ww_current w = 0)"

abbreviation wrr_at :: "'a WeightedRoundRobinSelector \<Rightarrow> nat \<Rightarrow> 'a WeightedRoundRobinSelector" where
  "wrr_at s i \<equiv> s\<lparr>wrr_counter := i\<rparr>"

lemma WeightWrapper_current_same: "ww_current w = n \<Longrightarrow> w\<lparr>ww_current := n\<rparr> = w"
  by (cases w) simp

lemma wrr_turn:
  assumes "wrr_counter s < length (wrr_backends s)" and "Suc k \<le> turns (wrr_backends s ! wrr_counter s)"
    and "ww_current (wrr_backends s ! wrr_counter s) = turns (wrr_backends s ! wrr_counter s) - Suc k"
  shows "selects wrr_SelectBackend (Suc k) s c =
    (replicate (Suc k) (Inr (ww_backend (wrr_backends s ! wrr_counter s))),
     s\<lparr>wrr_backends := (wrr_backends s)[wrr_counter s := (wrr_backends s ! wrr_counter s)\<lparr>ww_current := 0\<rparr>],
       wrr_counter := (wrr_counter s + 1) mod length (wrr_backends s)\<rparr>)"
  using assms
proof (induction k arbitrary: s)
  case 0
  then show ?case
    by (auto simp: wrr_SelectBackend_def AdvanceCounter_def Let_def turns_def split: if_splits)
next
  case (Suc k)
  let ?i = "wrr_counter s" and ?w = "wrr_backends s ! wrr_counter s"
  let ?s = "s\<lparr>wrr_backends := (wrr_backends s)[?i := ?w\<lparr>ww_current := ww_current ?w + 1\<rparr>]\<rparr>"
  have step: "wrr_SelectBackend s c = (Inr (ww_backend ?w), ?s)"
    using Suc.prems by (auto simp: wrr_SelectBackend_def AdvanceCounter_def Let_def turns_def)
  have "selects wrr_SelectBackend (Suc k) ?s c =
    (replicate (Suc k) (Inr (ww_backend ?w)),
     s\<lparr>wrr_backends := (wrr_backends s)[?i := ?w\<lparr>ww_current := 0\<rparr>],
       wrr_counter := (?i + 1) mod length (wrr_backends s)\<rparr>)"
    using Suc.prems by (subst Suc.IH) (auto simp: turns_def)
  then show ?case by (subst selects.simps) (simp add: step)
qed

lemma wrr_round:
  assumes "\<forall>w \<in> set (wrr_backends s). ww_current w = 0" and "i < length (wrr_backends s)"
  shows "selects wrr_SelectBackend (sum_list (map turns (drop i (wrr_backends s)))) (wrr_at s i) c =
    (map Inr (schedule (drop i (wrr_backends s))), wrr_at s 0)"
  using assms(2)
proof (induction "length (wrr_backends s) - i" arbitrary: i)
  case (Suc n)
  let ?ws = "wrr_backends s"
  let ?w = "?ws ! i"
  from Suc.prems assms(1) have w: "ww_current ?w = 0" by simp
  obtain k where k: "turns ?w = Suc k" by (cases "turns ?w") (auto simp: turns_def)
  have "selects wrr_SelectBackend (Suc k) (wrr_at s i) c =
      (replicate (turns ?w) (Inr (ww_backend ?w)), wrr_at s ((i + 1) mod length ?ws))"
    using Suc.prems w k by (subst wrr_turn) (simp_all add: WeightWrapper_current_same)
  then have turn: "selects wrr_SelectBackend (turns ?w) (wrr_at s i) c =
      (map Inr (replicate (turns ?w) (ww_backend ?w)), wrr_at s ((i + 1) mod length ?ws))"
    by (simp add: k)
  have drop: "drop i ?ws = ?w # drop (Suc i) ?ws"
    using Suc.prems by (simp add: Cons_nth_drop_Suc)
  show ?case
  proof (cases "Suc i = length ?ws")
    case True
    with turn show ?thesis by (simp add: drop schedule_def)
  next
    case False
    with Suc.prems Suc.hyps(2) have "Suc i < length ?ws" "n = length ?ws - Suc i" by auto
    with Suc.hyps(1) have "selects wrr_SelectBackend (sum_list (map turns (drop (Suc i) ?ws))) (wrr_at s (Suc i)) c =
        (map Inr (schedule (drop (Suc i) ?ws)), wrr_at s 0)" by simp
    with selects_append [OF turn, of _ "map Inr (schedule (drop (Suc i) ?ws))" "wrr_at s 0"] \<open>Suc i < length ?ws\<close>
    show ?thesis by (simp add: drop schedule_def)
  qed
qed simp

lemma wrr_cycle:
  assumes "wrr_fresh s" and "wrr_backends s \<noteq> []"
  shows "selects wrr_SelectBackend (sum_list (map turns (wrr_backends s))) s c =
    (map Inr (schedule (wrr_backends s)), s)"
proof -
  have "wrr_at s 0 = s" using assms(1) by (cases s) (simp add: wrr_fresh_def)
  with wrr_round [of s 0 c] assms show ?thesis by (simp add: wrr_fresh_def)
qed

text \<open>C11. Weighted fairness. From a fresh state (as \<^verbatim>\<open>Configure\<close> and the exclusion of a member
  leave it), any number of whole cycles of selections serves the entries in their order, each one
  as many times in a row as its weight says (once for a weight of zero), and ends in the same
  state.\<close>

theorem wrr_weighted_cycles:
  assumes "wrr_fresh s" and "wrr_backends s \<noteq> []"
  shows "selects wrr_SelectBackend (k * (\<Sum>w \<leftarrow> wrr_backends s. max 1 (ww_weight w))) s c =
    (concat (replicate k (map Inr (concat (map (\<lambda>w. replicate (max 1 (ww_weight w)) (ww_backend w))
       (wrr_backends s))))), s)"
  using selects_cycles [OF wrr_cycle [OF assms]]
  by (simp add: schedule_def turns_def [abs_def])

definition sample_wrr :: "sample_addr WeightedRoundRobinSelector" where
  "sample_wrr = \<lparr>wrr_backends = [
     \<lparr>ww_backend = EndpointB (sample_ep ''127.0.0.1'' 8081), ww_weight = 2, ww_current = 0\<rparr>,
     \<lparr>ww_backend = EndpointB (sample_ep ''127.0.0.1'' 8080), ww_weight = 1, ww_current = 0\<rparr>],
     wrr_counter = 0\<rparr>"

theorem wrr_weighted_cycles_witness:
  "selects wrr_SelectBackend 6 sample_wrr (sample_ep ''::1'' 5000) =
    (map Inr [EndpointB (sample_ep ''127.0.0.1'' 8081), EndpointB (sample_ep ''127.0.0.1'' 8081),
      EndpointB (sample_ep ''127.0.0.1'' 8080), EndpointB (sample_ep ''127.0.0.1'' 8081),
      EndpointB (sample_ep ''127.0.0.1'' 8081), EndpointB (sample_ep ''127.0.0.1'' 8080)], sample_wrr)"
proof -
  have "wrr_fresh sample_wrr" "wrr_backends sample_wrr \<noteq> []"
    by (simp_all add: wrr_fresh_def sample_wrr_def)
  note cycles = wrr_weighted_cycles [OF this, of 2 "sample_ep ''::1'' 5000"]
  have six: "2 * (\<Sum>w \<leftarrow> wrr_backends sample_wrr. max 1 (ww_weight w)) = 6" by (simp add: sample_wrr_def)
  have out: "concat (replicate 2 (map Inr (concat (map (\<lambda>w. replicate (max 1 (ww_weight w)) (ww_backend w))
      (wrr_backends sample_wrr))))) =
    map Inr [EndpointB (sample_ep ''127.0.0.1'' 8081), EndpointB (sample_ep ''127.0.0.1'' 8081),
      EndpointB (sample_ep ''127.0.0.1'' 8080), EndpointB (sample_ep ''127.0.0.1'' 8081),
      EndpointB (sample_ep ''127.0.0.1'' 8081), EndpointB (sample_ep ''127.0.0.1'' 8080)]"
    by (simp add: sample_wrr_def numeral_2_eq_2)
  from cycles show ?thesis unfolding six out .
qed

subsection \<open>Exclusion\<close>

text \<open>Between two operations only the entry under the counter can be in the middle of its turns.\<close>

definition wrr_turn_inv :: "'a WeightedRoundRobinSelector \<Rightarrow> bool" where
  "wrr_turn_inv s \<longleftrightarrow> wrr_inv s \<and>
     (\<forall>i < length (wrr_backends s). i \<noteq> wrr_counter s \<longrightarrow> ww_current (wrr_backends s ! i) = 0)"

lemma fresh_turn_inv: "wrr_fresh s \<Longrightarrow> wrr_turn_inv s"
  by (auto simp: wrr_fresh_def wrr_turn_inv_def wrr_inv_def)

lemma select_turn_inv: "wrr_turn_inv s \<Longrightarrow> wrr_turn_inv (snd (wrr_SelectBackend s c))"
  by (auto simp: wrr_turn_inv_def wrr_inv_def wrr_SelectBackend_def AdvanceCounter_def Let_def nth_list_update)

lemma select_pool_eq: "wrr_pool (snd (wrr_SelectBackend s c)) = wrr_pool s"
  by (simp add: wrr_SelectBackend_def)

lemma erase_at_currents:
  assumes "\<And>j. j < length xs \<Longrightarrow> j \<noteq> i \<Longrightarrow> P (xs ! j)"
  shows "\<forall>x \<in> set (erase_at i xs). P x"
  using assms by (fastforce simp: erase_at_def in_set_conv_nth nth_append)

lemma exclude_member_fresh:
  assumes "wrr_turn_inv s" and "b \<in> wrr_pool s"
  shows "wrr_fresh (snd (wrr_ExcludeBackend s b))"
proof -
  from assms(2) obtain i where i: "first_index (\<lambda>w. backend_eq (ww_backend w) b) (wrr_backends s) = Some i"
    "i < length (wrr_backends s)" by (rule exclude_member_index)
  let ?c = "wrr_counter s"
  let ?ws = "if i \<noteq> ?c then (wrr_backends s)[?c := (wrr_backends s ! ?c)\<lparr>ww_current := 0\<rparr>] else wrr_backends s"
  have "\<forall>w \<in> set (erase_at i ?ws). ww_current w = 0"
    using assms(1) i by (intro erase_at_currents) (auto simp: wrr_turn_inv_def wrr_inv_def nth_list_update)
  with i(1) show ?thesis by (simp add: wrr_fresh_def wrr_ExcludeBackend_def Let_def)
qed

text \<open>C24. Excluding a member at any point restarts the schedule. Whatever selections came before,
  from a fresh state, the exclusion of a backend of the pool leaves a fresh state on the remaining
  entries: the turns in progress are forgotten and the next cycle starts at the heaviest entry.\<close>

theorem wrr_exclude_restarts:
  assumes "wrr_fresh s" and "b \<in> wrr_pool s"
  shows "wrr_fresh (snd (wrr_ExcludeBackend (snd (selects wrr_SelectBackend n s c)) b))"
proof -
  have "wrr_turn_inv (snd (selects wrr_SelectBackend n t c)) \<and> wrr_pool (snd (selects wrr_SelectBackend n t c)) = wrr_pool t"
    if "wrr_turn_inv t" for t
    using that
  proof (induction n arbitrary: t)
    case (Suc n)
    from Suc.IH [OF select_turn_inv [OF Suc.prems, of c]]
    show ?case unfolding snd_selects_Suc by (simp add: select_pool_eq)
  qed simp
  from this [OF fresh_turn_inv [OF assms(1)]] assms(2) show ?thesis
    by (intro exclude_member_fresh) auto
qed

theorem wrr_exclude_restarts_witness:
  "wrr_fresh (snd (wrr_ExcludeBackend (snd (selects wrr_SelectBackend 1 sample_wrr (sample_ep ''::1'' 1)))
     (EndpointB (sample_ep ''127.0.0.1'' 8080))))"
  by (rule wrr_exclude_restarts) (simp_all add: wrr_fresh_def sample_wrr_def)

definition unfair_wrr :: "sample_addr backend \<Rightarrow> sample_addr backend \<Rightarrow> sample_addr WeightedRoundRobinSelector" where
  "unfair_wrr a b = \<lparr>wrr_backends = [\<lparr>ww_backend = a, ww_weight = 2, ww_current = 0\<rparr>,
     \<lparr>ww_backend = b, ww_weight = 2, ww_current = 0\<rparr>], wrr_counter = 0\<rparr>"

text \<open>Excluding a backend that is not in the pool (a second client whose connection to an
  already excluded backend is refused) moves the counter back to the first entry without clearing
  the turns in progress, so one entry gets fewer turns in the next cycle: with weights 2 and 2,
  three selections and such an exclusion, the next four selections are a, a, b, a.\<close>

theorem wrr_exclude_absent_unfair:
  "\<exists>a b x c. wrr_fresh (unfair_wrr a b) \<and> x \<notin> wrr_pool (unfair_wrr a b) \<and>
    fst (selects wrr_SelectBackend 4
      (snd (wrr_ExcludeBackend (snd (selects wrr_SelectBackend 3 (unfair_wrr a b) c)) x)) c) =
    [Inr a, Inr a, Inr b, Inr a] \<and> \<not> backend_eq a b"
proof (intro exI conjI)
  let ?a = "EndpointB (sample_ep ''127.0.0.1'' 8080)" and ?b = "EndpointB (sample_ep ''127.0.0.1'' 8081)"
    and ?x = "EndpointB (sample_ep ''127.0.0.1'' 8082)" and ?c = "sample_ep ''::1'' 5000"
  have ne: "\<not> backend_eq ?a ?x" "\<not> backend_eq ?b ?x" by (simp_all add: sample_ep_def)
  show "wrr_fresh (unfair_wrr ?a ?b)" by (simp add: wrr_fresh_def unfair_wrr_def)
  show "?x \<notin> wrr_pool (unfair_wrr ?a ?b)" by (simp add: unfair_wrr_def sample_ep_def)
  show "fst (selects wrr_SelectBackend 4
      (snd (wrr_ExcludeBackend (snd (selects wrr_SelectBackend 3 (unfair_wrr ?a ?b) ?c)) ?x)) ?c) =
    [Inr ?a, Inr ?a, Inr ?b, Inr ?a]"
    using ne by (simp add: eval_nat_numeral unfair_wrr_def wrr_SelectBackend_def AdvanceCounter_def
        wrr_ExcludeBackend_def Let_def del: backend_eq.simps)
  show "\<not> backend_eq ?a ?b" by (simp add: sample_ep_def)
qed

subsection \<open>Configuration\<close>

definition denotes_weighted :: "'a env \<Rightarrow> 'n yaml \<Rightarrow> 'n list \<Rightarrow> 'a WeightWrapper list \<Rightarrow> bool" where
  "denotes_weighted E Y eps ws \<longleftrightarrow> list_all2 (\<lambda>ep w. read_weighted E Y ep = Inr w) eps ws"

lemma push_back_simps:
  "wrr_backends (wrr_push_back s w) = wrr_backends s @ [w]"
  "(wrr_push_back s w)\<lparr>wrr_backends := ws\<rparr> = s\<lparr>wrr_backends := ws\<rparr>"
  by (simp_all add: wrr_push_back_def)

lemma wrr_loop:
  "rfold (\<lambda>s ep. rbind (read_weighted E Y ep) (\<lambda>w. Inr (wrr_push_back s w))) s eps = Inr t \<longleftrightarrow>
    (\<exists>ws. denotes_weighted E Y eps ws \<and> t = s\<lparr>wrr_backends := wrr_backends s @ ws\<rparr>)"
proof (induction eps arbitrary: s)
  case (Cons ep eps)
  have "(\<exists>ws. denotes_weighted E Y (ep # eps) ws \<and> t = s\<lparr>wrr_backends := wrr_backends s @ ws\<rparr>) \<longleftrightarrow>
      (\<exists>w ws. read_weighted E Y ep = Inr w \<and> denotes_weighted E Y eps ws \<and>
        t = s\<lparr>wrr_backends := wrr_backends s @ w # ws\<rparr>)"
    unfolding denotes_weighted_def list_all2_Cons1 by blast
  moreover have "rfold (\<lambda>s ep. rbind (read_weighted E Y ep) (\<lambda>w. Inr (wrr_push_back s w))) s (ep # eps) = Inr t \<longleftrightarrow>
      (\<exists>w ws. read_weighted E Y ep = Inr w \<and> denotes_weighted E Y eps ws \<and>
        t = s\<lparr>wrr_backends := wrr_backends s @ w # ws\<rparr>)"
    by (auto simp: Cons.IH push_back_simps)
  ultimately show ?case by (simp only:)
qed (auto simp: denotes_weighted_def)

lemma read_weighted_current: "read_weighted E Y ep = Inr w \<Longrightarrow> ww_current w = 0"
  by (auto simp: read_weighted_def split: if_splits)

text \<open>C26. What a configured weighted selector holds: if \<^verbatim>\<open>Configure\<close> of a new selector
  succeeds, every entry of the endpoints sequence was well-formed, the selector holds exactly the
  entries they describe, in an order of descending weights, and it is fresh, so the cycles above
  apply to it.\<close>

theorem wrr_Configure_sorted:
  assumes "sort_spec srt" and "wrr_Configure srt E Y node wrr_new = Inr t"
  shows "\<exists>eps ws. endpoints_of Y ''Weighted-round-robin endpoints node is missed'' node = Inr eps \<and>
    denotes_weighted E Y eps ws \<and> mset (wrr_backends t) = mset ws \<and>
    sorted_wrt (\<lambda>v w. ww_weight w \<le> ww_weight v) (wrr_backends t) \<and> wrr_fresh t"
proof -
  from assms(2) obtain eps ws where eps: "endpoints_of Y ''Weighted-round-robin endpoints node is missed'' node = Inr eps"
    "denotes_weighted E Y eps ws" and t: "t = \<lparr>wrr_backends = srt ws, wrr_counter = 0\<rparr>"
    by (auto simp: wrr_Configure_def wrr_loop wrr_new_def)
  from assms(1) have srt: "mset (srt ws) = mset ws" "sorted_wrt (\<lambda>v w. ww_weight w \<le> ww_weight v) (srt ws)"
    by (auto simp: sort_spec_def weight_compare_def not_less)
  have "\<forall>w \<in> set ws. ww_current w = 0"
    using eps(2) unfolding denotes_weighted_def list_all2_conv_all_nth
    by (metis in_set_conv_nth read_weighted_current)
  with mset_eq_setD [OF srt(1)] have "wrr_fresh t" by (simp add: wrr_fresh_def t)
  with eps srt t show ?thesis by auto
qed

definition sample_sort :: "'a WeightWrapper list \<Rightarrow> 'a WeightWrapper list" where
  "sample_sort ws = rev (sort_key ww_weight ws)"

lemma sample_sort_spec: "sort_spec sample_sort"
proof -
  have "sorted_wrt (\<lambda>a b. ww_weight a \<le> ww_weight b) (sort_key ww_weight xs)" for xs :: "'a WeightWrapper list"
    using sorted_sort_key [of ww_weight xs] by (simp add: sorted_map)
  then show ?thesis
    by (simp add: sort_spec_def sample_sort_def weight_compare_def not_less sorted_wrt_rev)
qed

definition sample_weighted_config :: ynode where
  "sample_weighted_config = YMap [(''endpoints'', YSeq [
     YMap [(''ip'', YScalar ''127.0.0.1''), (''port'', YScalar ''80''), (''weight'', YScalar ''1'')],
     YMap [(''ip'', YScalar ''127.0.0.2''), (''port'', YScalar ''80''), (''weight'', YScalar ''2'')]])]"

theorem wrr_Configure_sorted_witness:
  "\<exists>t. wrr_Configure sample_sort sample_env sample_yaml sample_weighted_config wrr_new = Inr t \<and> wrr_fresh t"
proof -
  have "\<exists>t. wrr_Configure sample_sort sample_env sample_yaml sample_weighted_config wrr_new = Inr t"
    by (simp add: wrr_Configure_def endpoints_of_def sample_weighted_config_def sample_yaml_simps
        read_weighted_def ReadWeight_def Backend_of_ip_def)
  then obtain t where t: "wrr_Configure sample_sort sample_env sample_yaml sample_weighted_config wrr_new = Inr t"
    by blast
  with wrr_Configure_sorted [OF sample_sort_spec t] show ?thesis by blast
qed

end
