(* ===== verification/Ip_Hash.thy ===== *)
theory Ip_Hash
  imports Round_Robin
begin

section \<open>\<^verbatim>\<open>IpHashSelector\<close>\<close>

text \<open>
  The backend is chosen by a hash of the client's endpoint, modulo the number of backends. The
  arithmetic is that of \<^verbatim>\<open>std::size_t\<close>, 64 bits wide and wrapping; the summand
  \<^verbatim>\<open>ep.port() * 37 * 37\<close> is computed as an \<^verbatim>\<open>int\<close>, in which it cannot overflow (it is
  below \<^verbatim>\<open>2^27\<close>), so computing it in 64 bits gives the same value.
\<close>

record 'a IpHashSelector =
  ih_backends :: "'a backend list"

definition ih_new :: "'a IpHashSelector" where
  "ih_new = \<lparr>ih_backends = []\<rparr>"

definition ih_emplace_back :: "'a IpHashSelector \<Rightarrow> 'a backend \<Rightarrow> 'a IpHashSelector result" where
  "ih_emplace_back s b = Inr (s\<lparr>ih_backends := ih_backends s @ [b]\<rparr>)"

definition ih_Configure ::
    "'a env \<Rightarrow> 'n yaml \<Rightarrow> 'n \<Rightarrow> 'a IpHashSelector \<Rightarrow> 'a IpHashSelector result" where
  "ih_Configure E Y balancing_node s =
     rbind (endpoints_of Y ''Ip-hash endpoints node is missed'' balancing_node)
       (configure_with E Y ih_emplace_back s)"

definition ComputeHash :: "'a env \<Rightarrow> 'a endpoint \<Rightarrow> 64 word" where
  "ComputeHash E ep = std_hash E (addr_to_string E (ep_addr ep)) * 37 + ucast (ep_port ep) * 37 * 37"

definition ih_SelectBackend ::
    "'a env \<Rightarrow> 'a IpHashSelector \<Rightarrow> 'a endpoint \<Rightarrow> 'a backend result \<times> 'a IpHashSelector" where
  "ih_SelectBackend E s client_address =
     (if ih_backends s = [] then (Inl (UndefinedBehaviour ''remainder by zero''), s)
      else (Inr (ih_backends s ! (unat (ComputeHash E client_address) mod length (ih_backends s))), s))"

definition ih_ExcludeBackend ::
    "'a IpHashSelector \<Rightarrow> 'a backend \<Rightarrow> unit result \<times> 'a IpHashSelector" where
  "ih_ExcludeBackend s b =
     (let s' = s\<lparr>ih_backends := filter (\<lambda>x. \<not> backend_eq x b) (ih_backends s)\<rparr>
      in (if ih_backends s' = [] then Inl all_excluded else Inr (), s'))"

definition ih_Type :: SelectorType where
  "ih_Type = IP_HASH"

subsection \<open>The contract\<close>

abbreviation ih_pool :: "'a IpHashSelector \<Rightarrow> 'a backend set" where
  "ih_pool s \<equiv> set (ih_backends s)"

abbreviation ih_entries :: "'a IpHashSelector \<Rightarrow> nat" where
  "ih_entries s \<equiv> length (ih_backends s)"

lemmas ih_defs = ih_SelectBackend_def ih_ExcludeBackend_def Let_def

interpretation ih: excluding_selector "ih_SelectBackend E" ih_ExcludeBackend ih_pool ih_entries "\<lambda>s. True"
  by unfold_locales (auto simp: ih_defs filter_empty_conv filter_backend_less)

interpretation ih: shared_selector "ih_SelectBackend E" ih_ExcludeBackend ih_pool ih_entries "\<lambda>s. True" "\<lambda>s b. True"
  by unfold_locales (auto simp: ih_defs filter_empty_conv)

lemma ih_Configure_iff:
  "ih_Configure E Y node s = Inr t \<longleftrightarrow>
    (\<exists>eps bs. endpoints_of Y ''Ip-hash endpoints node is missed'' node = Inr eps \<and>
      denotes E Y eps bs \<and> t = s\<lparr>ih_backends := ih_backends s @ bs\<rparr>)"
proof -
  have "rfold ih_emplace_back s bs = Inr (s\<lparr>ih_backends := ih_backends s @ bs\<rparr>)" for bs
    by (induction bs arbitrary: s) (auto simp: ih_emplace_back_def)
  then show ?thesis
    by (auto simp: ih_Configure_def configure_with_denotes)
qed

subsection \<open>Stickiness\<close>

text \<open>The selection depends on nothing but the client's endpoint and the pool: while no
  backend is excluded, every connection from one endpoint goes to the same backend of the pool,
  however many selections there are, and selecting changes nothing.\<close>

theorem ih_sticky:
  assumes "ih_backends s \<noteq> []"
  shows "\<exists>b. b \<in> ih_pool s \<and> selects (ih_SelectBackend E) n s c = (replicate n (Inr b), s)"
proof -
  obtain b where "b \<in> ih_pool s" "ih_SelectBackend E s c = (Inr b, s)"
    using that [of "ih_backends s ! (unat (ComputeHash E c) mod length (ih_backends s))"] assms
    by (simp add: ih_defs)
  then have "selects (ih_SelectBackend E) n s c = (replicate n (Inr b), s)"
    by (induction n) auto
  with \<open>b \<in> ih_pool s\<close> show ?thesis by blast
qed

definition sample_ih :: "sample_addr IpHashSelector" where
  "sample_ih = \<lparr>ih_backends = [EndpointB (sample_ep ''127.0.0.1'' 8080), EndpointB (sample_ep ''127.0.0.1'' 8081)]\<rparr>"

theorem ih_sticky_witness:
  "\<exists>b. b \<in> ih_pool sample_ih \<and>
    selects (ih_SelectBackend sample_env) 3 sample_ih (sample_ep ''::1'' 5000) = (replicate 3 (Inr b), sample_ih)"
  by (rule ih_sticky) (simp add: sample_ih_def)

lemma unat_add_no_wrap: "unat (a :: 64 word) + k < 2 ^ 64 \<Longrightarrow> unat (a + word_of_nat k) = unat a + k"
  by (simp add: unat_word_ariths unat_of_nat)

lemma port_summand: "(ucast (p :: 16 word) :: 64 word) * 37 * 37 = word_of_nat (unat p * 1369)"
proof -
  have "(ucast p :: 64 word) = word_of_nat (unat p)" by simp
  then show ?thesis by (simp only:) simp
qed

lemma unat_ComputeHash:
  assumes "unat (std_hash E (addr_to_string E (ep_addr ep)) * 37) + unat (ep_port ep) * 1369 < 2 ^ 64"
  shows "unat (ComputeHash E ep) = unat (std_hash E (addr_to_string E (ep_addr ep)) * 37) + unat (ep_port ep) * 1369"
  unfolding ComputeHash_def port_summand using assms by (rule unat_add_no_wrap)

text \<open>C25. The hash is not one of the client's address: it mixes in the client's port. Two
  connections of the same address from consecutive ports are sent to different backends, unless
  the hash wraps around between them or the number of backends divides 1369 (it is 1, 37 or 1369).
  So the connections of one client are spread over the pool.\<close>

theorem ih_port_changes_backend:
  assumes "distinct (ih_backends s)" and "\<not> length (ih_backends s) dvd 1369" and "ih_backends s \<noteq> []"
    and "unat p < 65535"
    and "unat (std_hash E (addr_to_string E a) * 37) + (unat p + 1) * 1369 < 2 ^ 64"
  shows "fst (ih_SelectBackend E s \<lparr>ep_addr = a, ep_port = p + 1\<rparr>) \<noteq>
    fst (ih_SelectBackend E s \<lparr>ep_addr = a, ep_port = p\<rparr>)"
proof -
  let ?n = "length (ih_backends s)" and ?x = "unat (std_hash E (addr_to_string E a) * 37) + unat p * 1369"
  have suc: "unat (p + 1) = unat p + 1"
    using assms(4) by (simp add: unat_word_ariths)
  have "unat (ComputeHash E \<lparr>ep_addr = a, ep_port = p\<rparr>) = ?x"
    using assms(5) by (subst unat_ComputeHash) auto
  moreover have "unat (ComputeHash E \<lparr>ep_addr = a, ep_port = p + 1\<rparr>) = ?x + 1369"
    using assms(5) by (subst unat_ComputeHash) (simp_all add: suc)
  moreover have "(?x + 1369) mod ?n \<noteq> ?x mod ?n"
    using assms(2) by (metis add_diff_cancel_left' le_add1 mod_eq_dvd_iff_nat)
  moreover have "(?x + 1369) mod ?n < ?n" "?x mod ?n < ?n" using assms(3) by auto
  ultimately show ?thesis using assms(1,3)
    by (simp add: ih_SelectBackend_def nth_eq_iff_index_eq)
qed

theorem ih_port_changes_backend_witness:
  "fst (ih_SelectBackend sample_env sample_ih \<lparr>ep_addr = Sample_addr ''1'', ep_port = 5000 + 1\<rparr>) \<noteq>
   fst (ih_SelectBackend sample_env sample_ih \<lparr>ep_addr = Sample_addr ''1'', ep_port = 5000\<rparr>)"
proof (rule ih_port_changes_backend)
  show "\<not> length (ih_backends sample_ih) dvd 1369"
    by (simp add: sample_ih_def) presburger
qed (simp_all add: sample_ih_def sample_ep_def sample_hash_def)

end
