(* ===== verification/Pumba_Router.thy ===== *)
theory Pumba_Router
  imports LB_Prelude
begin

section \<open>The consistent-hashing router: \<^verbatim>\<open>third_party/pumba/include/pumba/router.hpp\<close>\<close>

text \<open>
  \<^verbatim>\<open>ConsistentHashingRouter\<close> keeps its nodes in a \<^verbatim>\<open>std::list\<close> and maps the points of a ring
  (\<^verbatim>\<open>std::map<HashType, NodeIt>\<close>) to iterators into it. An iterator is modelled by the number of
  the insertion that created the node: it stays valid until the node is erased, and two iterators
  are equal exactly when they denote the same node. The map is the list of its bindings in
  ascending key order, which is the order its iterators visit and \<^verbatim>\<open>lower_bound\<close> searches. The
  template parameter \<^verbatim>\<open>HashTraits\<close> is a record of its two functions, of which
  \<^verbatim>\<open>Replicate\<close> may throw.
\<close>

record ('n, 'h) HashTraits =
  GetHash :: "'n \<Rightarrow> 'h"
  Replicate :: "'n \<Rightarrow> nat \<Rightarrow> 'h list result"

record ('n, 'h) router =
  ring :: "('h \<times> nat) list"
  physical_nodes :: "(nat \<times> 'n) list"
  next_it :: nat
  replicas :: nat

definition router_new :: "nat \<Rightarrow> ('n, 'h) router" where
  "router_new n = \<lparr>ring = [], physical_nodes = [], next_it = 0, replicas = n\<rparr>"

text \<open>\<^verbatim>\<open>ring_[key] = it\<close>.\<close>

fun ring_put :: "'h::linorder \<Rightarrow> nat \<Rightarrow> ('h \<times> nat) list \<Rightarrow> ('h \<times> nat) list" where
  "ring_put k it [] = [(k, it)]"
| "ring_put k it ((a, b) # r) =
     (if k < a then (k, it) # (a, b) # r
      else if k = a then (k, it) # r
      else (a, b) # ring_put k it r)"

definition router_Empty :: "('n, 'h) router \<Rightarrow> bool" where
  "router_Empty s \<longleftrightarrow> physical_nodes s = []"

definition PhysicalNodes :: "('n, 'h) router \<Rightarrow> nat" where
  "PhysicalNodes s = length (physical_nodes s)"

definition Replicas :: "('n, 'h) router \<Rightarrow> nat" where
  "Replicas s = replicas s"

text \<open>\<^verbatim>\<open>replicas_-1\<close> in \<^verbatim>\<open>std::size_t\<close>.\<close>

definition size_t_pred :: "nat \<Rightarrow> nat" where
  "size_t_pred n = (if n = 0 then 2 ^ 64 - 1 else n - 1)"

definition SpawnReplicas ::
    "('n, 'h::linorder) HashTraits \<Rightarrow> nat \<Rightarrow> 'n \<Rightarrow> ('n, 'h) router \<Rightarrow> unit result \<times> ('n, 'h) router" where
  "SpawnReplicas T it node s =
     (let s' = s\<lparr>ring := ring_put (GetHash T node) it (ring s)\<rparr> in
      case Replicate T node (size_t_pred (replicas s)) of
        Inl e \<Rightarrow> (Inl e, s')
      | Inr hs \<Rightarrow> (Inr (), s'\<lparr>ring := fold (\<lambda>h. ring_put h it) hs (ring s')\<rparr>))"

definition EmplaceNode ::
    "('n, 'h::linorder) HashTraits \<Rightarrow> 'n \<Rightarrow> ('n, 'h) router \<Rightarrow> unit result \<times> ('n, 'h) router" where
  "EmplaceNode T node s =
     SpawnReplicas T (next_it s) node
       (s\<lparr>physical_nodes := physical_nodes s @ [(next_it s, node)], next_it := Suc (next_it s)\<rparr>)"

definition InsertNode ::
    "('n, 'h::linorder) HashTraits \<Rightarrow> 'n \<Rightarrow> ('n, 'h) router \<Rightarrow> unit result \<times> ('n, 'h) router" where
  "InsertNode T node s =
     SpawnReplicas T (next_it s) node
       (s\<lparr>physical_nodes := physical_nodes s @ [(next_it s, node)], next_it := Suc (next_it s)\<rparr>)"

fun EraseReplicasOf :: "nat \<Rightarrow> ('h \<times> nat) list \<Rightarrow> ('h \<times> nat) list" where
  "EraseReplicasOf it [] = []"
| "EraseReplicasOf it ((k, v) # r) =
     (if v = it then EraseReplicasOf it r else (k, v) # EraseReplicasOf it r)"

definition EraseNode ::
    "('n, 'h::linorder) HashTraits \<Rightarrow> 'n \<Rightarrow> ('n, 'h) router \<Rightarrow> ('n, 'h) router" where
  "EraseNode T node s =
     (case map_of (ring s) (GetHash T node) of
        None \<Rightarrow> s
      | Some it \<Rightarrow> s\<lparr>ring := EraseReplicasOf it (ring s),
                     physical_nodes := filter (\<lambda>(i, n). i \<noteq> it) (physical_nodes s)\<rparr>)"

text \<open>The binding \<^verbatim>\<open>lower_bound\<close> finds, or \<^verbatim>\<open>begin()\<close> when it finds none; \<^verbatim>\<open>None\<close> is
  \<^verbatim>\<open>end()\<close>, the case of an empty ring.\<close>

definition ring_successor :: "'h::linorder \<Rightarrow> ('h \<times> nat) list \<Rightarrow> ('h \<times> nat) option" where
  "ring_successor h r =
     (case find (\<lambda>(k, v). h \<le> k) r of
        Some e \<Rightarrow> Some e
      | None \<Rightarrow> (case r of [] \<Rightarrow> None | e # _ \<Rightarrow> Some e))"

definition SelectNode ::
    "('n, 'h::linorder) HashTraits \<Rightarrow> 'n \<Rightarrow> ('n, 'h) router \<Rightarrow> 'n result" where
  "SelectNode T client s =
     (if router_Empty s then Inl (RuntimeError ''pumba::Router: no nodes on the ring'')
      else case ring_successor (GetHash T client) (ring s) of
             None \<Rightarrow> Inl (UndefinedBehaviour ''dereference of end()'')
           | Some (k, it) \<Rightarrow>
               (case map_of (physical_nodes s) it of
                  None \<Rightarrow> Inl (UndefinedBehaviour ''dereference of an erased node'')
                | Some n \<Rightarrow> Inr n))"

subsection \<open>The ring\<close>

lemma EraseReplicasOf_eq: "EraseReplicasOf it r = filter (\<lambda>(k, v). v \<noteq> it) r"
  by (induction r rule: EraseReplicasOf.induct) auto

lemma map_of_ring_put [simp]: "map_of (ring_put k it r) = (map_of r)(k \<mapsto> it)"
  by (induction r rule: ring_put.induct) auto

lemma set_fst_ring_put [simp]: "fst ` set (ring_put k it r) = insert k (fst ` set r)"
  by (induction r rule: ring_put.induct) auto

lemma snd_ring_put: "snd ` set (ring_put k it r) \<subseteq> insert it (snd ` set r)"
  by (induction r rule: ring_put.induct) auto

lemma sorted_ring_put:
  "sorted_wrt (<) (map fst r) \<Longrightarrow> sorted_wrt (<) (map fst (ring_put k it r))"
proof (induction r rule: ring_put.induct)
  case (2 k it a b r)
  have "\<forall>x \<in> fst ` set (ring_put k it r). a < x" if "\<not> k < a" "k \<noteq> a"
    using 2(2) that by auto
  with 2 show ?case by fastforce
qed simp

lemma ring_put_not_Nil [simp]: "ring_put k it r \<noteq> []"
  by (induction r rule: ring_put.induct) auto

lemma map_of_fold_put:
  "map_of (fold (\<lambda>h. ring_put h it) hs r) x = (if x \<in> set hs then Some it else map_of r x)"
  by (induction hs arbitrary: r) auto

lemma fold_put_laws:
  "sorted_wrt (<) (map fst r) \<Longrightarrow> sorted_wrt (<) (map fst (fold (\<lambda>h. ring_put h it) hs r))"
  "snd ` set (fold (\<lambda>h. ring_put h it) hs r) \<subseteq> insert it (snd ` set r)"
proof (induction hs arbitrary: r)
  case (Cons h hs)
  { case 1
    then show ?case using Cons.IH(1) [OF sorted_ring_put] by simp
  next
    case 2
    show ?case using Cons.IH(2) [of "ring_put h it r"] snd_ring_put [of h it r] by auto
  }
qed auto

lemma find_put:
  "find (\<lambda>(k, v). h \<le> k) (ring_put k it r) \<in> {Some (k, it), find (\<lambda>(k, v). h \<le> k) r}"
  by (induction r rule: ring_put.induct) auto

lemma successor_put:
  "ring_successor h (ring_put k it r) \<in> {Some (k, it), ring_successor h r}"
proof (cases "find (\<lambda>(k, v). h \<le> k) (ring_put k it r)")
  case (Some e)
  then have put: "ring_successor h (ring_put k it r) = Some e"
    by (simp add: ring_successor_def)
  from Some find_put [of h k it r] have "e = (k, it) \<or> find (\<lambda>(k, v). h \<le> k) r = Some e"
    by auto
  with put show ?thesis by (auto simp: ring_successor_def)
next
  case None
  then have "find (\<lambda>(k, v). h \<le> k) r = None"
    using find_put [of h k it r] by auto
  with None show ?thesis
    by (cases r) (auto simp: ring_successor_def split: if_splits list.splits)
qed

lemma successor_fold_put:
  "ring_successor h (fold (\<lambda>k. ring_put k it) ks r) = ring_successor h r \<or>
   (\<exists>k. ring_successor h (fold (\<lambda>k. ring_put k it) ks r) = Some (k, it))"
proof (induction ks arbitrary: r)
  case (Cons k ks)
  from Cons.IH [of "ring_put k it r"] successor_put [of h k it r]
  show ?case by auto
qed simp

lemma successor_erase:
  assumes "ring_successor h r = Some (k, v)" and "v \<noteq> it"
  shows "ring_successor h (EraseReplicasOf it r) = Some (k, v)"
proof (cases "find (\<lambda>(k, v). h \<le> k) r")
  case (Some e)
  with assms have "e = (k, v)" by (simp add: ring_successor_def)
  with find_filter_keep [OF Some, of "\<lambda>(k, v). v \<noteq> it"] assms(2) show ?thesis
    by (simp add: ring_successor_def EraseReplicasOf_eq)
next
  case None
  with assms obtain r' where r: "r = (k, v) # r'"
    by (auto simp: ring_successor_def split: list.splits)
  with find_filter_None [OF None, of "\<lambda>(k, v). v \<noteq> it"] assms(2) show ?thesis
    by (simp add: ring_successor_def EraseReplicasOf_eq)
qed

lemma successor_member: "ring_successor h r = Some e \<Longrightarrow> e \<in> set r"
proof -
  have "find P xs = Some e \<Longrightarrow> e \<in> set xs" for P and xs :: "('a \<times> nat) list"
    by (induction xs) (auto split: if_splits)
  then show "ring_successor h r = Some e \<Longrightarrow> e \<in> set r"
    by (auto simp: ring_successor_def split: option.splits list.splits)
qed

lemma successor_None: "ring_successor h r = None \<longleftrightarrow> r = []"
  by (auto simp: ring_successor_def split: option.splits list.splits)

text \<open>On a sorted ring the successor is the first point at or after \<open>h\<close>, going round.\<close>

lemma successor_clockwise:
  assumes "sorted_wrt (<) (map fst r)" and "ring_successor h r = Some (k, v)" and "x \<in> fst ` set r"
  shows "if h \<le> k then \<not> (h \<le> x \<and> x < k) else x < h \<and> k \<le> x"
proof (cases "find (\<lambda>(k, v). h \<le> k) r")
  case (Some e)
  with assms(2) have e: "e = (k, v)" by (simp add: ring_successor_def)
  from Some obtain i where i: "i < length r" "h \<le> fst (r ! i)" "e = r ! i" "\<forall>j < i. \<not> h \<le> fst (r ! j)"
    by (auto simp: find_Some_iff case_prod_unfold)
  from assms(3) obtain j where j: "j < length r" "x = fst (r ! j)"
    by (auto simp: in_set_conv_nth)
  have "fst (r ! i) \<le> fst (r ! j)" if "i \<le> j"
    using sorted_wrt_nth_less [OF assms(1), of i j] that i(1) j(1) by (cases "i = j") auto
  with i j e show ?thesis by (metis fst_conv linorder_not_less nat_le_linear order_le_less)
next
  case None
  then have lt: "\<forall>y \<in> fst ` set r. y < h" by (auto simp: find_None_iff)
  from None assms(2) obtain r' where r: "r = (k, v) # r'"
    by (auto simp: ring_successor_def split: list.splits)
  with assms(1,3) lt show ?thesis by auto
qed

subsection \<open>The representation invariant\<close>

definition router_inv :: "('n, 'h::linorder) router \<Rightarrow> bool" where
  "router_inv s \<longleftrightarrow> sorted_wrt (<) (map fst (ring s)) \<and> distinct (map fst (physical_nodes s)) \<and>
     snd ` set (ring s) \<subseteq> fst ` set (physical_nodes s) \<and>
     (\<forall>i \<in> fst ` set (physical_nodes s). i < next_it s)"

lemma router_inv_new: "router_inv (router_new n)"
  by (simp add: router_inv_def router_new_def)

lemma spawn_cases:
  "snd (SpawnReplicas T it node s) =
    s\<lparr>ring := fold (\<lambda>h. ring_put h it)
      (GetHash T node # (case Replicate T node (size_t_pred (replicas s)) of Inl e \<Rightarrow> [] | Inr hs \<Rightarrow> hs)) (ring s)\<rparr>"
  by (simp add: SpawnReplicas_def Let_def split: sum.splits)

lemma router_inv_Emplace: "router_inv s \<Longrightarrow> router_inv (snd (EmplaceNode T node s))"
proof -
  assume inv: "router_inv s"
  let ?hs = "GetHash T node # (case Replicate T node (size_t_pred (replicas s)) of Inl e \<Rightarrow> [] | Inr hs \<Rightarrow> hs)"
  have "snd ` set (fold (\<lambda>h. ring_put h (next_it s)) ?hs (ring s)) \<subseteq> insert (next_it s) (snd ` set (ring s))"
    by (rule fold_put_laws(2))
  moreover have "sorted_wrt (<) (map fst (fold (\<lambda>h. ring_put h (next_it s)) ?hs (ring s)))"
    using inv by (intro fold_put_laws(1)) (simp add: router_inv_def)
  ultimately show ?thesis
    using inv by (auto simp: router_inv_def EmplaceNode_def spawn_cases simp del: fold_simps)
qed

lemma router_inv_Erase: "router_inv s \<Longrightarrow> router_inv (EraseNode T node s)"
proof -
  assume inv: "router_inv s"
  have sorted: "sorted_wrt (<) (map fst (filter P r))" if "sorted_wrt (<) (map fst r)" for P and r :: "('b \<times> nat) list"
    using that by (induction r) auto
  have "distinct (map fst (filter P xs))" if "distinct (map fst xs)" for P and xs :: "(nat \<times> 'a) list"
    using that by (rule distinct_map_filter)
  with inv sorted show ?thesis
    by (auto simp: router_inv_def EraseNode_def EraseReplicasOf_eq case_prod_unfold split: option.splits)
qed

text \<open>The insertions and erasures of a router's life, in order.\<close>

datatype 'n ring_op = EmplaceOp 'n | EraseOp 'n

fun run_ring :: "('n, 'h::linorder) HashTraits \<Rightarrow> 'n ring_op list \<Rightarrow> ('n, 'h) router \<Rightarrow> ('n, 'h) router" where
  "run_ring T [] s = s"
| "run_ring T (EmplaceOp n # ops) s = run_ring T ops (snd (EmplaceNode T n s))"
| "run_ring T (EraseOp n # ops) s = run_ring T ops (EraseNode T n s)"

lemma router_inv_run: "router_inv s \<Longrightarrow> router_inv (run_ring T ops s)"
  by (induction T ops s rule: run_ring.induct) (auto simp: router_inv_Emplace router_inv_Erase)

subsection \<open>Nodes that own their key\<close>

text \<open>
  \<^verbatim>\<open>EraseNode\<close> finds a node by the point at the node's own hash, so it removes the right
  node only while that point still belongs to the node. The points a node brings onto the ring
  are its own hash and its replicas.
\<close>

definition points :: "('n, 'h) HashTraits \<Rightarrow> nat \<Rightarrow> 'n \<Rightarrow> 'h list" where
  "points T r node = GetHash T node # (case Replicate T node (size_t_pred r) of Inl e \<Rightarrow> [] | Inr hs \<Rightarrow> hs)"

definition own_keys :: "('n, 'h::linorder) HashTraits \<Rightarrow> ('n, 'h) router \<Rightarrow> bool" where
  "own_keys T s \<longleftrightarrow> (\<forall>(i, n) \<in> set (physical_nodes s). map_of (ring s) (GetHash T n) = Some i)"

definition ring_ok :: "('n, 'h::linorder) HashTraits \<Rightarrow> ('n, 'h) router \<Rightarrow> bool" where
  "ring_ok T s \<longleftrightarrow> router_inv s \<and> own_keys T s"

abbreviation ring_nodes :: "('n, 'h) router \<Rightarrow> 'n set" where
  "ring_nodes s \<equiv> snd ` set (physical_nodes s)"

lemma Emplace_eq:
  "snd (EmplaceNode T node s) =
    s\<lparr>ring := fold (\<lambda>h. ring_put h (next_it s)) (points T (replicas s) node) (ring s),
      physical_nodes := physical_nodes s @ [(next_it s, node)], next_it := Suc (next_it s)\<rparr>"
  by (simp add: EmplaceNode_def spawn_cases points_def)

lemma physical_lookup:
  "router_inv s \<Longrightarrow> map_of (physical_nodes s) i = Some n \<longleftrightarrow> (i, n) \<in> set (physical_nodes s)"
  by (simp add: router_inv_def)

lemma router_point_node:
  assumes "router_inv s" and "(k, i) \<in> set (ring s)"
  obtains n where "map_of (physical_nodes s) i = Some n"
proof -
  from assms have "i \<in> fst ` set (physical_nodes s)" by (force simp: router_inv_def)
  then show ?thesis using that by (auto simp: map_of_eq_None_iff [symmetric] domIff simp flip: dom_map_of_conv_image_fst)
qed

lemma ring_ok_new: "ring_ok T (router_new n)"
  by (simp add: ring_ok_def router_inv_new own_keys_def) (simp add: router_new_def)

lemma ring_ok_Emplace:
  assumes "ring_ok T s" and "\<forall>n \<in> ring_nodes s. GetHash T n \<notin> set (points T (replicas s) node)"
  shows "ring_ok T (snd (EmplaceNode T node s))"
proof -
  have "map_of (ring (snd (EmplaceNode T node s))) (GetHash T n) = Some i"
    if "(i, n) \<in> set (physical_nodes (snd (EmplaceNode T node s)))" for i n
    using that assms
    by (fastforce simp: Emplace_eq map_of_fold_put ring_ok_def own_keys_def points_def simp del: fold_simps)
  with assms(1) show ?thesis
    by (auto simp: ring_ok_def router_inv_Emplace own_keys_def)
qed

lemma own_keysD:
  "ring_ok T s \<Longrightarrow> (i, n) \<in> set (physical_nodes s) \<Longrightarrow> map_of (ring s) (GetHash T n) = Some i"
  by (auto simp: ring_ok_def own_keys_def)

lemma map_of_filter_snd:
  "map_of r k = Some v \<Longrightarrow> v \<noteq> it \<Longrightarrow> map_of (filter (\<lambda>(k, v). v \<noteq> it) r) k = Some v"
  by (induction r) auto

lemma map_of_filter_gone:
  "distinct (map fst r) \<Longrightarrow> map_of r k = None \<or> map_of r k = Some it \<Longrightarrow>
    map_of (filter (\<lambda>(k, v). v \<noteq> it) r) k = None"
  by (induction r) (auto simp: map_of_eq_None_iff split: if_splits)

lemma router_inv_distinct: "router_inv s \<Longrightarrow> distinct (map fst (ring s))"
  by (simp add: router_inv_def strict_sorted_iff)

lemma Erase_member:
  assumes "ring_ok T s" and "n \<in> ring_nodes s"
  obtains i where "(i, n) \<in> set (physical_nodes s)"
    and "EraseNode T n s = s\<lparr>ring := EraseReplicasOf i (ring s), physical_nodes := filter (\<lambda>(j, n). j \<noteq> i) (physical_nodes s)\<rparr>"
  using assms by (fastforce simp: ring_ok_def own_keys_def EraseNode_def)

lemma ring_ok_Erase:
  assumes "ring_ok T s" and "n \<in> ring_nodes s"
  shows "ring_ok T (EraseNode T n s)"
proof -
  from assms obtain i where "EraseNode T n s = s\<lparr>ring := EraseReplicasOf i (ring s),
      physical_nodes := filter (\<lambda>(j, n). j \<noteq> i) (physical_nodes s)\<rparr>"
    by (rule Erase_member)
  moreover have "router_inv (EraseNode T n s)"
    using assms by (simp add: ring_ok_def router_inv_Erase)
  ultimately show ?thesis
    using assms(1) by (auto simp: ring_ok_def own_keys_def EraseReplicasOf_eq intro!: map_of_filter_snd)
qed

lemma Erase_nodes:
  assumes "ring_ok T s" and "n \<in> ring_nodes s"
  shows "ring_nodes (EraseNode T n s) = {m \<in> ring_nodes s. GetHash T m \<noteq> GetHash T n}"
    and "length (physical_nodes (EraseNode T n s)) < length (physical_nodes s)"
proof -
  from assms obtain i where i: "(i, n) \<in> set (physical_nodes s)"
    "EraseNode T n s = s\<lparr>ring := EraseReplicasOf i (ring s),
      physical_nodes := filter (\<lambda>(j, n). j \<noteq> i) (physical_nodes s)\<rparr>"
    by (rule Erase_member)
  have "GetHash T m \<noteq> GetHash T n \<longleftrightarrow> j \<noteq> i" if "(j, m) \<in> set (physical_nodes s)" for j m
  proof
    show "j \<noteq> i" if "GetHash T m \<noteq> GetHash T n"
      using that i(1) \<open>(j, m) \<in> _\<close> assms(1) by (metis option.inject physical_lookup ring_ok_def)
    show "GetHash T m \<noteq> GetHash T n" if "j \<noteq> i"
    proof -
      have "map_of (ring s) (GetHash T m) = Some j" "map_of (ring s) (GetHash T n) = Some i"
        using i(1) \<open>(j, m) \<in> _\<close> assms(1) by (auto simp: ring_ok_def own_keys_def)
      with that show ?thesis by auto
    qed
  qed
  then show "ring_nodes (EraseNode T n s) = {m \<in> ring_nodes s. GetHash T m \<noteq> GetHash T n}"
    by (auto simp: i(2) image_iff)
  show "length (physical_nodes (EraseNode T n s)) < length (physical_nodes s)"
    using i by (auto intro: length_filter_less)
qed

lemma Select_member:
  assumes "ring_ok T s" and "physical_nodes s \<noteq> []"
  shows "\<exists>n \<in> ring_nodes s. SelectNode T client s = Inr n"
proof -
  from assms(2) obtain i m where "(i, m) \<in> set (physical_nodes s)" by (metis list.set_intros(1) neq_Nil_conv prod.exhaust)
  with assms(1) have "ring s \<noteq> []" by (auto simp: ring_ok_def own_keys_def)
  then obtain k j where succ: "ring_successor (GetHash T client) (ring s) = Some (k, j)"
    by (metis successor_None not_Some_eq prod.exhaust)
  with assms(1) obtain n where "map_of (physical_nodes s) j = Some n"
    using successor_member router_point_node ring_ok_def by metis
  with succ assms show ?thesis
    by (force simp: SelectNode_def router_Empty_def dest: map_of_SomeD)
qed

subsection \<open>Consistency\<close>

definition sample_traits :: "(nat, nat) HashTraits" where
  "sample_traits = \<lparr>GetHash = (\<lambda>n. n * 10 mod 97), Replicate = (\<lambda>n r. Inr (map (\<lambda>i. (n * 31 + i * 17 + 5) mod 97) [0..<r]))\<rparr>"

definition sample_ring :: "(nat, nat) router" where
  "sample_ring = run_ring sample_traits [EmplaceOp 1, EmplaceOp 2, EmplaceOp 3] (router_new 3)"

lemma sample_ring_eq:
  "sample_ring = \<lparr>ring = [(1, 2), (10, 0), (18, 2), (20, 1), (30, 2), (36, 0), (53, 0), (67, 1), (84, 1)],
     physical_nodes = [(0, 1), (1, 2), (2, 3)], next_it = 3, replicas = 3\<rparr>"
  by (simp add: sample_ring_def sample_traits_def router_new_def EmplaceNode_def SpawnReplicas_def
      size_t_pred_def upt_rec Let_def)

lemma sample_ring_inv: "router_inv sample_ring"
  unfolding sample_ring_def by (rule router_inv_run [OF router_inv_new])

text \<open>C12. Removal is consistent: erasing a node moves only the clients that node served. A client
  whose point on the ring belongs to another node is served by the same node before and after,
  on every ring that insertions and removals can build.\<close>

theorem erase_keeps_other_clients:
  assumes "s = run_ring T ops (router_new r)"
    and "map_of (ring s) (GetHash T node) = Some it"
    and "ring_successor (GetHash T client) (ring s) = Some (k, v)" and "v \<noteq> it"
  shows "SelectNode T client (EraseNode T node s) = SelectNode T client s"
proof -
  have inv: "router_inv s" using assms(1) router_inv_run [OF router_inv_new] by simp
  have "map_of (filter (\<lambda>(i, n). i \<noteq> it) xs) v = map_of xs v" for xs :: "(nat \<times> 'a) list"
    using assms(4) by (induction xs) auto
  moreover have "ring_successor (GetHash T client) (EraseReplicasOf it (ring s)) = Some (k, v)"
    using assms(3,4) by (rule successor_erase)
  moreover obtain n where n: "map_of (physical_nodes s) v = Some n"
    using inv successor_member [OF assms(3)] by (rule router_point_node)
  moreover from n have "physical_nodes s \<noteq> []" "filter (\<lambda>(i, n). i \<noteq> it) (physical_nodes s) \<noteq> []"
    using assms(4) by (auto simp: filter_empty_conv dest!: map_of_SomeD)
  ultimately show ?thesis
    using assms(2,3) by (auto simp: SelectNode_def EraseNode_def router_Empty_def)
qed

theorem erase_keeps_other_clients_witness:
  "SelectNode sample_traits 7 (EraseNode sample_traits 1 sample_ring) = SelectNode sample_traits 7 sample_ring"
  by (rule erase_keeps_other_clients [where it = 0 and k = 84 and v = 1,
        OF sample_ring_def])
     (simp_all add: sample_ring_eq sample_traits_def ring_successor_def)

text \<open>C31. Insertion is consistent: after a node was added, with or without an exception from
  \<^verbatim>\<open>Replicate\<close>, a client is served by the node that served it before or by the new one; no
  client moves between old nodes.\<close>

theorem emplace_moves_only_to_new:
  assumes "router_inv s"
  shows "SelectNode T client (snd (EmplaceNode T node s)) \<in> {SelectNode T client s, Inr node}"
proof -
  let ?h = "GetHash T client" and ?s = "snd (EmplaceNode T node s)" and ?it = "next_it s"
  have inv: "router_inv ?s" using assms by (rule router_inv_Emplace)
  have new: "map_of (physical_nodes ?s) ?it = Some node"
    using inv by (simp add: physical_lookup) (simp add: Emplace_eq)
  have Empty: "\<not> router_Empty ?s" by (simp add: router_Empty_def Emplace_eq)
  consider k where "ring_successor ?h (ring ?s) = Some (k, ?it)"
    | "ring_successor ?h (ring ?s) = ring_successor ?h (ring s)"
    using successor_fold_put [of ?h ?it "points T (replicas s) node" "ring s"]
    by (auto simp: Emplace_eq simp del: fold_simps)
  then show ?thesis
  proof cases
    case 1
    with new Empty show ?thesis by (simp add: SelectNode_def)
  next
    case 2
    have "ring ?s \<noteq> []"
      by (simp add: Emplace_eq points_def) (metis map_of_fold_put map_of_ring_put fun_upd_same map_of.simps(1) option.distinct(1))
    with 2 obtain k v where succ: "ring_successor ?h (ring s) = Some (k, v)"
      by (metis successor_None not_Some_eq prod.exhaust)
    then obtain n where n: "map_of (physical_nodes s) v = Some n"
      using assms successor_member router_point_node by metis
    then have "map_of (physical_nodes ?s) v = Some n" by (simp add: Emplace_eq map_of_append)
    with 2 succ n Empty show ?thesis by (auto simp: SelectNode_def router_Empty_def)
  qed
qed

theorem emplace_moves_only_to_new_witness:
  "SelectNode sample_traits 4 (snd (EmplaceNode sample_traits 5 sample_ring)) \<in> {Inr 1, Inr 5}"
  using emplace_moves_only_to_new [OF sample_ring_inv, of sample_traits 4 5]
  by (simp add: sample_ring_eq sample_traits_def SelectNode_def router_Empty_def ring_successor_def)

text \<open>C32. The node selected is the one at the client's clockwise successor: it owns a point of the
  ring, and no other point lies between the client's hash and that point going round.\<close>

theorem select_is_clockwise_successor:
  assumes "router_inv s" and "SelectNode T client s = Inr n"
  shows "\<exists>k i. map_of (ring s) k = Some i \<and> map_of (physical_nodes s) i = Some n \<and>
    (\<forall>x \<in> fst ` set (ring s). if GetHash T client \<le> k then \<not> (GetHash T client \<le> x \<and> x < k)
       else x < GetHash T client \<and> k \<le> x)"
proof -
  from assms(2) obtain k i where succ: "ring_successor (GetHash T client) (ring s) = Some (k, i)"
    and n: "map_of (physical_nodes s) i = Some n"
    by (auto simp: SelectNode_def split: if_splits option.splits)
  have "distinct (map fst (ring s))"
    using assms(1) strict_sorted_iff by (auto simp: router_inv_def)
  with successor_member [OF succ] have "map_of (ring s) k = Some i" by simp
  moreover have "sorted_wrt (<) (map fst (ring s))" using assms(1) by (simp add: router_inv_def)
  ultimately show ?thesis
    using n successor_clockwise [OF _ succ] by blast
qed

theorem select_is_clockwise_successor_witness:
  "\<exists>k i. map_of (ring sample_ring) k = Some i \<and> map_of (physical_nodes sample_ring) i = Some 1"
proof -
  have "SelectNode sample_traits 4 sample_ring = Inr 1"
    by (simp add: sample_ring_eq sample_traits_def SelectNode_def router_Empty_def ring_successor_def)
  from select_is_clockwise_successor [OF sample_ring_inv this] show ?thesis by blast
qed

lemma erase_all_points: "snd ` set r \<subseteq> {it} \<Longrightarrow> EraseReplicasOf it r = []"
  by (auto simp: EraseReplicasOf_eq filter_empty_conv)

lemma range_fold_put:
  assumes "sorted_wrt (<) (map fst r)"
  shows "snd ` set (fold (\<lambda>h. ring_put h it) hs r) \<subseteq> insert it (snd ` {e \<in> set r. fst e \<notin> set hs})"
proof -
  let ?r = "fold (\<lambda>h. ring_put h it) hs r"
  have "distinct (map fst ?r)" "distinct (map fst r)"
    using fold_put_laws(1) [OF assms] assms strict_sorted_iff by auto
  then have "(k, v) \<in> set ?r \<Longrightarrow> v = it \<or> (k \<notin> set hs \<and> (k, v) \<in> set r)" for k v
    using map_of_fold_put [of it hs r k] by (auto split: if_splits dest: map_of_SomeD)
  then show ?thesis by force
qed

lemma fst_fold_put: "fst ` set (fold (\<lambda>h. ring_put h it) hs r) = set hs \<union> fst ` set r"
  by (induction hs arbitrary: r) auto

text \<open>C33. A node inserted twice leaves a node without points: one removal erases every point of the
  ring but only the second of the two nodes, so the ring no longer counts as empty and the next
  selection dereferences the end iterator, whatever the hash functions are.\<close>

theorem duplicate_then_erase_is_undefined:
  "SelectNode T client (run_ring T [EmplaceOp node, EmplaceOp node, EraseOp node] (router_new r)) =
    Inl (UndefinedBehaviour ''dereference of end()'')"
proof -
  let ?ps = "points T r node"
  let ?r1 = "fold (\<lambda>h. ring_put h 0) ?ps []" and ?r2 = "fold (\<lambda>h. ring_put h 1) ?ps (fold (\<lambda>h. ring_put h 0) ?ps [])"
  have s2: "run_ring T [EmplaceOp node, EmplaceOp node] (router_new r) =
      \<lparr>ring = ?r2, physical_nodes = [(0, node), (1, node)], next_it = 2, replicas = r\<rparr>"
    by (simp add: Emplace_eq router_new_def numeral_2_eq_2 del: fold_simps)
  have "sorted_wrt (<) (map fst ?r1)" by (rule fold_put_laws(1)) simp
  then have "snd ` set ?r2 \<subseteq> insert 1 (snd ` {e \<in> set ?r1. fst e \<notin> set ?ps})"
    by (rule range_fold_put)
  moreover have "{e \<in> set ?r1. fst e \<notin> set ?ps} = {}"
    using fst_fold_put [of 0 ?ps "[]"] by (fastforce simp del: fold_simps)
  ultimately have "snd ` set ?r2 \<subseteq> {1}" by (simp only: image_empty)
  then have "EraseReplicasOf 1 ?r2 = []" by (rule erase_all_points)
  moreover have "map_of ?r2 (GetHash T node) = Some 1"
    by (simp only: map_of_fold_put) (simp add: points_def)
  ultimately have "EraseNode T node (run_ring T [EmplaceOp node, EmplaceOp node] (router_new r)) =
      \<lparr>ring = [], physical_nodes = [(0, node)], next_it = 2, replicas = r\<rparr>"
    unfolding s2 by (simp add: EraseNode_def del: fold_simps)
  then have "run_ring T [EmplaceOp node, EmplaceOp node, EraseOp node] (router_new r) =
      \<lparr>ring = [], physical_nodes = [(0, node)], next_it = 2, replicas = r\<rparr>"
    by simp
  then show ?thesis
    by (simp only:) (simp add: SelectNode_def router_Empty_def ring_successor_def)
qed

end
