(* ===== verification/Consistent_Hash.thy ===== *)
theory Consistent_Hash
  imports Selector Pumba_Router
begin

section \<open>\<^verbatim>\<open>ConsistentHashSelector\<close>\<close>

text \<open>
  The selector is a router of backends whose hash traits (\<^verbatim>\<open>BackendCHTraits\<close>) hash the
  printed backend, and replicate it by printing the replica's number after it. The replica is
  itself built as a \<^verbatim>\<open>Backend\<close> (the constructor from a string converts implicitly), so each
  replica's string has to parse as a URL. The loop counts in an \<^verbatim>\<open>int\<close> up to a
  \<^verbatim>\<open>std::size_t\<close>.
\<close>

subsection \<open>\<^verbatim>\<open>BackendCHTraits\<close>\<close>

definition ch_GetHash :: "'a env \<Rightarrow> 'a backend \<Rightarrow> 64 word" where
  "ch_GetHash E backend = std_hash E (Backend_ToString E backend)"

definition replica_hash :: "'a env \<Rightarrow> 'a backend \<Rightarrow> nat \<Rightarrow> (64 word) result" where
  "replica_hash E backend i =
     rbind (Backend_of_string E (Backend_ToString E backend @ ''#'' @ dec i)) (\<lambda>r. Inr (ch_GetHash E r))"

definition ch_Replicate :: "'a env \<Rightarrow> 'a backend \<Rightarrow> nat \<Rightarrow> (64 word) list result" where
  "ch_Replicate E backend n =
     (if 2 ^ 60 \<le> n then Inl LengthError
      else rbind (rfold (\<lambda>result i. rbind (replica_hash E backend i) (\<lambda>h. Inr (result @ [h]))) [] [0..<min n (2 ^ 31)])
        (\<lambda>result. if 2 ^ 31 \<le> n then Inl (UndefinedBehaviour ''signed overflow'') else Inr result))"

definition BackendCHTraits :: "'a env \<Rightarrow> ('a backend, 64 word) HashTraits" where
  "BackendCHTraits E = \<lparr>GetHash = ch_GetHash E, Replicate = ch_Replicate E\<rparr>"

subsection \<open>The selector\<close>

type_synonym 'a ConsistentHashSelector = "('a backend, 64 word) router"

definition ch_new :: "nat \<Rightarrow> 'a ConsistentHashSelector" where
  "ch_new spawn_replicas = router_new spawn_replicas"

definition ch_emplace ::
    "'a env \<Rightarrow> 'a ConsistentHashSelector \<Rightarrow> 'a backend \<Rightarrow> 'a ConsistentHashSelector result" where
  "ch_emplace E s b =
     (case EmplaceNode (BackendCHTraits E) b s of (Inl e, s') \<Rightarrow> Inl e | (Inr _, s') \<Rightarrow> Inr s')"

definition ch_Configure ::
    "'a env \<Rightarrow> 'n yaml \<Rightarrow> 'n \<Rightarrow> 'a ConsistentHashSelector \<Rightarrow> 'a ConsistentHashSelector result" where
  "ch_Configure E Y balancing_node s =
     rbind (endpoints_of Y ''Consistent hash endpoints node is missed'' balancing_node)
       (configure_with E Y (ch_emplace E) s)"

definition ch_SelectBackend ::
    "'a env \<Rightarrow> 'a ConsistentHashSelector \<Rightarrow> 'a endpoint \<Rightarrow> 'a backend result \<times> 'a ConsistentHashSelector" where
  "ch_SelectBackend E s client = (SelectNode (BackendCHTraits E) (Backend_of_endpoint client) s, s)"

definition ch_ExcludeBackend ::
    "'a env \<Rightarrow> 'a ConsistentHashSelector \<Rightarrow> 'a backend \<Rightarrow> unit result \<times> 'a ConsistentHashSelector" where
  "ch_ExcludeBackend E s backend =
     (let s' = EraseNode (BackendCHTraits E) backend s
      in (if router_Empty s' then Inl all_excluded else Inr (), s'))"

definition ch_Type :: SelectorType where
  "ch_Type = CONSISTENT_HASH"

subsection \<open>The contract\<close>

abbreviation ch_entries :: "'a ConsistentHashSelector \<Rightarrow> nat" where
  "ch_entries s \<equiv> PhysicalNodes s"

lemma GetHash_eq: "backend_eq x b \<Longrightarrow> GetHash (BackendCHTraits E) x = GetHash (BackendCHTraits E) b"
  by (simp add: BackendCHTraits_def ch_GetHash_def backend_eq_ToString)

lemmas ch_defs = ch_SelectBackend_def ch_ExcludeBackend_def Let_def PhysicalNodes_def router_Empty_def

lemma ch_select_member:
  "ring_ok (BackendCHTraits E) s \<Longrightarrow> ring_nodes s \<noteq> {} \<Longrightarrow>
    \<exists>b \<in> ring_nodes s. fst (ch_SelectBackend E s c) = Inr b"
  using Select_member by (fastforce simp: ch_defs)

text \<open>
  While every node owns the point at its own hash, the selector keeps the contract. Two nodes
  with one hash cannot both own it, so excluding one leaves the other only if it is not hashed
  alike, which is more than being different.
\<close>

interpretation ch: excluding_selector "ch_SelectBackend E" "ch_ExcludeBackend E" ring_nodes ch_entries
  "\<lambda>s. ring_ok (BackendCHTraits E) s"
proof unfold_locales
  fix s :: "'a ConsistentHashSelector" and b x :: "'a backend"
  assume s: "ring_ok (BackendCHTraits E) s" and b: "b \<in> ring_nodes s"
  note nodes = Erase_nodes(1) [OF s b]
  show "x \<in> ring_nodes (snd (ch_ExcludeBackend E s b)) \<Longrightarrow> \<not> backend_eq x b"
    by (auto simp: ch_defs nodes GetHash_eq simp del: set_filter)
  show "x \<in> ring_nodes (snd (ch_ExcludeBackend E s b))" if x: "x \<in> ring_nodes s" and ne: "\<not> backend_eq x b"
  proof -
    from x obtain i where i: "(i, x) \<in> set (physical_nodes s)" by auto
    from b obtain j where j: "(j, b) \<in> set (physical_nodes s)" by auto
    have "GetHash (BackendCHTraits E) x \<noteq> GetHash (BackendCHTraits E) b"
    proof
      assume "GetHash (BackendCHTraits E) x = GetHash (BackendCHTraits E) b"
      with own_keysD [OF s i] own_keysD [OF s j] have "i = j" by simp
      with i j s have "x = b" by (metis option.inject physical_lookup ring_ok_def)
      with ne show False by simp
    qed
    with x show ?thesis by (simp add: ch_defs nodes)
  qed
  show "ch_entries (snd (ch_ExcludeBackend E s b)) < ch_entries s"
    using Erase_nodes(2) [OF s b] by (simp add: ch_defs)
  show "ring_ok (BackendCHTraits E) (snd (ch_ExcludeBackend E s b))"
    using ring_ok_Erase [OF s b] by (simp add: ch_defs)
  show "ring_nodes (snd (ch_ExcludeBackend E s b)) \<subseteq> ring_nodes s"
    by (simp add: ch_defs nodes)
qed (use ch_select_member in \<open>auto simp: ch_defs\<close>)

text \<open>
  A backend excluded before has no point of its own hash on the ring any more, and excluding it
  again does nothing.
\<close>

abbreviation ring_known :: "'a env \<Rightarrow> 'a ConsistentHashSelector \<Rightarrow> 'a backend \<Rightarrow> bool" where
  "ring_known E s b \<equiv> b \<in> ring_nodes s \<or> map_of (ring s) (ch_GetHash E b) = None"

lemma ch_exclude_known:
  assumes s: "ring_ok (BackendCHTraits E) s" and x: "ring_known E s x"
  shows "ring_known E (snd (ch_ExcludeBackend E s b)) x"
proof (cases "map_of (ring s) (ch_GetHash E b)")
  case None
  with x show ?thesis by (simp add: ch_defs EraseNode_def BackendCHTraits_def)
next
  case (Some it)
  let ?t = "snd (ch_ExcludeBackend E s b)"
  have t: "ring ?t = filter (\<lambda>(k, v). v \<noteq> it) (ring s)" "physical_nodes ?t = filter (\<lambda>(i, n). i \<noteq> it) (physical_nodes s)"
    using Some by (simp_all add: ch_defs EraseNode_def BackendCHTraits_def EraseReplicasOf_eq)
  have gone: "map_of (ring ?t) k = None" if "map_of (ring s) k = None \<or> map_of (ring s) k = Some it" for k
    using that s unfolding t by (intro map_of_filter_gone) (auto simp: ring_ok_def router_inv_distinct)
  show ?thesis
  proof (cases "x \<in> ring_nodes s")
    case True
    then obtain i where i: "(i, x) \<in> set (physical_nodes s)" by auto
    from own_keysD [OF s this] have "map_of (ring s) (ch_GetHash E x) = Some i" by (simp add: BackendCHTraits_def)
    with gone i show ?thesis by (cases "i = it") (force simp: t)+
  next
    case False
    with x have "map_of (ring s) (ch_GetHash E x) = None" by blast
    with gone show ?thesis by simp
  qed
qed

interpretation ch: shared_selector "ch_SelectBackend E" "ch_ExcludeBackend E" ring_nodes ch_entries
  "\<lambda>s. ring_ok (BackendCHTraits E) s" "ring_known E"
proof (unfold_locales, goal_cases)
  case (3 s b x)
  then show ?case by (intro ch_exclude_known)
next
  case (4 s b)
  then show ?case
    using ch.exclude_inv [of E s b] by (auto simp: ch_defs EraseNode_def BackendCHTraits_def)
next
  case (5 s b)
  then show ?case
    using ch.exclude_subset [of E s b] by (auto simp: ch_defs EraseNode_def BackendCHTraits_def)
next
  case (6 s b)
  then show ?case
    using ch.exclude_result [of E s b] by (auto simp: ch_defs EraseNode_def BackendCHTraits_def)
next
  case (7 s b x)
  then show ?case
    using ch.exclude_keeps [of E s b x] by (auto simp: ch_defs EraseNode_def BackendCHTraits_def)
qed (auto simp: ch_defs)

lemma ch_known_gone:
  assumes s: "ring_ok (BackendCHTraits E) s" and b: "ring_known E s b" and x: "x \<in> ring_nodes (snd (ch_ExcludeBackend E s b))"
  shows "\<not> backend_eq x b"
proof (cases "b \<in> ring_nodes s")
  case True
  from ch.exclude_gone [OF s True x] show ?thesis .
next
  case False
  with b have none: "map_of (ring s) (ch_GetHash E b) = None" by blast
  with x have "x \<in> ring_nodes s" by (simp add: ch_defs EraseNode_def BackendCHTraits_def)
  then obtain i where "(i, x) \<in> set (physical_nodes s)" by auto
  from own_keysD [OF s this] none GetHash_eq [of x b E] show ?thesis by (auto simp: BackendCHTraits_def)
qed

subsection \<open>Configuration\<close>

text \<open>
  No backend of the list loses the point at its own hash to a point of a later one. With a
  64-bit hash this fails when the list has a backend twice, and otherwise only by a collision.
\<close>

fun keys_kept :: "'a env \<Rightarrow> nat \<Rightarrow> 'a backend list \<Rightarrow> bool" where
  "keys_kept E r [] = True"
| "keys_kept E r (b # bs) =
     (list_all (\<lambda>c. ch_GetHash E b \<notin> set (points (BackendCHTraits E) r c)) bs \<and> keys_kept E r bs)"

lemma ch_emplace_snd: "ch_emplace E s b = Inr t \<Longrightarrow> t = snd (EmplaceNode (BackendCHTraits E) b s)"
  by (auto simp: ch_emplace_def split: prod.splits sum.splits)

lemma ch_emplace_nodes:
  "ch_emplace E s b = Inr t \<Longrightarrow> map snd (physical_nodes t) = map snd (physical_nodes s) @ [b] \<and> replicas t = replicas s"
  by (auto dest!: ch_emplace_snd simp: Emplace_eq)

lemma ch_emplace_all_nodes:
  "rfold (ch_emplace E) s bs = Inr t \<Longrightarrow> map snd (physical_nodes t) = map snd (physical_nodes s) @ bs"
proof (induction bs arbitrary: s)
  case (Cons b bs)
  then show ?case using ch_emplace_nodes by fastforce
qed simp

lemma ch_emplace_all_ok:
  assumes "rfold (ch_emplace E) s bs = Inr t" and "ring_ok (BackendCHTraits E) s" and "keys_kept E (replicas s) bs"
    and "\<forall>b \<in> ring_nodes s. \<forall>c \<in> set bs. ch_GetHash E b \<notin> set (points (BackendCHTraits E) (replicas s) c)"
  shows "ring_ok (BackendCHTraits E) t"
  using assms
proof (induction bs arbitrary: s)
  case (Cons b bs)
  from Cons.prems(1) obtain s' where s': "ch_emplace E s b = Inr s'" "rfold (ch_emplace E) s' bs = Inr t"
    by auto
  have "GetHash (BackendCHTraits E) = ch_GetHash E" by (simp add: BackendCHTraits_def)
  with Cons.prems s'(1) have "ring_ok (BackendCHTraits E) s'"
    by (auto dest!: ch_emplace_snd intro!: ring_ok_Emplace)
  moreover have "ring_nodes s' = insert b (ring_nodes s)" "replicas s' = replicas s"
    using ch_emplace_nodes [OF s'(1)] by (metis list.set_map set_append list.simps(15) empty_set Un_insert_right sup_bot_right, simp)
  ultimately show ?case
    using Cons.prems s'(2) by (intro Cons.IH [of s']) (auto simp: list_all_iff)
qed simp

lemma ch_Configure_nodes:
  assumes "ch_Configure E Y node (ch_new r) = Inr t"
  obtains eps bs where "endpoints_of Y ''Consistent hash endpoints node is missed'' node = Inr eps"
    and "denotes E Y eps bs" and "map snd (physical_nodes t) = bs"
    and "keys_kept E r bs \<Longrightarrow> ring_ok (BackendCHTraits E) t"
proof -
  from assms obtain eps bs where *: "endpoints_of Y ''Consistent hash endpoints node is missed'' node = Inr eps"
    "denotes E Y eps bs" "rfold (ch_emplace E) (ch_new r) bs = Inr t"
    by (auto simp: ch_Configure_def configure_with_denotes)
  have new: "physical_nodes (ch_new r) = []" "replicas (ch_new r) = r" for r
    by (simp_all add: ch_new_def router_new_def)
  show ?thesis
  proof (rule that [OF *(1,2)])
    show "map snd (physical_nodes t) = bs"
      using ch_emplace_all_nodes [OF *(3)] by (simp add: new)
    show "ring_ok (BackendCHTraits E) t" if "keys_kept E r bs"
      using that by (intro ch_emplace_all_ok [OF *(3)]) (simp_all add: new, simp add: ch_new_def ring_ok_new)
  qed
qed

lemma ch_Configure_ok:
  assumes "ch_Configure E Y node (ch_new r) = Inr s" and "keys_kept E r (map snd (physical_nodes s))"
  shows "ring_ok (BackendCHTraits E) s"
  by (rule ch_Configure_nodes [OF assms(1)]) (use assms(2) in simp)

text \<open>Failover reaches a healthy backend. For a selector configured without a collision of
  keys, if some configured backend accepts connections then excluding each refusing selection and
  asking again returns an accepting backend after at most as many attempts as there are entries.\<close>

theorem ch_failover_reaches_accepting:
  assumes "ch_Configure E Y node (ch_new r) = Inr s" and "keys_kept E r (map snd (physical_nodes s))"
    and "a \<in> ring_nodes s" and "\<And>x. backend_eq x a \<Longrightarrow> \<not> refuses x"
  shows "\<exists>b t. failover (ch_SelectBackend E) (ch_ExcludeBackend E) (ch_entries s) refuses s c = (Some (Inr b), t) \<and>
    b \<in> ring_nodes s \<and> \<not> refuses b"
proof -
  from assms(1,2) have "ring_ok (BackendCHTraits E) s" by (rule ch_Configure_ok)
  from ch.failover_accepting [OF this assms(3), of refuses "ch_entries s" c] assms(4) show ?thesis by blast
qed

definition sample_endpoints :: "ynode list \<Rightarrow> ynode" where
  "sample_endpoints eps = YMap [(''endpoints'', YSeq eps)]"

lemma endpoints_of_sample [simp]:
  "endpoints_of sample_yaml missed (sample_endpoints eps) = Inr eps"
  by (simp add: endpoints_of_def sample_endpoints_def sample_yaml_simps)

definition sample_ch_node :: ynode where
  "sample_ch_node = sample_endpoints [sample_ip_entry ''127.0.0.1'' ''8080'', sample_ip_entry ''127.0.0.1'' ''8081'']"

abbreviation sample_b1 :: "sample_addr backend" where
  "sample_b1 \<equiv> EndpointB (sample_ep ''127.0.0.1'' 8080)"

abbreviation sample_b2 :: "sample_addr backend" where
  "sample_b2 \<equiv> EndpointB (sample_ep ''127.0.0.1'' 8081)"

lemma sample_ch_denotes:
  "read_endpoint sample_env sample_yaml (sample_ip_entry ''127.0.0.1'' ''8080'') = Inr sample_b1"
  "read_endpoint sample_env sample_yaml (sample_ip_entry ''127.0.0.1'' ''8081'') = Inr sample_b2"
  using read_sample_ip_entry [of "''127.0.0.1''" "''8080''" 8080] read_sample_ip_entry [of "''127.0.0.1''" "''8081''" 8081]
  by (simp_all add: sample_yaml_simps)

lemma sample_replicate_none [simp]: "Replicate (BackendCHTraits E) b 0 = Inr []"
  by (simp add: BackendCHTraits_def ch_Replicate_def)

definition sample_ch :: "sample_addr ConsistentHashSelector" where
  "sample_ch = snd (EmplaceNode (BackendCHTraits sample_env) sample_b2
     (snd (EmplaceNode (BackendCHTraits sample_env) sample_b1 (ch_new 1))))"

lemma emplace_one_replica:
  "replicas s = Suc 0 \<Longrightarrow> ch_emplace E s b = Inr (snd (EmplaceNode (BackendCHTraits E) b s))"
  by (simp add: ch_emplace_def EmplaceNode_def SpawnReplicas_def size_t_pred_def Let_def)

lemma sample_ch_Configure: "ch_Configure sample_env sample_yaml sample_ch_node (ch_new 1) = Inr sample_ch"
proof -
  have "replicas (ch_new 1 :: sample_addr ConsistentHashSelector) = 1" "replicas (snd (EmplaceNode (BackendCHTraits sample_env) sample_b1 (ch_new 1))) = 1"
    by (simp_all add: ch_new_def router_new_def Emplace_eq)
  then show ?thesis
    by (simp add: ch_Configure_def sample_ch_node_def configure_with_def sample_ch_denotes emplace_one_replica sample_ch_def)
qed

lemma sample_ch_nodes: "map snd (physical_nodes sample_ch) = [sample_b1, sample_b2]"
  by (simp add: sample_ch_def Emplace_eq ch_new_def router_new_def)

lemma sample_keys_kept: "keys_kept sample_env 1 [sample_b1, sample_b2]"
  by (simp add: points_def size_t_pred_def)
    (simp add: BackendCHTraits_def ch_GetHash_def endpoint_string_def sample_ep_def sample_hash_def dec.simps)

theorem ch_failover_reaches_accepting_witness:
  "\<exists>b t. failover (ch_SelectBackend sample_env) (ch_ExcludeBackend sample_env) (ch_entries sample_ch)
      (\<lambda>b. \<not> backend_eq b sample_b2) sample_ch (sample_ep ''::1'' 5000) = (Some (Inr b), t) \<and>
    b \<in> ring_nodes sample_ch \<and> \<not> \<not> backend_eq b sample_b2"
proof (rule ch_failover_reaches_accepting [OF sample_ch_Configure, where a = sample_b2])
  show "keys_kept sample_env 1 (map snd (physical_nodes sample_ch))"
    unfolding sample_ch_nodes by (rule sample_keys_kept)
  have "set (map snd (physical_nodes sample_ch)) = {sample_b1, sample_b2}"
    unfolding sample_ch_nodes by simp
  then show "sample_b2 \<in> ring_nodes sample_ch" by simp
qed simp

text \<open>C34. Excluding a backend of a selector configured without a collision of keys removes exactly
  that backend: the others stay selectable, and no later sequence of selections and exclusions of
  pool members returns it.\<close>

theorem ch_exclude_exact:
  assumes "ch_Configure E Y node (ch_new r) = Inr s" and "keys_kept E r (map snd (physical_nodes s))"
    and "b \<in> ring_nodes s"
  shows "ring_nodes (snd (ch_ExcludeBackend E s b)) = {x \<in> ring_nodes s. \<not> backend_eq x b} \<and>
    fst (ch_ExcludeBackend E s b) = (if \<forall>x \<in> ring_nodes s. backend_eq x b then Inl all_excluded else Inr ())"
proof -
  from assms(1,2) have ok: "ring_ok (BackendCHTraits E) s" by (rule ch_Configure_ok)
  have pool: "ring_nodes (snd (ch_ExcludeBackend E s b)) = {x \<in> ring_nodes s. \<not> backend_eq x b}"
    by (rule ch.exclude_pool [OF ok assms(3)])
  with ch.exclude_result [OF ok assms(3)] show ?thesis by auto
qed

theorem ch_exclude_exact_witness:
  "ring_nodes (snd (ch_ExcludeBackend sample_env sample_ch sample_b1)) = {sample_b2}"
proof -
  have pool: "ring_nodes sample_ch = {sample_b1, sample_b2}"
    unfolding set_map [symmetric] sample_ch_nodes by simp
  have "ring_nodes (snd (ch_ExcludeBackend sample_env sample_ch sample_b1)) = {x \<in> ring_nodes sample_ch. \<not> backend_eq x sample_b1}"
    using sample_ch_Configure
    by (rule ch_exclude_exact [THEN conjunct1]) (unfold sample_ch_nodes, rule sample_keys_kept, simp add: pool)
  then show ?thesis unfolding pool by (auto simp: sample_ep_def)
qed

subsection \<open>Replicas of IP backends\<close>

lemma collect_results:
  "(\<exists>ys. rfold (\<lambda>acc x. rbind (f x) (\<lambda>y. Inr (acc @ [y]))) [] xs = Inr ys) \<longleftrightarrow> (\<forall>x \<in> set xs. \<exists>y. f x = Inr y)"
proof -
  have "(\<exists>ys. list_all2 (\<lambda>x z. f x = Inr z) xs ys) \<longleftrightarrow> (\<forall>x \<in> set xs. \<exists>y. f x = Inr y)"
    by (induction xs) (auto simp: list_all2_Cons1)
  then show ?thesis by (simp add: rfold_collect)
qed

lemma addr_char_class: "addr_char c \<Longrightarrow> \<not> whitespace c \<and> c \<noteq> CHR ''/''"
  by (auto simp: whitespace_def)

lemma ip_key_chars:
  assumes "addr_print_chars E" and "c \<in> set (endpoint_string E ep @ ''#'' @ dec i)"
  shows "\<not> whitespace c \<and> c \<noteq> CHR ''/''"
proof -
  have dec: "\<not> whitespace x \<and> x \<noteq> CHR ''/''" if "x \<in> set (dec k)" for x k
    using digit_class digit_not_special dec_digits [OF that] by blast
  from assms(2) consider "c \<in> set (addr_to_string E (ep_addr ep))" | k where "c \<in> set (dec k)" | "c = CHR '':'' \<or> c = CHR ''#''"
    unfolding endpoint_string_def by auto
  then show ?thesis
  proof cases
    case 1
    then have "addr_char c" using assms(1) unfolding addr_print_chars_def list_all_iff by blast
    then show ?thesis by (rule addr_char_class)
  next
    case 2
    then show ?thesis by (rule dec)
  qed auto
qed

lemma replica_hash_ip:
  assumes "pcre_env E" and "addr_print_chars E"
  shows "(\<exists>h. replica_hash E (EndpointB ep) i = Inr h) \<longleftrightarrow> hd (addr_to_string E (ep_addr ep)) \<noteq> CHR '':''"
proof -
  let ?s = "endpoint_string E ep @ ''#'' @ dec i" and ?a = "addr_to_string E (ep_addr ep)"
  have a: "?a \<noteq> []" using assms(2) by (simp add: addr_print_chars_def)
  then have "hd ?a \<in> set ?s" by (simp add: endpoint_string_def)
  then have "hd ?a \<noteq> CHR ''/''" using ip_key_chars [OF assms(2)] by blast
  note a = a this
  from a have hd: "hd ?s = hd ?a" "?s \<noteq> []" by (auto simp: endpoint_string_def)
  have "url_syntax ?s \<longleftrightarrow> hd ?a \<noteq> CHR '':''"
    using ip_key_chars [OF assms(2), of _ ep i] hd a unfolding url_syntax_def by metis
  moreover have "(\<exists>h. replica_hash E (EndpointB ep) i = Inr h) \<longleftrightarrow> (\<exists>u. Url_ctor E ?s = Inr u)"
    by (simp add: replica_hash_def Backend_of_string_def)
  moreover have "(\<exists>u. Url_ctor E ?s = Inr u) \<longleftrightarrow> url_syntax ?s"
    using Url_ctor_no_slash [OF assms(1), of ?s] Url_ctor_invalid [OF assms(1), of ?s] ip_key_chars [OF assms(2), of _ ep i]
    by (metis Inl_Inr_False)
  ultimately show ?thesis by simp
qed

text \<open>An IP backend can be replicated exactly when its printed address does not begin with a
  colon: its replicas are URLs to the parser. So an IPv6 backend such as \<^verbatim>\<open>::1\<close> can not be
  configured for consistent hashing with two replicas or more, while every IPv4 one can.\<close>

theorem ch_Replicate_of_ip:
  assumes "pcre_env E" and "addr_print_chars E" and "0 < n" and "n < 2 ^ 31"
  shows "(\<exists>hs. ch_Replicate E (EndpointB ep) n = Inr hs) \<longleftrightarrow> hd (addr_to_string E (ep_addr ep)) \<noteq> CHR '':''"
proof -
  have "(\<exists>hs. ch_Replicate E (EndpointB ep) n = Inr hs) \<longleftrightarrow>
      (\<forall>i \<in> set [0..<n]. \<exists>h. replica_hash E (EndpointB ep) i = Inr h)"
    using assms(4) by (simp add: ch_Replicate_def collect_results del: set_upt)
  with assms(3) show ?thesis by (simp add: replica_hash_ip [OF assms(1,2)]) blast
qed

theorem ch_Replicate_of_ip_witness:
  "(\<exists>hs. ch_Replicate sample_env sample_b1 100 = Inr hs) \<and>
   (\<nexists>hs. ch_Replicate sample_env (EndpointB (sample_ep ''::1'' 8080)) 1 = Inr hs)"
  using ch_Replicate_of_ip [of sample_env 100 "sample_ep ''127.0.0.1'' 8080"]
    ch_Replicate_of_ip [of sample_env 1 "sample_ep ''::1'' 8080"]
  by (simp add: sample_ep_def)

end
