(* ===== verification/Heap_Contract.thy ===== *)
theory Heap_Contract
  imports LB_Prelude
begin

section \<open>The mutable priority queue of Boost.Heap\<close>

text \<open>
  \<^verbatim>\<open>boost::heap::pairing_heap\<close> is not part of the repository. Its operations are the fields
  of a record, over an unknown type of heaps \<^verbatim>\<open>'h\<close> and of handles \<^verbatim>\<open>'k\<close>; writing
  through a handle (\<^verbatim>\<open>(*handle).x = ...\<close>) is an operation of its own, since the
  documentation asks for \<^verbatim>\<open>increase\<close> or \<^verbatim>\<open>decrease\<close> after it.

  \<^verbatim>\<open>heap_laws\<close> is what the documentation promises, over a view of the heap: the elements by
  handle, and whether the heap is in order. \<^verbatim>\<open>top\<close> is a maximal element of the comparison.
  \<^verbatim>\<open>increase\<close> and \<^verbatim>\<open>decrease\<close> restore the order under their documented precondition
  only: the new value must not be smaller, respectively not be greater, than the old one.
\<close>

record ('h, 'k, 'v) heap_ops =
  h_new :: 'h
  h_push :: "'v \<Rightarrow> 'h \<Rightarrow> 'k \<times> 'h"
  h_top :: "'h \<Rightarrow> 'v"
  h_value :: "'h \<Rightarrow> 'k \<Rightarrow> 'v"
  h_write :: "'k \<Rightarrow> 'v \<Rightarrow> 'h \<Rightarrow> 'h"
  h_increase :: "'k \<Rightarrow> 'h \<Rightarrow> 'h"
  h_decrease :: "'k \<Rightarrow> 'h \<Rightarrow> 'h"
  h_erase :: "'k \<Rightarrow> 'h \<Rightarrow> 'h"
  h_empty :: "'h \<Rightarrow> bool"

record ('h, 'k, 'v) heap_view =
  elems :: "'h \<Rightarrow> 'k \<Rightarrow> 'v option"
  in_order :: "'h \<Rightarrow> bool"

definition heap_laws ::
    "('v \<Rightarrow> 'v \<Rightarrow> bool) \<Rightarrow> ('h, 'k, 'v) heap_ops \<Rightarrow> ('h, 'k, 'v) heap_view \<Rightarrow> bool" where
  "heap_laws cmp H G \<longleftrightarrow>
     in_order G (h_new H) \<and> elems G (h_new H) = Map.empty \<and>
     (\<forall>h. in_order G h \<longrightarrow> finite (dom (elems G h))) \<and>
     (\<forall>h. in_order G h \<longrightarrow> (h_empty H h \<longleftrightarrow> elems G h = Map.empty)) \<and>
     (\<forall>h v k h'. in_order G h \<and> h_push H v h = (k, h') \<longrightarrow>
        elems G h k = None \<and> in_order G h' \<and> elems G h' = (elems G h)(k \<mapsto> v)) \<and>
     (\<forall>h. in_order G h \<and> elems G h \<noteq> Map.empty \<longrightarrow>
        h_top H h \<in> ran (elems G h) \<and> (\<forall>v \<in> ran (elems G h). \<not> cmp (h_top H h) v)) \<and>
     (\<forall>h k v. elems G h k = Some v \<longrightarrow> h_value H h k = v) \<and>
     (\<forall>h k v v'. in_order G h \<and> elems G h k = Some v \<and> \<not> cmp v' v \<longrightarrow>
        in_order G (h_increase H k (h_write H k v' h)) \<and>
        elems G (h_increase H k (h_write H k v' h)) = (elems G h)(k \<mapsto> v')) \<and>
     (\<forall>h k v v'. in_order G h \<and> elems G h k = Some v \<and> \<not> cmp v v' \<longrightarrow>
        in_order G (h_decrease H k (h_write H k v' h)) \<and>
        elems G (h_decrease H k (h_write H k v' h)) = (elems G h)(k \<mapsto> v')) \<and>
     (\<forall>h k. in_order G h \<and> elems G h k \<noteq> None \<longrightarrow>
        in_order G (h_erase H k h) \<and> elems G (h_erase H k h) = (elems G h)(k := None))"

text \<open>
  Nothing is known of a heap after a call outside these preconditions. To tell whether code makes
  such calls, it is run on a heap that watches them: \<^verbatim>\<open>audited\<close> does what the heap does, keeps
  the element written last with its value before and after until it is followed by
  \<^verbatim>\<open>increase\<close> or \<^verbatim>\<open>decrease\<close>, and records whether every precondition was met.
\<close>

type_synonym ('h, 'k, 'v) audit_heap = "'h \<times> ('k \<times> 'v \<times> 'v) option \<times> bool"

definition audited :: "('v \<Rightarrow> 'v \<Rightarrow> bool) \<Rightarrow> ('h, 'k, 'v) heap_ops \<Rightarrow> (('h, 'k, 'v) audit_heap, 'k, 'v) heap_ops" where
  "audited cmp H = \<lparr>
     h_new = (h_new H, None, True),
     h_push = (\<lambda>v (h, w, kept). (fst (h_push H v h), snd (h_push H v h), w, kept \<and> w = None)),
     h_top = (\<lambda>(h, w, kept). h_top H h),
     h_value = (\<lambda>(h, w, kept). h_value H h),
     h_write = (\<lambda>k v (h, w, kept). (h_write H k v h, Some (k, h_value H h k, v), kept \<and> w = None)),
     h_increase = (\<lambda>k (h, w, kept). (h_increase H k h, None,
       kept \<and> (case w of None \<Rightarrow> True | Some (j, v, v') \<Rightarrow> j = k \<and> \<not> cmp v' v))),
     h_decrease = (\<lambda>k (h, w, kept). (h_decrease H k h, None,
       kept \<and> (case w of None \<Rightarrow> True | Some (j, v, v') \<Rightarrow> j = k \<and> \<not> cmp v v'))),
     h_erase = (\<lambda>k (h, w, kept). (h_erase H k h, w, kept \<and> w = None)),
     h_empty = (\<lambda>(h, w, kept). h_empty H h)\<rparr>"

definition audit_start :: "'h \<Rightarrow> ('h, 'k, 'v) audit_heap" where
  "audit_start h = (h, None, True)"

definition audit_kept :: "('h, 'k, 'v) audit_heap \<Rightarrow> bool" where
  "audit_kept x = (case x of (h, w, kept) \<Rightarrow> w = None \<and> kept)"

lemmas audit_defs = audited_def audit_start_def audit_kept_def

lemma heap_new: "heap_laws cmp H G \<Longrightarrow> in_order G (h_new H)" "heap_laws cmp H G \<Longrightarrow> elems G (h_new H) = Map.empty"
  by (simp_all add: heap_laws_def)

lemma heap_finite: "heap_laws cmp H G \<Longrightarrow> in_order G h \<Longrightarrow> finite (dom (elems G h))"
  by (simp add: heap_laws_def)

lemma heap_empty: "heap_laws cmp H G \<Longrightarrow> in_order G h \<Longrightarrow> h_empty H h \<longleftrightarrow> elems G h = Map.empty"
  by (simp add: heap_laws_def)

lemma heap_push:
  "heap_laws cmp H G \<Longrightarrow> in_order G h \<Longrightarrow> h_push H v h = (k, h') \<Longrightarrow>
    elems G h k = None \<and> in_order G h' \<and> elems G h' = (elems G h)(k \<mapsto> v)"
  by (simp add: heap_laws_def)

lemma heap_top:
  assumes "heap_laws cmp H G" and "in_order G h" and "elems G h \<noteq> Map.empty"
  obtains k where "elems G h k = Some (h_top H h)" and "\<And>j v. elems G h j = Some v \<Longrightarrow> \<not> cmp (h_top H h) v"
proof -
  from assms have "h_top H h \<in> ran (elems G h) \<and> (\<forall>v \<in> ran (elems G h). \<not> cmp (h_top H h) v)"
    unfolding heap_laws_def by blast
  then show ?thesis using that by (auto simp: ran_def)
qed

lemma heap_value: "heap_laws cmp H G \<Longrightarrow> elems G h k = Some v \<Longrightarrow> h_value H h k = v"
  by (simp add: heap_laws_def)

lemma heap_increase:
  "heap_laws cmp H G \<Longrightarrow> in_order G h \<Longrightarrow> elems G h k = Some v \<Longrightarrow> \<not> cmp v' v \<Longrightarrow>
    in_order G (h_increase H k (h_write H k v' h)) \<and>
    elems G (h_increase H k (h_write H k v' h)) = (elems G h)(k \<mapsto> v')"
  by (simp add: heap_laws_def)

lemma heap_decrease:
  "heap_laws cmp H G \<Longrightarrow> in_order G h \<Longrightarrow> elems G h k = Some v \<Longrightarrow> \<not> cmp v v' \<Longrightarrow>
    in_order G (h_decrease H k (h_write H k v' h)) \<and>
    elems G (h_decrease H k (h_write H k v' h)) = (elems G h)(k \<mapsto> v')"
  by (simp add: heap_laws_def)

lemma heap_erase:
  "heap_laws cmp H G \<Longrightarrow> in_order G h \<Longrightarrow> elems G h k = Some v \<Longrightarrow>
    in_order G (h_erase H k h) \<and> elems G (h_erase H k h) = (elems G h)(k := None)"
  by (simp add: heap_laws_def)

subsection \<open>Two heaps that keep the contract\<close>

text \<open>
  The elements are a list in the order of insertion, with their handles. The first heap searches
  the list for its top. The second remembers the handle of its top, and \<^verbatim>\<open>increase\<close> and
  \<^verbatim>\<open>decrease\<close> do exactly the work their preconditions leave: increasing an element can only
  make it the new top, decreasing an element changes the top only if it was the top.
\<close>

fun best :: "('v \<Rightarrow> 'v \<Rightarrow> bool) \<Rightarrow> (nat \<times> 'v) list \<Rightarrow> (nat \<times> 'v) option" where
  "best cmp [] = None"
| "best cmp (e # es) =
     (case best cmp es of None \<Rightarrow> Some e | Some f \<Rightarrow> Some (if cmp (snd e) (snd f) then f else e))"

record 'v lheap =
  l_next :: nat
  l_elems :: "(nat \<times> 'v) list"
  l_top :: nat

definition l_value :: "'v lheap \<Rightarrow> nat \<Rightarrow> 'v" where
  "l_value h k = (case map_of (l_elems h) k of Some v \<Rightarrow> v | None \<Rightarrow> snd (hd (l_elems h)))"

definition l_push :: "'v \<Rightarrow> 'v lheap \<Rightarrow> 'v lheap" where
  "l_push v h = h\<lparr>l_elems := l_elems h @ [(l_next h, v)], l_next := Suc (l_next h)\<rparr>"

definition l_write :: "nat \<Rightarrow> 'v \<Rightarrow> 'v lheap \<Rightarrow> 'v lheap" where
  "l_write k v h = h\<lparr>l_elems := map (\<lambda>(i, w). (i, if i = k then v else w)) (l_elems h)\<rparr>"

definition l_search :: "('v \<Rightarrow> 'v \<Rightarrow> bool) \<Rightarrow> 'v lheap \<Rightarrow> 'v lheap" where
  "l_search cmp h = (case best cmp (l_elems h) of None \<Rightarrow> h | Some (k, v) \<Rightarrow> h\<lparr>l_top := k\<rparr>)"

definition l_promote :: "('v \<Rightarrow> 'v \<Rightarrow> bool) \<Rightarrow> nat \<Rightarrow> 'v lheap \<Rightarrow> 'v lheap" where
  "l_promote cmp k h = (if cmp (l_value h (l_top h)) (l_value h k) then h\<lparr>l_top := k\<rparr> else h)"

definition l_drop :: "nat \<Rightarrow> 'v lheap \<Rightarrow> 'v lheap" where
  "l_drop k h = h\<lparr>l_elems := filter (\<lambda>(i, v). i \<noteq> k) (l_elems h)\<rparr>"

definition searching_heap :: "('v \<Rightarrow> 'v \<Rightarrow> bool) \<Rightarrow> ('v lheap, nat, 'v) heap_ops" where
  "searching_heap cmp = \<lparr>
     h_new = \<lparr>l_next = 0, l_elems = [], l_top = 0\<rparr>,
     h_push = (\<lambda>v h. (l_next h, l_search cmp (l_push v h))),
     h_top = (\<lambda>h. l_value h (l_top h)),
     h_value = l_value,
     h_write = l_write,
     h_increase = (\<lambda>k h. l_search cmp h),
     h_decrease = (\<lambda>k h. l_search cmp h),
     h_erase = (\<lambda>k h. l_search cmp (l_drop k h)),
     h_empty = (\<lambda>h. l_elems h = [])\<rparr>"

definition remembering_heap :: "('v \<Rightarrow> 'v \<Rightarrow> bool) \<Rightarrow> ('v lheap, nat, 'v) heap_ops" where
  "remembering_heap cmp = (searching_heap cmp)\<lparr>
     h_increase := l_promote cmp,
     h_decrease := (\<lambda>k h. if k = l_top h then l_search cmp h else h)\<rparr>"

definition lheap_order :: "('v \<Rightarrow> 'v \<Rightarrow> bool) \<Rightarrow> 'v lheap \<Rightarrow> bool" where
  "lheap_order cmp h \<longleftrightarrow> distinct (map fst (l_elems h)) \<and> (\<forall>k \<in> fst ` set (l_elems h). k < l_next h) \<and>
     (l_elems h \<noteq> [] \<longrightarrow> l_top h \<in> fst ` set (l_elems h) \<and>
        (\<forall>v \<in> snd ` set (l_elems h). \<not> cmp (l_value h (l_top h)) v))"

definition lheap_view :: "('v \<Rightarrow> 'v \<Rightarrow> bool) \<Rightarrow> ('v lheap, nat, 'v) heap_view" where
  "lheap_view cmp = \<lparr>elems = (\<lambda>h. map_of (l_elems h)), in_order = lheap_order cmp\<rparr>"

text \<open>A comparison the heaps are used with: greater keys come last.\<close>

definition key_order :: "('v \<Rightarrow> 'c::linorder) \<Rightarrow> ('v \<Rightarrow> 'v \<Rightarrow> bool) \<Rightarrow> bool" where
  "key_order key cmp \<longleftrightarrow> (\<forall>a b. cmp a b \<longleftrightarrow> key b < key a)"

lemma best_None [simp]: "best cmp es = None \<longleftrightarrow> es = []"
  by (cases es) (auto split: option.splits)

lemma best_Some:
  assumes "key_order key cmp" and "best cmp es = Some e"
  shows "e \<in> set es \<and> (\<forall>v \<in> snd ` set es. \<not> cmp (snd e) v)"
  using assms(2)
proof (induction es arbitrary: e)
  case (Cons x es)
  show ?case
  proof (cases "best cmp es")
    case None
    with Cons.prems assms(1) show ?thesis by (auto simp: key_order_def)
  next
    case (Some f)
    with Cons have "f \<in> set es" "\<forall>v \<in> snd ` set es. \<not> cmp (snd f) v" by auto
    with Some Cons.prems assms(1) show ?thesis
      by (fastforce simp: key_order_def split: if_splits)
  qed
qed simp

definition lheap_wf :: "'v lheap \<Rightarrow> bool" where
  "lheap_wf h \<longleftrightarrow> distinct (map fst (l_elems h)) \<and> (\<forall>k \<in> fst ` set (l_elems h). k < l_next h)"

lemma lheap_order_wf: "lheap_order cmp h \<Longrightarrow> lheap_wf h"
  by (simp add: lheap_order_def lheap_wf_def)

lemma l_value_eq: "map_of (l_elems h) k = Some v \<Longrightarrow> l_value h k = v"
  by (simp add: l_value_def)

lemma l_value_cong [simp]: "l_value (h\<lparr>l_top := k\<rparr>) = l_value h"
  by (rule ext) (simp add: l_value_def split: option.split)

lemma search_elems [simp]: "l_elems (l_search cmp h) = l_elems h"
  by (simp add: l_search_def split: option.splits)

lemma search_order:
  assumes "key_order key cmp" and "lheap_wf h"
  shows "lheap_order cmp (l_search cmp h)"
proof (cases "best cmp (l_elems h)")
  case None
  with assms(2) show ?thesis by (simp add: l_search_def lheap_order_def lheap_wf_def)
next
  case (Some e)
  obtain k v where e: "e = (k, v)" by fastforce
  from best_Some [OF assms(1) Some] e have "(k, v) \<in> set (l_elems h)" "\<forall>w \<in> snd ` set (l_elems h). \<not> cmp v w"
    by auto
  moreover from this(1) assms(2) have "l_value h k = v"
    by (intro l_value_eq) (simp add: lheap_wf_def)
  ultimately show ?thesis
    using Some e assms(2) by (force simp: l_search_def lheap_order_def lheap_wf_def)
qed

lemma write_elems: "map_of (l_elems h) k = Some v \<Longrightarrow> map_of (l_elems (l_write k v' h)) = (map_of (l_elems h))(k \<mapsto> v')"
proof -
  have "map_of (map (\<lambda>(i, w). (i, if i = k then v' else w)) es) x = (if x = k \<and> map_of es k \<noteq> None then Some v' else map_of es x)"
    for es :: "(nat \<times> 'a) list" and x by (induction es) auto
  then show "map_of (l_elems h) k = Some v \<Longrightarrow> ?thesis" by (auto simp: l_write_def)
qed

lemma write_fields [simp]:
  "map fst (l_elems (l_write k v h)) = map fst (l_elems h)" "l_next (l_write k v h) = l_next h"
  "l_top (l_write k v h) = l_top h"
  by (auto simp: l_write_def)

lemma write_wf [simp]: "lheap_wf (l_write k v h) \<longleftrightarrow> lheap_wf h"
  unfolding lheap_wf_def set_map [symmetric] write_fields ..

lemma push_wf: "lheap_wf h \<Longrightarrow> lheap_wf (l_push v h) \<and> map_of (l_elems h) (l_next h) = None \<and>
    map_of (l_elems (l_push v h)) = (map_of (l_elems h))(l_next h \<mapsto> v)"
proof -
  assume wf: "lheap_wf h"
  then have "l_next h \<notin> fst ` set (l_elems h)" by (auto simp: lheap_wf_def)
  then have "map_of (l_elems h) (l_next h) = None" by (simp add: map_of_eq_None_iff)
  with wf show ?thesis
    by (auto simp: lheap_wf_def l_push_def map_of_append map_add_def split: option.splits)
qed

lemma drop_wf: "lheap_wf h \<Longrightarrow> lheap_wf (l_drop k h) \<and> map_of (l_elems (l_drop k h)) = (map_of (l_elems h))(k := None)"
proof -
  have "map_of (filter (\<lambda>(i, v). i \<noteq> k) es) x = (if x = k then None else map_of es x)" for es :: "(nat \<times> 'a) list" and x
    by (induction es) auto
  then show "lheap_wf h \<Longrightarrow> ?thesis"
    by (auto simp: lheap_wf_def l_drop_def intro: distinct_map_filter)
qed

lemmas lheap_simps = searching_heap_def remembering_heap_def lheap_view_def

lemma lheap_top_laws:
  assumes "lheap_order cmp h" and "map_of (l_elems h) \<noteq> Map.empty"
  shows "l_value h (l_top h) \<in> ran (map_of (l_elems h)) \<and>
    (\<forall>v \<in> ran (map_of (l_elems h)). \<not> cmp (l_value h (l_top h)) v)"
proof -
  from assms have "l_top h \<in> fst ` set (l_elems h)" "distinct (map fst (l_elems h))"
    "\<forall>v \<in> snd ` set (l_elems h). \<not> cmp (l_value h (l_top h)) v"
    by (auto simp: lheap_order_def)
  moreover from this(1) obtain v where v: "map_of (l_elems h) (l_top h) = Some v"
    by (metis map_of_eq_None_iff not_Some_eq)
  moreover from v have "l_value h (l_top h) = v" by (rule l_value_eq)
  ultimately show ?thesis by (auto simp: ran_distinct dest: map_of_SomeD intro: rev_image_eqI)
qed

theorem searching_heap_laws:
  assumes "key_order key cmp"
  shows "heap_laws cmp (searching_heap cmp) (lheap_view cmp)"
proof -
  note order = search_order [OF assms] and wf = lheap_order_wf [of cmp]
  show ?thesis
    unfolding heap_laws_def
  proof (intro conjI allI impI)
    fix h assume "in_order (lheap_view cmp) h \<and> elems (lheap_view cmp) h \<noteq> Map.empty"
    then show "h_top (searching_heap cmp) h \<in> ran (elems (lheap_view cmp) h)"
      and "\<forall>v \<in> ran (elems (lheap_view cmp) h). \<not> cmp (h_top (searching_heap cmp) h) v"
      using lheap_top_laws [of cmp h] by (auto simp: lheap_simps)
  next
    show "in_order (lheap_view cmp) (h_new (searching_heap cmp))"
      by (simp add: lheap_simps lheap_order_def)
  qed (auto simp: lheap_simps finite_dom_map_of write_elems order wf l_value_eq push_wf drop_wf)
qed

lemma order_iff:
  "lheap_order cmp h \<longleftrightarrow> lheap_wf h \<and> (\<forall>k v. map_of (l_elems h) k = Some v \<longrightarrow>
     (\<exists>t. map_of (l_elems h) (l_top h) = Some t \<and> \<not> cmp t v))"
proof (cases "lheap_wf h")
  case wf: True
  then have ran: "snd ` set (l_elems h) = ran (map_of (l_elems h))"
    by (simp add: lheap_wf_def ran_distinct)
  show ?thesis
  proof (cases "map_of (l_elems h) (l_top h)")
    case None
    then have "l_top h \<notin> fst ` set (l_elems h)" by (simp add: map_of_eq_None_iff)
    moreover have "l_elems h = [] \<longleftrightarrow> (\<forall>k v. map_of (l_elems h) k \<noteq> Some v)"
      by (cases "l_elems h") (auto split: if_splits)
    ultimately show ?thesis using wf None by (auto simp: lheap_order_def lheap_wf_def)
  next
    case (Some t)
    then have "l_top h \<in> fst ` set (l_elems h)" "l_elems h \<noteq> []"
      by (force dest: map_of_SomeD)+
    with wf Some show ?thesis
      by (simp add: lheap_order_def lheap_wf_def ran l_value_eq del: map_of_eq_Some_iff) (auto simp: ran_def)
  qed
qed (auto simp: lheap_order_def lheap_wf_def)

lemma top_wf [simp]: "lheap_wf (h\<lparr>l_top := k\<rparr>) \<longleftrightarrow> lheap_wf h"
  by (simp add: lheap_wf_def)

lemma remembering_increase:
  assumes "key_order key cmp" and "lheap_order cmp h" and "map_of (l_elems h) k = Some v" and "\<not> cmp v' v"
  shows "lheap_order cmp (l_promote cmp k (l_write k v' h))"
proof -
  let ?h = "l_write k v' h"
  obtain t where t: "map_of (l_elems h) (l_top h) = Some t" using assms(2,3) order_iff by metis
  have el: "map_of (l_elems ?h) = (map_of (l_elems h))(k \<mapsto> v')" by (rule write_elems [OF assms(3)])
  have min: "\<not> cmp t w" if "map_of (l_elems h) j = Some w" for j w
    using that assms(2) t order_iff by (metis option.inject)
  have "l_value ?h k = v'" "l_value ?h (l_top ?h) = (if k = l_top h then v' else t)"
    using t by (auto simp: l_value_def el)
  moreover have "lheap_wf ?h" using assms(2) lheap_order_wf by auto
  moreover have "\<not> cmp v' w" if "cmp t v' \<or> k = l_top h" "map_of (l_elems h) j = Some w" for j w
    using that min assms(1,3,4) t unfolding key_order_def by (metis less_le_not_le linorder_le_less_linear option.inject order.trans)
  ultimately show ?thesis
    using t min assms(1) by (auto simp: order_iff l_promote_def el key_order_def split: if_splits)
qed

lemma remembering_decrease:
  assumes "key_order key cmp" and "lheap_order cmp h" and "map_of (l_elems h) k = Some v" and "\<not> cmp v v'" and "k \<noteq> l_top h"
  shows "lheap_order cmp (l_write k v' h)"
proof -
  obtain t where t: "map_of (l_elems h) (l_top h) = Some t" using assms(2,3) order_iff by metis
  have min: "\<not> cmp t w" if "map_of (l_elems h) j = Some w" for j w
    using that assms(2) t order_iff by (metis option.inject)
  have "\<not> cmp t v'"
    using min [OF assms(3)] assms(1,4) unfolding key_order_def by (metis less_le_not_le linorder_le_less_linear order.trans)
  with t min assms show ?thesis by (auto simp: order_iff write_elems)
qed

lemma promote_elems [simp]: "l_elems (l_promote cmp k h) = l_elems h"
  by (simp add: l_promote_def)

theorem remembering_heap_laws:
  assumes "key_order key cmp"
  shows "heap_laws cmp (remembering_heap cmp) (lheap_view cmp)"
proof -
  note order = search_order [OF assms] and wf = lheap_order_wf [of cmp]
  show ?thesis
    unfolding heap_laws_def
  proof (intro conjI allI impI)
    fix h assume "in_order (lheap_view cmp) h \<and> elems (lheap_view cmp) h \<noteq> Map.empty"
    then show "h_top (remembering_heap cmp) h \<in> ran (elems (lheap_view cmp) h)"
      and "\<forall>v \<in> ran (elems (lheap_view cmp) h). \<not> cmp (h_top (remembering_heap cmp) h) v"
      using lheap_top_laws [of cmp h] by (auto simp: lheap_simps)
  next
    show "in_order (lheap_view cmp) (h_new (remembering_heap cmp))"
      by (simp add: lheap_simps lheap_order_def)
  qed (use remembering_increase [OF assms] remembering_decrease [OF assms] in
      \<open>auto simp: lheap_simps finite_dom_map_of write_elems order wf l_value_eq push_wf drop_wf\<close>)
qed

end
