(* ===== verification/Keyed_Heap.thy ===== *)
theory Keyed_Heap
  imports Selector Heap_Contract
begin

section \<open>Backends in a heap, found by their printed form\<close>

text \<open>
  \<^verbatim>\<open>LeastConnectionsSelector\<close> and \<^verbatim>\<open>LeastResponseTimeSelector\<close> keep the same two members:
  a heap of elements that hold a backend, and an unordered map (a partial function here) from the
  printed form of a backend to the handle of its element. Their \<^verbatim>\<open>InsertBackend\<close> and
  \<^verbatim>\<open>ExcludeBackend\<close> have the same text up to the element type. The heap is a parameter, as
  documented (\<^verbatim>\<open>Heap_Contract\<close>); \<^verbatim>\<open>bk\<close> is the backend of an element.
\<close>

record ('h, 'k) keyed_heap =
  handle_pool :: "string \<Rightarrow> 'k option"
  backends_heap :: 'h

definition kh_new :: "('h, 'k, 'v) heap_ops \<Rightarrow> ('h, 'k) keyed_heap" where
  "kh_new H = \<lparr>handle_pool = Map.empty, backends_heap = h_new H\<rparr>"

definition kh_insert ::
    "('h, 'k, 'v) heap_ops \<Rightarrow> 'a env \<Rightarrow> ('v \<Rightarrow> 'a backend) \<Rightarrow> 'v \<Rightarrow> ('h, 'k) keyed_heap \<Rightarrow> ('h, 'k) keyed_heap" where
  "kh_insert H E bk w s =
     (let (handle, h) = h_push H w (backends_heap s)
      in s\<lparr>backends_heap := h,
          handle_pool := (handle_pool s)(Backend_ToString E (bk (h_value H h handle)) \<mapsto> handle)\<rparr>)"

definition kh_exclude ::
    "('h, 'k, 'v) heap_ops \<Rightarrow> 'a env \<Rightarrow> ('h, 'k) keyed_heap \<Rightarrow> 'a backend \<Rightarrow> unit result \<times> ('h, 'k) keyed_heap" where
  "kh_exclude H E s backend =
     (case handle_pool s (Backend_ToString E backend) of
        None \<Rightarrow> (Inr (), s)
      | Some handle \<Rightarrow>
          let s' = s\<lparr>backends_heap := h_erase H handle (backends_heap s),
                     handle_pool := (handle_pool s)(Backend_ToString E backend := None)\<rparr>
          in (if h_empty H (backends_heap s') then Inl all_excluded else Inr (), s'))"

definition kh_audit :: "('h, 'k) keyed_heap \<Rightarrow> (('h, 'k, 'v) audit_heap, 'k) keyed_heap" where
  "kh_audit s = \<lparr>handle_pool = handle_pool s, backends_heap = audit_start (backends_heap s)\<rparr>"

lemma kh_audit_simps [simp]:
  "handle_pool (kh_audit s) = handle_pool s" "backends_heap (kh_audit s) = audit_start (backends_heap s)"
  by (simp_all add: kh_audit_def)

lemma kh_exclude_audit: "audit_kept (backends_heap (snd (kh_exclude (audited cmp H) E (kh_audit s) b)))"
  by (auto simp: kh_exclude_def audit_defs split: option.splits)

subsection \<open>The elements by key\<close>

text \<open>
  The abstract state is the element each key leads to. The representation is sound when the keys
  lead exactly to the elements of the heap, each to the one that prints like it.
\<close>

definition kh_abs :: "('h, 'k, 'v) heap_ops \<Rightarrow> ('h, 'k) keyed_heap \<Rightarrow> string \<Rightarrow> 'v option" where
  "kh_abs H s key = map_option (h_value H (backends_heap s)) (handle_pool s key)"

definition kh_ok ::
    "('v \<Rightarrow> 'v \<Rightarrow> bool) \<Rightarrow> ('h, 'k, 'v) heap_ops \<Rightarrow> ('h, 'k, 'v) heap_view \<Rightarrow> 'a env \<Rightarrow> ('v \<Rightarrow> 'a backend) \<Rightarrow>
     ('h, 'k) keyed_heap \<Rightarrow> bool" where
  "kh_ok cmp H G E bk s \<longleftrightarrow> heap_laws cmp H G \<and> in_order G (backends_heap s) \<and>
     (\<forall>key k. handle_pool s key = Some k \<longleftrightarrow>
        (\<exists>w. elems G (backends_heap s) k = Some w \<and> Backend_ToString E (bk w) = key))"

abbreviation kh_pool :: "('v \<Rightarrow> 'a backend) \<Rightarrow> ('h, 'k, 'v) heap_ops \<Rightarrow> ('h, 'k) keyed_heap \<Rightarrow> 'a backend set" where
  "kh_pool bk H s \<equiv> bk ` ran (kh_abs H s)"

abbreviation kh_entries :: "('h, 'k, 'v) heap_ops \<Rightarrow> ('h, 'k) keyed_heap \<Rightarrow> nat" where
  "kh_entries H s \<equiv> card (dom (kh_abs H s))"

lemma kh_okD:
  assumes "kh_ok cmp H G E bk s"
  shows "heap_laws cmp H G" "in_order G (backends_heap s)"
  using assms by (simp_all add: kh_ok_def)

lemma kh_pool_iff:
  "kh_ok cmp H G E bk s \<Longrightarrow> handle_pool s key = Some k \<longleftrightarrow>
    (\<exists>w. elems G (backends_heap s) k = Some w \<and> Backend_ToString E (bk w) = key)"
  by (simp add: kh_ok_def)

lemma kh_elem_pool:
  "kh_ok cmp H G E bk s \<Longrightarrow> elems G (backends_heap s) k = Some w \<Longrightarrow>
    handle_pool s (Backend_ToString E (bk w)) = Some k"
  by (simp add: kh_pool_iff)

lemma kh_abs_iff:
  assumes "kh_ok cmp H G E bk s"
  shows "kh_abs H s key = Some w \<longleftrightarrow>
    (\<exists>k. handle_pool s key = Some k \<and> elems G (backends_heap s) k = Some w \<and> Backend_ToString E (bk w) = key)"
proof (cases "handle_pool s key")
  case (Some k)
  then obtain v where v: "elems G (backends_heap s) k = Some v" "Backend_ToString E (bk v) = key"
    using kh_pool_iff [OF assms] by auto
  have "kh_abs H s key = Some v"
    by (simp only: kh_abs_def Some option.map heap_value [OF kh_okD(1) [OF assms] v(1)])
  with v Some show ?thesis by (metis option.inject)
qed (simp add: kh_abs_def)

lemma kh_abs_elems:
  assumes "kh_ok cmp H G E bk s"
  shows "kh_abs H s key = Some w \<longleftrightarrow>
    (\<exists>k. elems G (backends_heap s) k = Some w \<and> Backend_ToString E (bk w) = key)"
  unfolding kh_abs_iff [OF assms] using kh_elem_pool [OF assms, of _ w] by auto

lemma kh_abs_key: "kh_ok cmp H G E bk s \<Longrightarrow> kh_abs H s key = Some w \<Longrightarrow> key = Backend_ToString E (bk w)"
  by (simp add: kh_abs_iff) blast

lemma kh_abs_None: "kh_abs H s key = None \<longleftrightarrow> handle_pool s key = None"
  by (simp add: kh_abs_def)

lemma kh_abs_empty:
  assumes "kh_ok cmp H G E bk s"
  shows "h_empty H (backends_heap s) \<longleftrightarrow> kh_abs H s = Map.empty"
proof -
  have "kh_abs H s = Map.empty \<longleftrightarrow> (\<forall>key w. kh_abs H s key \<noteq> Some w)"
    by (simp add: fun_eq_iff)
  also have "\<dots> \<longleftrightarrow> (\<forall>k w. elems G (backends_heap s) k \<noteq> Some w)"
    unfolding kh_abs_elems [OF assms] by (metis not_None_eq)
  also have "\<dots> \<longleftrightarrow> elems G (backends_heap s) = Map.empty"
    by (simp add: fun_eq_iff)
  finally have "elems G (backends_heap s) = Map.empty \<longleftrightarrow> kh_abs H s = Map.empty" ..
  with heap_empty [OF kh_okD [OF assms]] show ?thesis by simp
qed

lemma kh_finite: "kh_ok cmp H G E bk s \<Longrightarrow> finite (dom (kh_abs H s))"
proof -
  assume ok: "kh_ok cmp H G E bk s"
  have "dom (kh_abs H s) \<subseteq> (\<lambda>k. Backend_ToString E (bk (the (elems G (backends_heap s) k)))) ` dom (elems G (backends_heap s))"
    using kh_abs_iff [OF ok] by (force simp: dom_def)
  with heap_finite [OF kh_okD [OF ok]] show ?thesis by (metis finite_imageI finite_subset)
qed

text \<open>Writing an element through its handle changes the entry of its key, and no other.\<close>

lemma kh_write:
  assumes "kh_ok cmp H G E bk s" and "handle_pool s key = Some k" and "kh_abs H s key = Some w"
    and "in_order G h" and "elems G h = (elems G (backends_heap s))(k \<mapsto> w')" and "bk w' = bk w"
  shows "kh_ok cmp H G E bk (s\<lparr>backends_heap := h\<rparr>)" and "kh_abs H (s\<lparr>backends_heap := h\<rparr>) = (kh_abs H s)(key \<mapsto> w')"
proof -
  have k: "elems G (backends_heap s) k = Some w" "Backend_ToString E (bk w) = key"
    using assms(2,3) kh_abs_iff [OF assms(1)] by auto
  show ok: "kh_ok cmp H G E bk (s\<lparr>backends_heap := h\<rparr>)"
    using assms k by (auto simp: kh_ok_def)
  have other: "handle_pool s x = Some k \<longleftrightarrow> x = key" for x
    using kh_pool_iff [OF assms(1)] k by auto
  show "kh_abs H (s\<lparr>backends_heap := h\<rparr>) = (kh_abs H s)(key \<mapsto> w')"
  proof
    fix x
    have "kh_abs H (s\<lparr>backends_heap := h\<rparr>) x = Some v \<longleftrightarrow> ((kh_abs H s)(key \<mapsto> w')) x = Some v" for v
      using other [of x] k assms(2,5,6)
      by (auto simp: kh_abs_iff [OF ok] kh_abs_iff [OF assms(1)])
    then show "kh_abs H (s\<lparr>backends_heap := h\<rparr>) x = ((kh_abs H s)(key \<mapsto> w')) x"
      by (metis not_Some_eq)
  qed
qed

lemma kh_exclude_abs:
  assumes "kh_ok cmp H G E bk s" and "kh_abs H s (Backend_ToString E b) \<noteq> None"
  shows "kh_ok cmp H G E bk (snd (kh_exclude H E s b))"
    and "kh_abs H (snd (kh_exclude H E s b)) = (kh_abs H s)(Backend_ToString E b := None)"
    and "fst (kh_exclude H E s b) =
      (if kh_abs H (snd (kh_exclude H E s b)) = Map.empty then Inl all_excluded else Inr ())"
proof -
  let ?key = "Backend_ToString E b" and ?s = "snd (kh_exclude H E s b)"
  from assms(2) obtain k where k: "handle_pool s ?key = Some k" by (auto simp: kh_abs_def)
  then obtain w where w: "elems G (backends_heap s) k = Some w" "Backend_ToString E (bk w) = ?key"
    using kh_pool_iff [OF assms(1)] by auto
  note erase = heap_erase [OF kh_okD [OF assms(1)] w(1)]
  have s: "backends_heap ?s = h_erase H k (backends_heap s)" "handle_pool ?s = (handle_pool s)(?key := None)"
    by (simp_all add: kh_exclude_def k Let_def)
  show ok: "kh_ok cmp H G E bk ?s"
    using erase assms(1) k w kh_elem_pool [OF assms(1)] by (auto simp: kh_ok_def s) (metis option.inject)
  show "kh_abs H ?s = (kh_abs H s)(?key := None)"
  proof
    fix x
    have "kh_abs H ?s x = Some v \<longleftrightarrow> ((kh_abs H s)(?key := None)) x = Some v" for v
    proof (cases "x = ?key")
      case True
      have "j = k" if "elems G (backends_heap s) j = Some u" "Backend_ToString E (bk u) = ?key" for j u
        using kh_elem_pool [OF assms(1) that(1)] that(2) k by simp
      then show ?thesis unfolding kh_abs_elems [OF ok] using True erase by (auto simp: s)
    next
      case False
      show ?thesis
        unfolding fun_upd_other [OF False] kh_abs_elems [OF ok] kh_abs_elems [OF assms(1)] s conjunct2 [OF erase]
      proof (cases "v = w")
        case True
        with False w(2) show "(\<exists>j. ((elems G (backends_heap s))(k := None)) j = Some v \<and> Backend_ToString E (bk v) = x) =
            (\<exists>j. elems G (backends_heap s) j = Some v \<and> Backend_ToString E (bk v) = x)" by auto
      next
        case False
        then show "(\<exists>j. ((elems G (backends_heap s))(k := None)) j = Some v \<and> Backend_ToString E (bk v) = x) =
            (\<exists>j. elems G (backends_heap s) j = Some v \<and> Backend_ToString E (bk v) = x)"
          using w(1) by (intro ex_key_delete [where m = "elems G (backends_heap s)"]) auto
      qed
    qed
    then show "kh_abs H ?s x = ((kh_abs H s)(?key := None)) x" by (metis not_Some_eq)
  qed
  show "fst (kh_exclude H E s b) = (if kh_abs H ?s = Map.empty then Inl all_excluded else Inr ())"
    using kh_abs_empty [OF ok] by (simp add: kh_exclude_def k Let_def)
qed

lemma kh_insert_abs:
  assumes "kh_ok cmp H G E bk s" and "kh_abs H s (Backend_ToString E (bk w)) = None"
  shows "kh_ok cmp H G E bk (kh_insert H E bk w s)"
    and "kh_abs H (kh_insert H E bk w s) = (kh_abs H s)(Backend_ToString E (bk w) \<mapsto> w)"
proof -
  let ?key = "Backend_ToString E (bk w)"
  obtain k h where kh: "h_push H w (backends_heap s) = (k, h)" by fastforce
  note push = heap_push [OF kh_okD [OF assms(1)] kh]
  then have v: "h_value H h k = w" by (intro heap_value [OF kh_okD(1) [OF assms(1)]]) simp
  let ?s = "s\<lparr>backends_heap := h, handle_pool := (handle_pool s)(?key \<mapsto> k)\<rparr>"
  have ins: "kh_insert H E bk w s = ?s" by (simp add: kh_insert_def kh v)
  have none: "handle_pool s ?key = None" using assms(2) by (simp add: kh_abs_def)
  have no_elem: "Backend_ToString E (bk u) \<noteq> ?key" if "elems G (backends_heap s) j = Some u" for j u
    using kh_elem_pool [OF assms(1) that] none by auto
  have ok: "kh_ok cmp H G E bk ?s"
    using assms(1) push no_elem by (auto simp: kh_ok_def)
  show "kh_ok cmp H G E bk (kh_insert H E bk w s)" unfolding ins by (rule ok)
  show "kh_abs H (kh_insert H E bk w s) = (kh_abs H s)(?key \<mapsto> w)"
    unfolding ins
  proof
    fix x
    have "kh_abs H ?s x = Some v \<longleftrightarrow> ((kh_abs H s)(?key \<mapsto> w)) x = Some v" for v
    proof (cases "x = ?key")
      case True
      then show ?thesis unfolding kh_abs_elems [OF ok] using push no_elem by auto
    next
      case False
      then show ?thesis
        unfolding fun_upd_other [OF False] kh_abs_elems [OF ok] kh_abs_elems [OF assms(1)]
        using False push ex_key_upd [where m = "elems G (backends_heap s)" and k = k and v = v and x = w]
        by (simp del: fun_upd_apply) auto
    qed
    then show "kh_abs H ?s x = ((kh_abs H s)(?key \<mapsto> w)) x" by (metis not_Some_eq)
  qed
qed

lemma kh_top:
  assumes "kh_ok cmp H G E bk s" and "kh_abs H s \<noteq> Map.empty"
  shows "\<not> h_empty H (backends_heap s)"
    and "kh_abs H s (Backend_ToString E (bk (h_top H (backends_heap s)))) = Some (h_top H (backends_heap s))"
    and "kh_abs H s key = Some v \<Longrightarrow> \<not> cmp (h_top H (backends_heap s)) v"
proof -
  let ?w = "h_top H (backends_heap s)"
  show ne: "\<not> h_empty H (backends_heap s)" using kh_abs_empty [OF assms(1)] assms(2) by simp
  then have "elems G (backends_heap s) \<noteq> Map.empty" using heap_empty [OF kh_okD [OF assms(1)]] by simp
  from heap_top [OF kh_okD [OF assms(1)] this] obtain k where k: "elems G (backends_heap s) k = Some ?w"
    "\<And>j v. elems G (backends_heap s) j = Some v \<Longrightarrow> \<not> cmp ?w v" by blast
  then show "kh_abs H s (Backend_ToString E (bk ?w)) = Some ?w"
    using kh_abs_elems [OF assms(1)] by blast
  show "\<not> cmp ?w v" if "kh_abs H s key = Some v"
    using k(2) that kh_abs_iff [OF assms(1)] by auto
qed

subsection \<open>The laws of the contract\<close>

lemma kh_member_key:
  "kh_ok cmp H G E bk s \<Longrightarrow> b \<in> kh_pool bk H s \<longleftrightarrow> (\<exists>w. kh_abs H s (Backend_ToString E b) = Some w \<and> bk w = b)"
  by (auto simp: ran_def dest: kh_abs_key)

lemma kh_entries_zero: "kh_ok cmp H G E bk s \<Longrightarrow> kh_entries H s = 0 \<longleftrightarrow> kh_pool bk H s = {}"
  using kh_finite [of cmp H G E bk s] by (auto simp: ran_def fun_eq_iff) (metis not_Some_eq)

lemma kh_exclude_laws:
  assumes s: "kh_ok cmp H G E bk s" and b: "b \<in> kh_pool bk H s"
  shows "kh_ok cmp H G E bk (snd (kh_exclude H E s b))"
    and "kh_pool bk H (snd (kh_exclude H E s b)) = {x \<in> kh_pool bk H s. \<not> backend_eq x b}"
    and "kh_entries H (snd (kh_exclude H E s b)) < kh_entries H s"
    and "fst (kh_exclude H E s b) = (if kh_pool bk H (snd (kh_exclude H E s b)) = {} then Inl all_excluded else Inr ())"
proof -
  have mem: "kh_abs H s (Backend_ToString E b) \<noteq> None" using b kh_member_key [OF s] by auto
  note ex = kh_exclude_abs [OF s mem]
  show "kh_ok cmp H G E bk (snd (kh_exclude H E s b))" by (rule ex(1))
  show "kh_entries H (snd (kh_exclude H E s b)) < kh_entries H s"
    unfolding ex(2) using mem kh_finite [OF s] by (auto intro!: psubset_card_mono)
  show "fst (kh_exclude H E s b) = (if kh_pool bk H (snd (kh_exclude H E s b)) = {} then Inl all_excluded else Inr ())"
    using ex(3) by (auto simp: ran_def fun_eq_iff)
  show "kh_pool bk H (snd (kh_exclude H E s b)) = {x \<in> kh_pool bk H s. \<not> backend_eq x b}"
  proof (intro set_eqI iffI)
    fix x assume "x \<in> kh_pool bk H (snd (kh_exclude H E s b))"
    then have "\<exists>w. ((kh_abs H s)(Backend_ToString E b := None)) (Backend_ToString E x) = Some w \<and> bk w = x"
      unfolding kh_member_key [OF ex(1)] unfolding ex(2) .
    then have "Backend_ToString E x \<noteq> Backend_ToString E b" "\<exists>w. kh_abs H s (Backend_ToString E x) = Some w \<and> bk w = x"
      by (auto split: if_splits)
    then show "x \<in> {x \<in> kh_pool bk H s. \<not> backend_eq x b}"
      unfolding mem_Collect_eq kh_member_key [OF s] using backend_eq_ToString [of x b E] by blast
  next
    fix x assume x: "x \<in> {x \<in> kh_pool bk H s. \<not> backend_eq x b}"
    then obtain w u where w: "kh_abs H s (Backend_ToString E x) = Some w" "bk w = x"
      and u: "kh_abs H s (Backend_ToString E b) = Some u" "bk u = b"
      using b unfolding mem_Collect_eq kh_member_key [OF s] by blast
    have "Backend_ToString E x \<noteq> Backend_ToString E b"
    proof
      assume "Backend_ToString E x = Backend_ToString E b"
      with w u have "x = b" by (metis option.inject)
      with x show False by simp
    qed
    with w show "x \<in> kh_pool bk H (snd (kh_exclude H E s b))"
      unfolding kh_member_key [OF ex(1)] unfolding ex(2) by simp
  qed
qed

text \<open>Excluding a backend whose key has gone does nothing.\<close>

abbreviation kh_known ::
    "('v \<Rightarrow> 'a backend) \<Rightarrow> ('h, 'k, 'v) heap_ops \<Rightarrow> 'a env \<Rightarrow> ('h, 'k) keyed_heap \<Rightarrow> 'a backend \<Rightarrow> bool" where
  "kh_known bk H E s b \<equiv> b \<in> kh_pool bk H s \<or> kh_abs H s (Backend_ToString E b) = None"

lemma kh_exclude_gone: "kh_abs H s (Backend_ToString E b) = None \<Longrightarrow> kh_exclude H E s b = (Inr (), s)"
  by (simp add: kh_abs_None kh_exclude_def)

lemma kh_exclude_known:
  assumes "kh_ok cmp H G E bk s" and "kh_known bk H E s b" and "kh_known bk H E s x"
  shows "kh_known bk H E (snd (kh_exclude H E s b)) x"
proof (cases "kh_abs H s (Backend_ToString E b)")
  case None
  with assms(3) show ?thesis by (simp add: kh_exclude_gone)
next
  case (Some w)
  then have mem: "kh_abs H s (Backend_ToString E b) \<noteq> None" by simp
  note ex = kh_exclude_abs(1,2) [OF assms(1) mem]
  show ?thesis
  proof (cases "Backend_ToString E x = Backend_ToString E b")
    case True
    then show ?thesis unfolding ex(2) by simp
  next
    case False
    with assms(3) show ?thesis
      unfolding kh_member_key [OF assms(1)] kh_member_key [OF ex(1)] unfolding ex(2) by simp
  qed
qed

lemma kh_known_laws:
  assumes "kh_ok cmp H G E bk s" and "kh_pool bk H s \<noteq> {}" and "kh_known bk H E s b"
  shows "kh_ok cmp H G E bk (snd (kh_exclude H E s b))"
    and "kh_pool bk H (snd (kh_exclude H E s b)) \<subseteq> kh_pool bk H s"
    and "fst (kh_exclude H E s b) = (if kh_pool bk H (snd (kh_exclude H E s b)) = {} then Inl all_excluded else Inr ())"
    and "x \<in> kh_pool bk H s \<Longrightarrow> \<not> backend_eq x b \<Longrightarrow> x \<in> kh_pool bk H (snd (kh_exclude H E s b))"
proof -
  have "kh_ok cmp H G E bk (snd (kh_exclude H E s b)) \<and> kh_pool bk H (snd (kh_exclude H E s b)) \<subseteq> kh_pool bk H s \<and>
    fst (kh_exclude H E s b) = (if kh_pool bk H (snd (kh_exclude H E s b)) = {} then Inl all_excluded else Inr ()) \<and>
    (x \<in> kh_pool bk H s \<longrightarrow> \<not> backend_eq x b \<longrightarrow> x \<in> kh_pool bk H (snd (kh_exclude H E s b)))"
  proof (cases "kh_abs H s (Backend_ToString E b) = None")
    case True
    with assms(1,2) show ?thesis by (simp add: kh_exclude_gone)
  next
    case False
    with assms(3) have "b \<in> kh_pool bk H s" by blast
    note laws = kh_exclude_laws [OF assms(1) this]
    have "kh_pool bk H (snd (kh_exclude H E s b)) \<subseteq> kh_pool bk H s"
      "x \<in> kh_pool bk H s \<longrightarrow> \<not> backend_eq x b \<longrightarrow> x \<in> kh_pool bk H (snd (kh_exclude H E s b))"
      unfolding laws(2) by blast+
    with laws(1,4) show ?thesis by blast
  qed
  then show "kh_ok cmp H G E bk (snd (kh_exclude H E s b))"
    and "kh_pool bk H (snd (kh_exclude H E s b)) \<subseteq> kh_pool bk H s"
    and "fst (kh_exclude H E s b) = (if kh_pool bk H (snd (kh_exclude H E s b)) = {} then Inl all_excluded else Inr ())"
    and "x \<in> kh_pool bk H s \<Longrightarrow> \<not> backend_eq x b \<Longrightarrow> x \<in> kh_pool bk H (snd (kh_exclude H E s b))"
    by blast+
qed

text \<open>Changing the element of a key, but not its backend, leaves what is known.\<close>

lemma kh_known_gone:
  assumes s: "kh_ok cmp H G E bk s" and b: "kh_known bk H E s b" and x: "x \<in> kh_pool bk H (snd (kh_exclude H E s b))"
  shows "\<not> backend_eq x b"
proof (cases "kh_abs H s (Backend_ToString E b) = None")
  case True
  with x have "x \<in> kh_pool bk H s" by (simp add: kh_exclude_gone)
  then obtain w where "kh_abs H s (Backend_ToString E x) = Some w" using kh_member_key [OF s] by blast
  with True backend_eq_ToString [of x b E] show ?thesis by auto
next
  case False
  with b have "b \<in> kh_pool bk H s" by blast
  from x kh_exclude_laws(2) [OF s this] show ?thesis by blast
qed

lemma kh_known_upd:
  assumes "kh_abs H s key = Some w" and "bk w' = bk w" and "kh_abs H t = (kh_abs H s)(key \<mapsto> w')" and "kh_known bk H E s x"
  shows "kh_known bk H E t x"
proof -
  have "kh_pool bk H t = kh_pool bk H s"
    unfolding assms(3) using assms(1,2) by (rule image_ran_upd)
  with assms(1,3,4) show ?thesis by auto
qed

lemma kh_update_element:
  assumes "kh_abs H t = (case kh_abs H s key of None \<Rightarrow> kh_abs H s | Some w \<Rightarrow> (kh_abs H s)(key \<mapsto> f w))" and "\<And>w. bk (f w) = bk w"
  shows "kh_pool bk H t = kh_pool bk H s" and "kh_known bk H E s x \<Longrightarrow> kh_known bk H E t x"
proof -
  have "kh_pool bk H t = kh_pool bk H s \<and> (kh_known bk H E s x \<longrightarrow> kh_known bk H E t x)"
  proof (cases "kh_abs H s key")
    case (Some w)
    with assms(1) have t: "kh_abs H t = (kh_abs H s)(key \<mapsto> f w)" by simp
    from Some assms(2) have "kh_pool bk H t = kh_pool bk H s"
      unfolding t by (rule image_ran_upd)
    with kh_known_upd [OF Some assms(2) [of w] t, where E = E and x = x] show ?thesis by blast
  qed (use assms(1) in simp)
  note both = this
  show "kh_pool bk H t = kh_pool bk H s" by (rule both [THEN conjunct1])
  show "kh_known bk H E s x \<Longrightarrow> kh_known bk H E t x" by (rule both [THEN conjunct2, THEN mp])
qed

subsection \<open>Insertion of a list\<close>

lemma kh_ok_new: "heap_laws cmp H G \<Longrightarrow> kh_ok cmp H G E bk (kh_new H) \<and> kh_abs H (kh_new H) = Map.empty"
  by (auto simp: kh_ok_def kh_new_def heap_new kh_abs_def fun_eq_iff)

definition fresh_elems :: "'a env \<Rightarrow> ('a backend \<Rightarrow> 'v) \<Rightarrow> 'a backend list \<Rightarrow> string \<Rightarrow> 'v option" where
  "fresh_elems E mk bs = map_of (map (\<lambda>b. (Backend_ToString E b, mk b)) bs)"

lemma kh_insert_all:
  assumes "kh_ok cmp H G E bk s" and "distinct (map (Backend_ToString E) bs)"
    and "\<forall>b \<in> set bs. kh_abs H s (Backend_ToString E b) = None" and "\<And>b. bk (mk b) = b"
  shows "\<exists>t. rfold (\<lambda>s b. Inr (kh_insert H E bk (mk b) s)) s bs = Inr t \<and> kh_ok cmp H G E bk t \<and>
    kh_abs H t = kh_abs H s ++ fresh_elems E mk bs"
  using assms(1-3)
proof (induction bs arbitrary: s)
  case (Cons b bs)
  let ?s = "kh_insert H E bk (mk b) s"
  have s': "kh_ok cmp H G E bk ?s" "kh_abs H ?s = (kh_abs H s)(Backend_ToString E b \<mapsto> mk b)"
    using kh_insert_abs [OF Cons.prems(1), of "mk b"] Cons.prems(3) assms(4) by auto
  have none: "fresh_elems E mk bs (Backend_ToString E b) = None"
    using Cons.prems(2) by (force simp: fresh_elems_def map_of_eq_None_iff)
  from Cons.prems s' have "\<forall>b \<in> set bs. kh_abs H ?s (Backend_ToString E b) = None"
    by (auto simp: image_iff)
  from Cons.IH [OF s'(1) _ this] Cons.prems(2) obtain t where
    "rfold (\<lambda>s b. Inr (kh_insert H E bk (mk b) s)) ?s bs = Inr t" "kh_ok cmp H G E bk t"
    "kh_abs H t = kh_abs H ?s ++ fresh_elems E mk bs" by auto
  moreover have "kh_abs H ?s ++ fresh_elems E mk bs = kh_abs H s ++ fresh_elems E mk (b # bs)"
    using none by (auto simp: s'(2) fresh_elems_def map_add_def fun_eq_iff split: option.splits)
  ultimately show ?case by auto
qed (simp add: fresh_elems_def)

lemma fresh_pool:
  "kh_abs H s = fresh_elems E mk bs \<Longrightarrow> distinct (map (Backend_ToString E) bs) \<Longrightarrow> (\<And>b. bk (mk b) = b) \<Longrightarrow>
    kh_pool bk H s = set bs"
  by (simp add: fresh_elems_def ran_distinct comp_def image_image)

lemma fresh_entries: "kh_abs H s = fresh_elems E mk bs \<Longrightarrow> kh_entries H s \<le> length bs"
  unfolding fresh_elems_def
  by (simp add: dom_map_of_conv_image_fst image_image card_length [of "map (Backend_ToString E) bs", simplified])

text \<open>A sample configuration of two backends.\<close>

definition sample_bs :: "sample_addr backend list" where
  "sample_bs = [EndpointB (sample_ep ''127.0.0.1'' 8080), EndpointB (sample_ep ''127.0.0.1'' 8081)]"

definition sample_eps :: "ynode list" where
  "sample_eps = [sample_ip_entry ''127.0.0.1'' ''8080'', sample_ip_entry ''127.0.0.1'' ''8081'']"

definition sample_node :: ynode where
  "sample_node = YMap [(''endpoints'', YSeq sample_eps)]"

lemma sample_endpoints: "endpoints_of sample_yaml missed sample_node = Inr sample_eps"
  by (simp add: endpoints_of_def sample_node_def sample_yaml_simps)

lemma sample_denotes: "denotes sample_env sample_yaml sample_eps sample_bs"
  using read_sample_ip_entry [of "''127.0.0.1''" "''8080''" 8080] read_sample_ip_entry [of "''127.0.0.1''" "''8081''" 8081]
  by (simp add: sample_eps_def sample_bs_def) (simp add: sample_yaml_simps)

lemma sample_keys: "map (Backend_ToString sample_env) sample_bs = [''127.0.0.1:8080'', ''127.0.0.1:8081'']"
  by (simp add: sample_bs_def endpoint_string_def sample_ep_def dec.simps)

lemma sample_distinct: "distinct (map (Backend_ToString sample_env) sample_bs)"
  unfolding sample_keys by simp

end
