(* ===== verification/Least_Connections.thy ===== *)
theory Least_Connections
  imports Keyed_Heap
begin

section \<open>\<^verbatim>\<open>LeastConnectionsSelector\<close>\<close>

text \<open>
  The selector keeps its backends with a connection counter in a heap whose top has the least
  counter. The counter is a \<^verbatim>\<open>std::size_t\<close>: as long as the contract of the heap is kept it
  would take \<^verbatim>\<open>2^64\<close> operations to wrap it (\<^verbatim>\<open>lc_counter_bound\<close> below), so it is a
  \<^verbatim>\<open>nat\<close>.
\<close>

record 'a CounterWrapper =
  cw_b :: "'a backend"
  cw_counter :: nat

definition ConnectionsCompare :: "'a CounterWrapper \<Rightarrow> 'a CounterWrapper \<Rightarrow> bool" where
  "ConnectionsCompare lhs rhs \<longleftrightarrow> cw_counter lhs > cw_counter rhs"

type_synonym ('h, 'k, 'a) lc_heap = "('h, 'k, 'a CounterWrapper) heap_ops"
type_synonym ('h, 'k, 'a) lc_view = "('h, 'k, 'a CounterWrapper) heap_view"
type_synonym ('h, 'k) LeastConnectionsSelector = "('h, 'k) keyed_heap"

definition zero_count :: "'a backend \<Rightarrow> 'a CounterWrapper" where
  "zero_count b = \<lparr>cw_b = b, cw_counter = 0\<rparr>"

lemma zero_count_simps [simp]: "cw_b (zero_count b) = b" "cw_counter (zero_count b) = 0"
  by (simp_all add: zero_count_def)

definition lc_InsertBackend ::
    "('h, 'k, 'a) lc_heap \<Rightarrow> 'a env \<Rightarrow> ('h, 'k) LeastConnectionsSelector \<Rightarrow> 'a backend \<Rightarrow>
     ('h, 'k) LeastConnectionsSelector result" where
  "lc_InsertBackend H E s b = Inr (kh_insert H E cw_b (zero_count b) s)"

definition lc_Configure ::
    "('h, 'k, 'a) lc_heap \<Rightarrow> 'a env \<Rightarrow> 'n yaml \<Rightarrow> 'n \<Rightarrow> ('h, 'k) LeastConnectionsSelector \<Rightarrow>
     ('h, 'k) LeastConnectionsSelector result" where
  "lc_Configure H E Y config s =
     rbind (endpoints_of Y ''Least connections endpoints node is missed'' config)
       (configure_with E Y (lc_InsertBackend H E) s)"

definition IncreaseConnectionCount ::
    "('h, 'k, 'a) lc_heap \<Rightarrow> 'a env \<Rightarrow> 'a backend \<Rightarrow> ('h, 'k) LeastConnectionsSelector \<Rightarrow>
     ('h, 'k) LeastConnectionsSelector" where
  "IncreaseConnectionCount H E backend s =
     (case handle_pool s (Backend_ToString E backend) of
        None \<Rightarrow> s
      | Some handle \<Rightarrow>
          let w = h_value H (backends_heap s) handle in
          s\<lparr>backends_heap := h_decrease H handle
              (h_write H handle (w\<lparr>cw_counter := cw_counter w + 1\<rparr>) (backends_heap s))\<rparr>)"

definition DecreaseConnectionCount ::
    "('h, 'k, 'a) lc_heap \<Rightarrow> 'a env \<Rightarrow> 'a backend \<Rightarrow> ('h, 'k) LeastConnectionsSelector \<Rightarrow>
     ('h, 'k) LeastConnectionsSelector" where
  "DecreaseConnectionCount H E backend s =
     (case handle_pool s (Backend_ToString E backend) of
        None \<Rightarrow> s
      | Some handle \<Rightarrow>
          let w = h_value H (backends_heap s) handle in
          if cw_counter w > 0
          then s\<lparr>backends_heap := h_decrease H handle
              (h_write H handle (w\<lparr>cw_counter := cw_counter w - 1\<rparr>) (backends_heap s))\<rparr>
          else s)"

definition lc_SelectBackend ::
    "('h, 'k, 'a) lc_heap \<Rightarrow> 'a env \<Rightarrow> ('h, 'k) LeastConnectionsSelector \<Rightarrow> 'a endpoint \<Rightarrow>
     'a backend result \<times> ('h, 'k) LeastConnectionsSelector" where
  "lc_SelectBackend H E s notused =
     (if h_empty H (backends_heap s) then (Inl (UndefinedBehaviour ''top of an empty heap''), s)
      else (Inr (cw_b (h_top H (backends_heap s))),
            IncreaseConnectionCount H E (cw_b (h_top H (backends_heap s))) s))"

definition lc_ExcludeBackend ::
    "('h, 'k, 'a) lc_heap \<Rightarrow> 'a env \<Rightarrow> ('h, 'k) LeastConnectionsSelector \<Rightarrow> 'a backend \<Rightarrow>
     unit result \<times> ('h, 'k) LeastConnectionsSelector" where
  "lc_ExcludeBackend H E s backend = kh_exclude H E s backend"

definition lc_Type :: SelectorType where
  "lc_Type = LEAST_CONNECTIONS"

lemmas lc_exclude_defs = lc_ExcludeBackend_def kh_exclude_def
lemmas lc_insert_defs = lc_InsertBackend_def kh_insert_def

subsection \<open>The contract\<close>

abbreviation lc_ok :: "('h, 'k, 'a) lc_heap \<Rightarrow> ('h, 'k, 'a) lc_view \<Rightarrow> 'a env \<Rightarrow> ('h, 'k) LeastConnectionsSelector \<Rightarrow> bool" where
  "lc_ok H G E s \<equiv> kh_ok ConnectionsCompare H G E cw_b s"

abbreviation counted :: "'a CounterWrapper \<Rightarrow> 'a CounterWrapper" where
  "counted w \<equiv> w\<lparr>cw_counter := cw_counter w + 1\<rparr>"

lemma compare_key_order: "key_order cw_counter ConnectionsCompare"
  by (simp add: key_order_def ConnectionsCompare_def)

lemma lc_Increase_abs:
  assumes "lc_ok H G E s"
  shows "lc_ok H G E (IncreaseConnectionCount H E b s)"
    and "kh_abs H (IncreaseConnectionCount H E b s) =
      (case kh_abs H s (Backend_ToString E b) of None \<Rightarrow> kh_abs H s
       | Some w \<Rightarrow> (kh_abs H s)(Backend_ToString E b \<mapsto> counted w))"
proof -
  let ?key = "Backend_ToString E b" and ?s = "IncreaseConnectionCount H E b s"
  have "lc_ok H G E ?s \<and> kh_abs H ?s = (case kh_abs H s ?key of None \<Rightarrow> kh_abs H s
      | Some w \<Rightarrow> (kh_abs H s)(?key \<mapsto> counted w))"
  proof (cases "handle_pool s ?key")
    case None
    with assms show ?thesis by (simp add: IncreaseConnectionCount_def kh_abs_def)
  next
    case (Some k)
    then obtain w where w: "elems G (backends_heap s) k = Some w" using kh_pool_iff [OF assms] by auto
    with Some have abs: "kh_abs H s ?key = Some w" and v: "h_value H (backends_heap s) k = w"
      by (simp_all add: kh_abs_def heap_value [OF kh_okD(1) [OF assms] w])
    have "\<not> ConnectionsCompare w (counted w)" by (simp add: ConnectionsCompare_def)
    from heap_decrease [OF kh_okD [OF assms] w this] kh_write [OF assms Some abs, of _ "counted w"]
    show ?thesis by (simp add: IncreaseConnectionCount_def Some v abs)
  qed
  then show "lc_ok H G E ?s" and "kh_abs H ?s = (case kh_abs H s ?key of None \<Rightarrow> kh_abs H s
      | Some w \<Rightarrow> (kh_abs H s)(?key \<mapsto> counted w))"
    by blast+
qed

text \<open>
  \<^verbatim>\<open>IncreaseConnectionCount\<close> raises a counter, which lowers the element's priority, and calls
  \<^verbatim>\<open>decrease\<close>, as documented. \<^verbatim>\<open>DecreaseConnectionCount\<close> lowers a counter, which raises
  the priority, and calls \<^verbatim>\<open>decrease\<close> too, whose precondition is that the priority does not
  rise: whenever it calls it, it is outside of the documented contract.
\<close>

lemma lc_Increase_audit: "audit_kept (backends_heap (IncreaseConnectionCount (audited ConnectionsCompare H) E b (kh_audit s)))"
  by (auto simp: IncreaseConnectionCount_def audit_defs ConnectionsCompare_def Let_def split: option.splits)

lemma lc_Select_audit: "audit_kept (backends_heap (snd (lc_SelectBackend (audited ConnectionsCompare H) E (kh_audit s) c)))"
  using lc_Increase_audit by (auto simp: lc_SelectBackend_def) (simp add: audit_defs)

lemma lc_Decrease_audit:
  "audit_kept (backends_heap (DecreaseConnectionCount (audited ConnectionsCompare H) E b (kh_audit s))) \<longleftrightarrow>
    (\<forall>w. kh_abs H s (Backend_ToString E b) = Some w \<longrightarrow> cw_counter w = 0)"
  by (auto simp: DecreaseConnectionCount_def audit_defs ConnectionsCompare_def Let_def kh_abs_def split: option.splits)

lemma lc_Decrease_documented:
  assumes "audit_kept (backends_heap (DecreaseConnectionCount (audited ConnectionsCompare H) E b (kh_audit s)))"
  shows "DecreaseConnectionCount H E b s = s"
  using assms unfolding lc_Decrease_audit
  by (auto simp: DecreaseConnectionCount_def kh_abs_def Let_def split: option.splits)

lemma lc_Select_abs:
  assumes "lc_ok H G E s" and "kh_abs H s \<noteq> Map.empty"
  obtains w where "kh_abs H s (Backend_ToString E (cw_b w)) = Some w"
    and "\<And>key v. kh_abs H s key = Some v \<Longrightarrow> cw_counter w \<le> cw_counter v"
    and "fst (lc_SelectBackend H E s c) = Inr (cw_b w)"
    and "kh_abs H (snd (lc_SelectBackend H E s c)) = (kh_abs H s)(Backend_ToString E (cw_b w) \<mapsto> counted w)"
    and "lc_ok H G E (snd (lc_SelectBackend H E s c))"
proof -
  let ?w = "h_top H (backends_heap s)"
  note top = kh_top [OF assms]
  have "cw_counter ?w \<le> cw_counter v" if "kh_abs H s key = Some v" for key v
    using top(3) [OF that] by (simp add: ConnectionsCompare_def not_less)
  with top lc_Increase_abs [OF assms(1), of "cw_b ?w"] show ?thesis
    by (intro that [of ?w]) (auto simp: lc_SelectBackend_def)
qed

interpretation lc: excluding_selector "lc_SelectBackend H E" "lc_ExcludeBackend H E" "kh_pool cw_b H"
  "kh_entries H" "lc_ok H G E"
proof unfold_locales
  fix s :: "('a, 'b) LeastConnectionsSelector" and b x :: "'c backend" and c
  assume s: "lc_ok H G E s"
  show "kh_entries H s = 0 \<longleftrightarrow> kh_pool cw_b H s = {}"
    by (rule kh_entries_zero [OF s])
  { assume "kh_pool cw_b H s \<noteq> {}"
    then have "kh_abs H s \<noteq> Map.empty" by auto
    from lc_Select_abs [OF s this, of c] obtain w where w: "kh_abs H s (Backend_ToString E (cw_b w)) = Some w"
      "fst (lc_SelectBackend H E s c) = Inr (cw_b w)" "lc_ok H G E (snd (lc_SelectBackend H E s c))"
      "kh_abs H (snd (lc_SelectBackend H E s c)) = (kh_abs H s)(Backend_ToString E (cw_b w) \<mapsto> counted w)"
      by metis
    then show "lc_ok H G E (snd (lc_SelectBackend H E s c))" by blast
    show "kh_pool cw_b H (snd (lc_SelectBackend H E s c)) = kh_pool cw_b H s"
      unfolding w(4) using w(1) by (rule image_ran_upd) simp
    show "kh_entries H (snd (lc_SelectBackend H E s c)) = kh_entries H s"
      using w(1,4) by (simp add: insert_absorb domI)
    show "\<exists>b \<in> kh_pool cw_b H s. fst (lc_SelectBackend H E s c) = Inr b"
      using w(1,2) by (auto intro: ranI) }
  assume b: "b \<in> kh_pool cw_b H s"
  note laws = kh_exclude_laws [OF s b, folded lc_ExcludeBackend_def]
  show "lc_ok H G E (snd (lc_ExcludeBackend H E s b))" by (rule laws)
  show "kh_pool cw_b H (snd (lc_ExcludeBackend H E s b)) \<subseteq> kh_pool cw_b H s" unfolding laws(2) by blast
  show "kh_entries H (snd (lc_ExcludeBackend H E s b)) < kh_entries H s" by (rule laws)
  show "fst (lc_ExcludeBackend H E s b) = (if kh_pool cw_b H (snd (lc_ExcludeBackend H E s b)) = {} then Inl all_excluded else Inr ())"
    by (rule laws)
  show "x \<in> kh_pool cw_b H (snd (lc_ExcludeBackend H E s b))" if "x \<in> kh_pool cw_b H s" "\<not> backend_eq x b"
    using that unfolding laws(2) by blast
  show "\<not> backend_eq x b" if "x \<in> kh_pool cw_b H (snd (lc_ExcludeBackend H E s b))"
    using that unfolding laws(2) by blast
qed

interpretation lc: shared_selector "lc_SelectBackend H E" "lc_ExcludeBackend H E" "kh_pool cw_b H"
  "kh_entries H" "lc_ok H G E" "kh_known cw_b H E"
proof (unfold_locales, goal_cases)
  case (2 s x c)
  then have "kh_abs H s \<noteq> Map.empty" by auto
  from lc_Select_abs [OF 2(1) this, of c] obtain w where w: "kh_abs H s (Backend_ToString E (cw_b w)) = Some w"
    "kh_abs H (snd (lc_SelectBackend H E s c)) = (kh_abs H s)(Backend_ToString E (cw_b w) \<mapsto> counted w)" by metis
  from kh_known_upd [OF w(1) _ w(2) 2(3)] show ?case by simp
next
  case (3 s b x)
  then show ?case unfolding lc_ExcludeBackend_def by (intro kh_exclude_known)
next
  case (4 s b)
  then show ?case unfolding lc_ExcludeBackend_def by (rule kh_known_laws)
next
  case (5 s b)
  then show ?case unfolding lc_ExcludeBackend_def by (rule kh_known_laws)
next
  case (6 s b)
  then show ?case unfolding lc_ExcludeBackend_def by (rule kh_known_laws)
next
  case (7 s b x)
  then show ?case unfolding lc_ExcludeBackend_def by (intro kh_known_laws(4))
qed blast

subsection \<open>Configuration\<close>

abbreviation fresh_counters :: "'a env \<Rightarrow> 'a backend list \<Rightarrow> string \<Rightarrow> 'a CounterWrapper option" where
  "fresh_counters E bs \<equiv> fresh_elems E zero_count bs"

text \<open>A configuration whose entries print differently gives each of them a counter at zero.\<close>

lemma lc_Configure_abs:
  assumes "heap_laws ConnectionsCompare H G"
    and "endpoints_of Y ''Least connections endpoints node is missed'' node = Inr eps"
    and "denotes E Y eps bs" and "distinct (map (Backend_ToString E) bs)"
  shows "\<exists>s. lc_Configure H E Y node (kh_new H) = Inr s \<and> lc_ok H G E s \<and> kh_abs H s = fresh_counters E bs"
proof -
  have "lc_InsertBackend H E = (\<lambda>s b. Inr (kh_insert H E cw_b (zero_count b) s))"
    by (intro ext) (simp add: lc_InsertBackend_def)
  with kh_insert_all [of ConnectionsCompare H G E cw_b "kh_new H" bs zero_count] kh_ok_new [OF assms(1), of E cw_b] assms(4)
  obtain s where "rfold (lc_InsertBackend H E) (kh_new H) bs = Inr s" "lc_ok H G E s" "kh_abs H s = fresh_counters E bs"
    by auto
  with assms(2,3) show ?thesis by (auto simp: lc_Configure_def configure_with_denotes)
qed

lemma lc_pool_fresh: "kh_abs H s = fresh_counters E bs \<Longrightarrow> distinct (map (Backend_ToString E) bs) \<Longrightarrow> kh_pool cw_b H s = set bs"
  by (rule fresh_pool [where mk = zero_count]) simp_all

text \<open>The sample configuration of two backends, on the heap that searches for its top.\<close>

abbreviation sample_lc_heap :: "(sample_addr CounterWrapper lheap, nat, sample_addr) lc_heap" where
  "sample_lc_heap \<equiv> searching_heap ConnectionsCompare"

abbreviation sample_lc_view :: "(sample_addr CounterWrapper lheap, nat, sample_addr) lc_view" where
  "sample_lc_view \<equiv> lheap_view ConnectionsCompare"

lemma sample_lc_laws: "heap_laws ConnectionsCompare sample_lc_heap sample_lc_view"
  by (rule searching_heap_laws [OF compare_key_order])

definition sample_lc :: "(sample_addr CounterWrapper lheap, nat) LeastConnectionsSelector" where
  "sample_lc = (case lc_Configure sample_lc_heap sample_env sample_yaml sample_node (kh_new sample_lc_heap) of
     Inr s \<Rightarrow> s | Inl e \<Rightarrow> kh_new sample_lc_heap)"

lemma sample_lc_configured:
  "lc_Configure sample_lc_heap sample_env sample_yaml sample_node (kh_new sample_lc_heap) = Inr sample_lc"
  "lc_ok sample_lc_heap sample_lc_view sample_env sample_lc"
  "kh_abs sample_lc_heap sample_lc = fresh_counters sample_env sample_bs"
  using lc_Configure_abs [OF sample_lc_laws sample_endpoints sample_denotes sample_distinct]
  by (auto simp: sample_lc_def)

lemma sample_lc_pool: "kh_pool cw_b sample_lc_heap sample_lc = set sample_bs"
  by (rule lc_pool_fresh [OF sample_lc_configured(3) sample_distinct])

subsection \<open>Selection\<close>

text \<open>C14. \<^verbatim>\<open>SelectBackend\<close> returns a backend with the least counter, counts one more connection
  for it, and leaves every other counter alone. This needs no more of the heap than its
  documentation promises.\<close>

theorem lc_select_least:
  assumes "lc_ok H G E s" and "kh_pool cw_b H s \<noteq> {}"
  shows "\<exists>b n. kh_abs H s (Backend_ToString E b) = Some \<lparr>cw_b = b, cw_counter = n\<rparr> \<and>
    (\<forall>v \<in> ran (kh_abs H s). n \<le> cw_counter v) \<and>
    fst (lc_SelectBackend H E s c) = Inr b \<and>
    kh_abs H (snd (lc_SelectBackend H E s c)) =
      (kh_abs H s)(Backend_ToString E b \<mapsto> \<lparr>cw_b = b, cw_counter = n + 1\<rparr>)"
proof -
  from assms(2) have "kh_abs H s \<noteq> Map.empty" by auto
  from lc_Select_abs [OF assms(1) this, of c] obtain w where w: "kh_abs H s (Backend_ToString E (cw_b w)) = Some w"
    "\<And>key v. kh_abs H s key = Some v \<Longrightarrow> cw_counter w \<le> cw_counter v"
    "fst (lc_SelectBackend H E s c) = Inr (cw_b w)"
    "kh_abs H (snd (lc_SelectBackend H E s c)) = (kh_abs H s)(Backend_ToString E (cw_b w) \<mapsto> counted w)"
    by metis
  then show ?thesis
    by (intro exI [of _ "cw_b w"] exI [of _ "cw_counter w"]) (auto simp: ran_def)
qed

theorem lc_select_least_witness:
  "\<exists>b n. kh_abs sample_lc_heap sample_lc (Backend_ToString sample_env b) = Some \<lparr>cw_b = b, cw_counter = n\<rparr> \<and>
    fst (lc_SelectBackend sample_lc_heap sample_env sample_lc (sample_ep ''::1'' 1)) = Inr b"
proof -
  have "kh_pool cw_b sample_lc_heap sample_lc \<noteq> {}" unfolding sample_lc_pool by (simp add: sample_bs_def)
  from lc_select_least [OF sample_lc_configured(2) this, of "sample_ep ''::1'' 1"] show ?thesis by blast
qed

subsection \<open>Balance\<close>

definition balanced :: "(string \<Rightarrow> 'a CounterWrapper option) \<Rightarrow> bool" where
  "balanced m \<longleftrightarrow> (\<forall>v \<in> ran m. \<forall>w \<in> ran m. cw_counter v \<le> cw_counter w + 1)"

definition total_count :: "(string \<Rightarrow> 'a CounterWrapper option) \<Rightarrow> nat" where
  "total_count m = (\<Sum>key \<in> dom m. cw_counter (the (m key)))"

lemma total_count_upd:
  assumes "finite (dom m)" and "m key = Some w"
  shows "total_count (m(key \<mapsto> counted w)) = total_count m + 1"
proof -
  have "dom (m(key \<mapsto> counted w)) = dom m" "key \<in> dom m" using assms(2) by auto
  moreover have "(\<Sum>k \<in> dom m - {key}. cw_counter (the ((m(key \<mapsto> counted w)) k))) =
      (\<Sum>k \<in> dom m - {key}. cw_counter (the (m k)))"
    by (rule sum.cong) auto
  ultimately show ?thesis
    using assms by (simp add: total_count_def sum.remove [OF assms(1)])
qed

lemma lc_selects_balanced:
  assumes "lc_ok H G E s" and "kh_pool cw_b H s \<noteq> {}" and "balanced (kh_abs H s)"
  shows "balanced (kh_abs H (snd (selects (lc_SelectBackend H E) n s c))) \<and>
    total_count (kh_abs H (snd (selects (lc_SelectBackend H E) n s c))) = total_count (kh_abs H s) + n"
  using assms
proof (induction n arbitrary: s)
  case (Suc n)
  let ?s = "snd (lc_SelectBackend H E s c)"
  from Suc.prems(2) have "kh_abs H s \<noteq> Map.empty" by auto
  from lc_Select_abs [OF Suc.prems(1) this, of c] obtain w where w: "kh_abs H s (Backend_ToString E (cw_b w)) = Some w"
    "\<And>key v. kh_abs H s key = Some v \<Longrightarrow> cw_counter w \<le> cw_counter v"
    "kh_abs H ?s = (kh_abs H s)(Backend_ToString E (cw_b w) \<mapsto> counted w)" by metis
  from Suc.prems(3) w have "balanced (kh_abs H ?s)"
    unfolding balanced_def by (fastforce simp: ran_def split: if_splits)
  moreover have "total_count (kh_abs H ?s) = total_count (kh_abs H s) + 1"
    unfolding w(3) using kh_finite [OF Suc.prems(1)] w(1) by (rule total_count_upd)
  moreover have "lc_ok H G E ?s" "kh_pool cw_b H ?s \<noteq> {}"
    using lc.select_inv [OF Suc.prems(1,2)] lc.select_pool [OF Suc.prems(1,2)] Suc.prems(2) by auto
  ultimately show ?case
    using Suc.IH [of ?s] unfolding snd_selects_Suc by simp
qed simp

text \<open>C35. Selections alone are spread evenly. After any number of calls of \<^verbatim>\<open>SelectBackend\<close>, and no
  other call, on the selector of a configuration with distinct keys, the counters add up to that
  number and no two of them differ by more than one. This is what the selector does for clients
  whose connections have not been made yet: a session that starts counts once more.\<close>

theorem lc_selections_balanced:
  assumes "heap_laws ConnectionsCompare H G"
    and "endpoints_of Y ''Least connections endpoints node is missed'' node = Inr eps"
    and "denotes E Y eps bs" and "distinct (map (Backend_ToString E) bs)" and "bs \<noteq> []"
    and "lc_Configure H E Y node (kh_new H) = Inr s"
  shows "balanced (kh_abs H (snd (selects (lc_SelectBackend H E) n s c))) \<and>
    total_count (kh_abs H (snd (selects (lc_SelectBackend H E) n s c))) = n"
proof -
  from lc_Configure_abs [OF assms(1-4)] assms(6)
  have s: "lc_ok H G E s" "kh_abs H s = fresh_counters E bs" by auto
  have zero: "cw_counter v = 0" if "fresh_counters E bs key = Some v" for key v
    using that by (auto simp: fresh_elems_def dest!: map_of_SomeD)
  have "kh_pool cw_b H s \<noteq> {}" using lc_pool_fresh [OF s(2) assms(4)] assms(5) by simp
  moreover have "balanced (kh_abs H s)" using zero by (auto simp: s(2) balanced_def ran_def)
  moreover have "total_count (kh_abs H s) = 0" 
    unfolding total_count_def s(2) using zero by (intro sum.neutral) force
  ultimately show ?thesis using lc_selects_balanced [OF s(1)] by simp
qed

theorem lc_selections_balanced_witness:
  "balanced (kh_abs sample_lc_heap (snd (selects (lc_SelectBackend sample_lc_heap sample_env) 5 sample_lc (sample_ep ''::1'' 1)))) \<and>
   total_count (kh_abs sample_lc_heap (snd (selects (lc_SelectBackend sample_lc_heap sample_env) 5 sample_lc (sample_ep ''::1'' 1)))) = 5"
  using sample_lc_laws sample_endpoints sample_denotes
proof (rule lc_selections_balanced)
  show "distinct (map (Backend_ToString sample_env) sample_bs)" unfolding sample_keys by simp
qed (simp_all add: sample_lc_configured(1), simp add: sample_bs_def)

text \<open>Failover reaches a healthy backend, for least connections: configured with distinct keys,
  as many attempts as there are entries suffice to reach an accepting backend if there is one.\<close>

theorem lc_failover_reaches_accepting:
  assumes "heap_laws ConnectionsCompare H G"
    and "endpoints_of Y ''Least connections endpoints node is missed'' node = Inr eps"
    and "denotes E Y eps bs" and "distinct (map (Backend_ToString E) bs)"
    and "lc_Configure H E Y node (kh_new H) = Inr s"
    and "a \<in> set bs" and "\<And>x. backend_eq x a \<Longrightarrow> \<not> refuses x"
  shows "\<exists>b t. failover (lc_SelectBackend H E) (lc_ExcludeBackend H E) (length bs) refuses s c = (Some (Inr b), t) \<and>
    b \<in> set bs \<and> \<not> refuses b"
proof -
  from lc_Configure_abs [OF assms(1-4)] assms(5)
  have s: "lc_ok H G E s" "kh_abs H s = fresh_counters E bs" by auto
  note pool = lc_pool_fresh [OF s(2) assms(4)]
  have "kh_entries H s \<le> length bs"
    using s(2) by (rule fresh_entries)
  then show ?thesis
    using lc.failover_accepting [OF s(1), of a refuses "length bs" c] assms(6,7) unfolding pool by blast
qed

theorem lc_failover_reaches_accepting_witness:
  "\<exists>b t. failover (lc_SelectBackend sample_lc_heap sample_env) (lc_ExcludeBackend sample_lc_heap sample_env) (length sample_bs)
      (\<lambda>b. \<not> backend_eq b (sample_bs ! 1)) sample_lc (sample_ep ''::1'' 1) = (Some (Inr b), t) \<and>
    b \<in> set sample_bs \<and> \<not> \<not> backend_eq b (sample_bs ! 1)"
  using sample_lc_laws sample_endpoints sample_denotes
proof (rule lc_failover_reaches_accepting [where a = "sample_bs ! 1"])
  show "distinct (map (Backend_ToString sample_env) sample_bs)" unfolding sample_keys by simp
qed (simp_all add: sample_lc_configured(1), simp_all add: sample_bs_def)

subsection \<open>Runs of the selector\<close>

datatype 'a lc_op = SelectOp "'a endpoint" | ConnectOp "'a backend" | DisconnectOp "'a backend" | ExcludeOp "'a backend"

fun lc_step :: "('h, 'k, 'a) lc_heap \<Rightarrow> 'a env \<Rightarrow> 'a lc_op \<Rightarrow> ('h, 'k) LeastConnectionsSelector \<Rightarrow>
    ('h, 'k) LeastConnectionsSelector" where
  "lc_step H E (SelectOp c) s = snd (lc_SelectBackend H E s c)"
| "lc_step H E (ConnectOp b) s = IncreaseConnectionCount H E b s"
| "lc_step H E (DisconnectOp b) s = DecreaseConnectionCount H E b s"
| "lc_step H E (ExcludeOp b) s = snd (lc_ExcludeBackend H E s b)"

abbreviation lc_run :: "('h, 'k, 'a) lc_heap \<Rightarrow> 'a env \<Rightarrow> 'a lc_op list \<Rightarrow> ('h, 'k) LeastConnectionsSelector \<Rightarrow>
    ('h, 'k) LeastConnectionsSelector" where
  "lc_run H E ops s \<equiv> fold (lc_step H E) ops s"

definition counters_below :: "nat \<Rightarrow> (string \<Rightarrow> 'a CounterWrapper option) \<Rightarrow> bool" where
  "counters_below n m \<longleftrightarrow> (\<forall>key v. m key = Some v \<longrightarrow> cw_counter v \<le> n)"

lemma counters_below_intros:
  "counters_below n m \<Longrightarrow> counters_below (Suc n) m"
  "counters_below n m \<Longrightarrow> cw_counter w \<le> n \<Longrightarrow> counters_below (Suc n) (m(k \<mapsto> counted w))"
  "counters_below n m \<Longrightarrow> counters_below (Suc n) (m(k := None))"
  by (fastforce simp: counters_below_def le_Suc_eq split: if_splits)+

lemma lc_step_bound:
  assumes "lc_ok H G E s" and "audit_kept (backends_heap (lc_step (audited ConnectionsCompare H) E x (kh_audit s)))"
    and "counters_below n (kh_abs H s)"
  shows "lc_ok H G E (lc_step H E x s) \<and> counters_below (Suc n) (kh_abs H (lc_step H E x s))"
proof -
  have bound: "cw_counter w \<le> n" if "kh_abs H s key = Some w" for key w
    using assms(3) that by (simp add: counters_below_def)
  show ?thesis
  proof (cases x)
    case (SelectOp c)
    show ?thesis
    proof (cases "kh_abs H s = Map.empty")
      case True
      with kh_abs_empty [OF assms(1)] have "h_empty H (backends_heap s)" by simp
      with SelectOp assms show ?thesis by (simp add: lc_SelectBackend_def counters_below_intros)
    next
      case False
      with lc_Select_abs [OF assms(1) this, of c] obtain w where w: "kh_abs H s (Backend_ToString E (cw_b w)) = Some w"
        "kh_abs H (snd (lc_SelectBackend H E s c)) = (kh_abs H s)(Backend_ToString E (cw_b w) \<mapsto> counted w)"
        "lc_ok H G E (snd (lc_SelectBackend H E s c))" by metis
      then have "counters_below (Suc n) (kh_abs H (snd (lc_SelectBackend H E s c)))"
        unfolding w(2) using assms(3) by (intro counters_below_intros) (auto simp: counters_below_def)
      with w(3) SelectOp show ?thesis by simp
    qed
  next
    case (ConnectOp b)
    have "counters_below (Suc n) (case kh_abs H s (Backend_ToString E b) of None \<Rightarrow> kh_abs H s
         | Some w \<Rightarrow> (kh_abs H s)(Backend_ToString E b \<mapsto> counted w))"
      by (cases "kh_abs H s (Backend_ToString E b)")
        (simp_all only: option.case counters_below_intros(1) [OF assms(3)] counters_below_intros(2) [OF assms(3) bound])
    with ConnectOp lc_Increase_abs [OF assms(1)] show ?thesis by simp
  next
    case (DisconnectOp b)
    with assms(2) have "DecreaseConnectionCount H E b s = s" by (intro lc_Decrease_documented) simp
    with DisconnectOp assms show ?thesis by (simp add: counters_below_intros)
  next
    case (ExcludeOp b)
    show ?thesis
    proof (cases "handle_pool s (Backend_ToString E b)")
      case None
      with ExcludeOp assms show ?thesis by (simp add: lc_exclude_defs counters_below_intros)
    next
      case (Some k)
      then have "kh_abs H s (Backend_ToString E b) \<noteq> None" by (simp add: kh_abs_def)
      from kh_exclude_abs [OF assms(1) this, folded lc_ExcludeBackend_def] ExcludeOp assms(3) show ?thesis
        by (simp add: counters_below_intros del: fun_upd_apply)
    qed
  qed
qed

text \<open>
  So a counter can only wrap around after \<^verbatim>\<open>2^64\<close> operations, as long as all of them call the
  heap as documented.
\<close>

primrec lc_documented :: "('h, 'k, 'a) lc_heap \<Rightarrow> 'a env \<Rightarrow> 'a lc_op list \<Rightarrow> ('h, 'k) LeastConnectionsSelector \<Rightarrow> bool" where
  "lc_documented H E [] s \<longleftrightarrow> True"
| "lc_documented H E (x # ops) s \<longleftrightarrow>
     audit_kept (backends_heap (lc_step (audited ConnectionsCompare H) E x (kh_audit s))) \<and> lc_documented H E ops (lc_step H E x s)"

lemma lc_counter_bound:
  assumes "lc_ok H G E s" and "lc_documented H E ops s" and "counters_below n (kh_abs H s)"
  shows "lc_ok H G E (lc_run H E ops s) \<and> counters_below (n + length ops) (kh_abs H (lc_run H E ops s))"
  using assms
proof (induction ops arbitrary: s n)
  case (Cons x ops)
  then have "audit_kept (backends_heap (lc_step (audited ConnectionsCompare H) E x (kh_audit s)))" by simp
  from lc_step_bound [OF Cons.prems(1) this Cons.prems(3)] Cons.IH [of "lc_step H E x s" "Suc n"] Cons.prems(2)
  show ?case by simp
qed simp

subsection \<open>Where the selector misuses its heap\<close>

definition stale_run :: "sample_addr lc_op list" where
  "stale_run = [SelectOp (sample_ep ''::1'' 1), SelectOp (sample_ep ''::1'' 1), SelectOp (sample_ep ''::1'' 1),
     DisconnectOp (sample_bs ! 0), DisconnectOp (sample_bs ! 0)]"

abbreviation stale_heap :: "(sample_addr CounterWrapper lheap, nat, sample_addr) lc_heap" where
  "stale_heap \<equiv> remembering_heap ConnectionsCompare"

definition stale_state :: "(sample_addr CounterWrapper lheap, nat) LeastConnectionsSelector" where
  "stale_state = lc_run stale_heap sample_env stale_run
     (case rfold (lc_InsertBackend stale_heap sample_env) (kh_new stale_heap) sample_bs of Inr s \<Rightarrow> s | Inl e \<Rightarrow> kh_new stale_heap)"

text \<open>\<^verbatim>\<open>DecreaseConnectionCount\<close> lowers the counter, which raises the priority, and then
  calls \<^verbatim>\<open>decrease\<close>, outside that function's precondition. On a heap that does what the
  documentation promises and no more, the selector then returns a backend with one connection
  while another has none.\<close>

theorem lc_decrease_outside_contract:
  "heap_laws ConnectionsCompare stale_heap (lheap_view ConnectionsCompare) \<and>
   kh_abs stale_heap stale_state ''127.0.0.1:8080'' = Some \<lparr>cw_b = sample_bs ! 0, cw_counter = 0\<rparr> \<and>
   kh_abs stale_heap stale_state ''127.0.0.1:8081'' = Some \<lparr>cw_b = sample_bs ! 1, cw_counter = 1\<rparr> \<and>
   fst (lc_SelectBackend stale_heap sample_env stale_state c) = Inr (sample_bs ! 1)"
proof -
  note keys = sample_keys [unfolded sample_bs_def, simplified]
  have state: "stale_state = \<lparr>handle_pool = [''127.0.0.1:8080'' \<mapsto> 0, ''127.0.0.1:8081'' \<mapsto> 1],
     backends_heap = \<lparr>l_next = 2, l_elems = [(0, \<lparr>cw_b = sample_bs ! 0, cw_counter = 0\<rparr>), (1, \<lparr>cw_b = sample_bs ! 1, cw_counter = 1\<rparr>)], l_top = 1\<rparr>\<rparr>"
    by (simp add: stale_state_def stale_run_def sample_bs_def lc_insert_defs zero_count_def kh_new_def lheap_simps l_search_def
        l_push_def l_value_def l_write_def l_promote_def ConnectionsCompare_def keys lc_SelectBackend_def
        IncreaseConnectionCount_def DecreaseConnectionCount_def)
  show ?thesis
    unfolding state by (intro conjI remembering_heap_laws [OF compare_key_order])
      (simp_all add: kh_abs_def lheap_simps l_value_def lc_SelectBackend_def)
qed

lemma lc_insert_total: "\<exists>t. rfold (lc_InsertBackend H E) s bs = Inr t"
proof (induction bs arbitrary: s)
  case (Cons b bs)
  have "\<exists>s'. lc_InsertBackend H E s b = Inr s'" by (auto simp: lc_InsertBackend_def split: prod.split)
  with Cons show ?case by fastforce
qed simp

lemma orphan_failover:
  assumes "heap_laws ConnectionsCompare H G" and "in_order G (backends_heap s)"
    and "handle_pool s = Map.empty" and "elems G (backends_heap s) = [k \<mapsto> w]"
  shows "fst (failover (lc_SelectBackend H E) (lc_ExcludeBackend H E) n (\<lambda>x. True) s c) = None"
proof (induction n)
  case (Suc n)
  have "\<not> h_empty H (backends_heap s)" using heap_empty [OF assms(1,2)] assms(4) by simp
  then have "lc_SelectBackend H E s c = (Inr (cw_b (h_top H (backends_heap s))), s)"
    by (simp add: lc_SelectBackend_def IncreaseConnectionCount_def assms(3))
  moreover have "lc_ExcludeBackend H E s b = (Inr (), s)" for b
    by (simp add: lc_exclude_defs assms(3))
  ultimately show ?case using Suc by simp
qed simp

text \<open>C36. A backend configured twice defeats failover: both entries share one key, so excluding the
  backend erases one element of the heap and leaves the other, which no exclusion can reach any
  more. If the backend refuses connections the retries never end, whatever their number.\<close>

theorem lc_duplicate_retries_forever:
  assumes "heap_laws ConnectionsCompare H G"
    and "rfold (lc_InsertBackend H E) (kh_new H) [b, b] = Inr s"
  shows "fst (failover (lc_SelectBackend H E) (lc_ExcludeBackend H E) n (\<lambda>x. True) s c) = None"
proof -
  let ?w = "zero_count b" and ?key = "Backend_ToString E b"
  obtain k1 h1 where p1: "h_push H ?w (h_new H) = (k1, h1)" by fastforce
  obtain k2 h2 where p2: "h_push H ?w h1 = (k2, h2)" by fastforce
  note new = heap_new [OF assms(1)]
  note push1 = heap_push [OF assms(1) new(1) p1]
  then have in1: "in_order G h1" and el1: "elems G h1 = [k1 \<mapsto> ?w]" by (simp_all add: new(2))
  note push2 = heap_push [OF assms(1) in1 p2]
  then have in2: "in_order G h2" and el2: "elems G h2 = [k1 \<mapsto> ?w, k2 \<mapsto> ?w]" and ne: "k1 \<noteq> k2"
    by (auto simp: el1)
  have "h_value H h1 k1 = ?w" "h_value H h2 k2 = ?w"
    using heap_value [OF assms(1)] el1 el2 by simp_all
  then have s: "s = \<lparr>handle_pool = [?key \<mapsto> k2], backends_heap = h2\<rparr>"
    using assms(2) by (simp add: lc_insert_defs kh_new_def p1 p2)
  show ?thesis
  proof (cases n)
    case (Suc m)
    have "elems G h2 \<noteq> Map.empty" by (simp add: el2)
    from heap_top [OF assms(1) in2 this] obtain k where "elems G h2 k = Some (h_top H h2)" by blast
    then have "h_top H h2 = ?w" by (auto simp: el2 split: if_splits)
    then have top: "cw_b (h_top H h2) = b" by simp
    define h3 where "h3 = h_decrease H k2 (h_write H k2 (counted ?w) h2)"
    have h3: "in_order G h3 \<and> elems G h3 = (elems G h2)(k2 \<mapsto> counted ?w)"
      unfolding h3_def by (rule heap_decrease [OF assms(1) in2, of k2 ?w]) (simp_all add: el2 ConnectionsCompare_def)
    then have "elems G h3 k2 = Some (counted ?w)" by simp
    from heap_erase [OF assms(1) _ this] h3 have
      h4: "in_order G (h_erase H k2 h3)" "elems G (h_erase H k2 h3) = [k1 \<mapsto> ?w]"
      using ne by (auto simp: el2 fun_eq_iff)
    let ?s4 = "\<lparr>handle_pool = Map.empty, backends_heap = h_erase H k2 h3\<rparr>"
    have "\<not> h_empty H h2" using heap_empty [OF assms(1) in2] by (simp add: el2)
    then have sel: "lc_SelectBackend H E s c = (Inr b, \<lparr>handle_pool = [?key \<mapsto> k2], backends_heap = h3\<rparr>)"
      using heap_value [OF assms(1), of h2 k2 ?w]
      by (simp add: s lc_SelectBackend_def top IncreaseConnectionCount_def h3_def el2)
    have "\<not> h_empty H (h_erase H k2 h3)" using heap_empty [OF assms(1) h4(1)] by (simp add: h4(2))
    then have "lc_ExcludeBackend H E \<lparr>handle_pool = [?key \<mapsto> k2], backends_heap = h3\<rparr> b = (Inr (), ?s4)"
      by (simp add: lc_exclude_defs fun_upd_idem)
    moreover have "fst (failover (lc_SelectBackend H E) (lc_ExcludeBackend H E) m (\<lambda>x. True) ?s4 c) = None"
      by (rule orphan_failover [OF assms(1)]) (simp_all add: h4)
    ultimately show ?thesis using Suc sel by simp
  qed simp
qed

theorem lc_duplicate_retries_forever_witness:
  "\<exists>s. rfold (lc_InsertBackend sample_lc_heap sample_env) (kh_new sample_lc_heap) [sample_bs ! 0, sample_bs ! 0] = Inr s \<and>
    fst (failover (lc_SelectBackend sample_lc_heap sample_env) (lc_ExcludeBackend sample_lc_heap sample_env) 1000
      (\<lambda>x. True) s (sample_ep ''::1'' 1)) = None"
proof -
  obtain s where s: "rfold (lc_InsertBackend sample_lc_heap sample_env) (kh_new sample_lc_heap) [sample_bs ! 0, sample_bs ! 0] = Inr s"
    using lc_insert_total by blast
  from lc_duplicate_retries_forever [OF sample_lc_laws s, of 1000] s show ?thesis by blast
qed

end
