(* ===== verification/Double_Arith.thy ===== *)
theory Double_Arith
  imports LB_Prelude "HOL-Library.Log_Nat"
begin

section \<open>Arithmetic of \<^verbatim>\<open>double\<close>\<close>

text \<open>
  A finite \<^verbatim>\<open>double\<close> is the rational it denotes. Every operation of the language is the
  exact one followed by \<^verbatim>\<open>rnd\<close>, rounding to nearest with ties to even: 53 significant bits,
  and no bit below \<^verbatim>\<open>2^-1074\<close>. Infinities are not represented: the only computation of the
  program in doubles stays below \<^verbatim>\<open>2^63\<close> in absolute value (\<^verbatim>\<open>Least_Response_Time\<close>).
\<close>

type_synonym double = rat

text \<open>The exponent of a positive number: \<^verbatim>\<open>2^e <= x < 2^(e+1)\<close>.\<close>

definition binade :: "rat \<Rightarrow> int" where
  "binade x = (let (p, q) = quotient_of x; d = bitlen p - bitlen q
               in if 2 powi d \<le> x then d else d - 1)"

definition quantum_exp :: "rat \<Rightarrow> int" where
  "quantum_exp x = max (binade x - 52) (- 1074)"

definition nearest_even :: "rat \<Rightarrow> int" where
  "nearest_even y =
     (let n = \<lfloor>y\<rfloor>; f = y - of_int n
      in if f < 1 / 2 then n else if f > 1 / 2 then n + 1 else if even n then n else n + 1)"

definition rnd_pos :: "rat \<Rightarrow> double" where
  "rnd_pos x = of_int (nearest_even (x / 2 powi quantum_exp x)) * 2 powi quantum_exp x"

definition rnd :: "rat \<Rightarrow> double" where
  "rnd x = (if x = 0 then 0 else if x < 0 then - rnd_pos (- x) else rnd_pos x)"

definition d_add :: "double \<Rightarrow> double \<Rightarrow> double" where
  "d_add x y = rnd (x + y)"

definition d_sub :: "double \<Rightarrow> double \<Rightarrow> double" where
  "d_sub x y = rnd (x - y)"

definition d_mul :: "double \<Rightarrow> double \<Rightarrow> double" where
  "d_mul x y = rnd (x * y)"

definition double_of_long :: "64 word \<Rightarrow> double" where
  "double_of_long t = rnd (of_int (sint t))"

subsection \<open>Rounding is monotone\<close>

lemma nearest_even_bounds: "\<lfloor>y\<rfloor> \<le> nearest_even y \<and> nearest_even y \<le> \<lfloor>y\<rfloor> + 1"
  by (simp add: nearest_even_def Let_def)

lemma nearest_even_mono: "y \<le> z \<Longrightarrow> nearest_even y \<le> nearest_even z"
proof (cases "\<lfloor>y\<rfloor> = \<lfloor>z\<rfloor>")
  case True
  then show "y \<le> z \<Longrightarrow> ?thesis" by (simp add: nearest_even_def Let_def)
next
  case False
  assume "y \<le> z"
  with False have "\<lfloor>y\<rfloor> + 1 \<le> \<lfloor>z\<rfloor>" using floor_mono [of y z] by linarith
  then show ?thesis using nearest_even_bounds [of y] nearest_even_bounds [of z] by linarith
qed

lemma nearest_even_int [simp]: "nearest_even (of_int n) = n"
  by (simp add: nearest_even_def)

lemma nearest_even_le: "y \<le> of_int n \<Longrightarrow> nearest_even y \<le> n"
  using nearest_even_mono [of y "of_int n"] by simp

lemma nearest_even_ge: "of_int n \<le> y \<Longrightarrow> n \<le> nearest_even y"
  using nearest_even_mono [of "of_int n" y] by simp

lemma two_powi_mono: "m \<le> n \<Longrightarrow> (2 :: rat) powi m \<le> 2 powi n"
  by (rule power_int_increasing) auto

lemma two_powi_less: "m < n \<Longrightarrow> (2 :: rat) powi m < 2 powi n"
  by (rule power_int_strict_increasing) auto

lemma two_powi_pos [simp]: "0 < (2 :: rat) powi n"
  by simp

lemma two_powi_diff: "n \<le> m \<Longrightarrow> (2 :: rat) powi m / 2 powi n = of_int (2 ^ nat (m - n))"
  by (subst power_int_diff [symmetric]) (simp_all add: power_int_def)

lemma binade_bounds:
  assumes "0 < x"
  shows "2 powi binade x \<le> x \<and> x < 2 powi (binade x + 1)"
proof -
  obtain p q where pq: "quotient_of x = (p, q)" by fastforce
  then have q: "0 < q" and x: "x = of_int p / of_int q"
    using quotient_of_denom_pos quotient_of_div by blast+
  with assms have p: "0 < p" by (simp add: zero_less_divide_iff)
  have bound: "2 powi (bitlen n - 1) \<le> (of_int n :: rat) \<and> (of_int n :: rat) < 2 powi bitlen n" if "0 < n" for n
  proof -
    have "bitlen n \<ge> 1" using that bitlen_eq_zero_iff [of n] bitlen_nonneg [of n] by linarith
    moreover have "(of_int (2 ^ nat (bitlen n - 1)) :: rat) \<le> of_int n" "(of_int n :: rat) < of_int (2 ^ nat (bitlen n))"
      unfolding of_int_le_iff of_int_less_iff using bitlen_bounds [OF that] by auto
    ultimately show ?thesis by (simp add: power_int_def)
  qed
  let ?d = "bitlen p - bitlen q"
  have "2 powi (bitlen p - 1) / 2 powi bitlen q \<le> x"
    unfolding x using bound [OF p] bound [OF q] p q by (intro frac_le) auto
  then have lower: "2 powi (?d - 1) \<le> x" by (simp add: power_int_diff [symmetric] algebra_simps)
  have "x < 2 powi bitlen p / 2 powi (bitlen q - 1)"
    unfolding x using bound [OF p] bound [OF q] p by (intro frac_less) auto
  then have "x < 2 powi (?d + 1)" by (simp add: power_int_diff [symmetric] algebra_simps)
  with lower show ?thesis by (simp add: binade_def pq Let_def)
qed

lemma binade_eqI:
  assumes "2 powi e \<le> x" and "x < 2 powi (e + 1)"
  shows "binade x = e"
proof -
  have "0 < x" using assms(1) two_powi_pos [of e] by linarith
  note b = binade_bounds [OF this]
  have "2 powi e < (2 :: rat) powi (binade x + 1)" "2 powi binade x < (2 :: rat) powi (e + 1)"
    using assms b by linarith+
  then have "\<not> binade x + 1 \<le> e" "\<not> e + 1 \<le> binade x"
    using two_powi_mono by (meson not_le)+
  then show ?thesis by linarith
qed

lemma binade_mono: "0 < x \<Longrightarrow> x \<le> y \<Longrightarrow> binade x \<le> binade y"
proof (rule ccontr)
  assume x: "0 < x" "x \<le> y" "\<not> binade x \<le> binade y"
  then have "(2 :: rat) powi (binade y + 1) \<le> 2 powi binade x" by (intro two_powi_mono) simp
  with x binade_bounds [of x] binade_bounds [of y] show False by linarith
qed

lemma rnd_pos_nonneg: "0 \<le> x \<Longrightarrow> 0 \<le> rnd_pos x"
  unfolding rnd_pos_def using nearest_even_ge [of 0 "x / 2 powi quantum_exp x"] by simp

lemma rnd_pos_le_power:
  assumes "0 < x" and "x \<le> 2 powi e" and "quantum_exp x \<le> e"
  shows "rnd_pos x \<le> 2 powi e"
proof -
  let ?q = "quantum_exp x"
  have "x / 2 powi ?q \<le> 2 powi e / 2 powi ?q" using assms(2) by (intro divide_right_mono) auto
  also have "\<dots> = of_int (2 ^ nat (e - ?q))" by (rule two_powi_diff [OF assms(3)])
  finally have "nearest_even (x / 2 powi ?q) \<le> 2 ^ nat (e - ?q)" by (rule nearest_even_le)
  then have "of_int (nearest_even (x / 2 powi ?q)) \<le> (of_int (2 ^ nat (e - ?q)) :: rat)"
    unfolding of_int_le_iff .
  then have "rnd_pos x \<le> of_int (2 ^ nat (e - ?q)) * 2 powi ?q"
    unfolding rnd_pos_def by (intro mult_right_mono) auto
  then show ?thesis unfolding two_powi_diff [OF assms(3), symmetric] by simp
qed

lemma rnd_pos_ge_power:
  assumes "2 powi e \<le> x" and "quantum_exp x \<le> e"
  shows "2 powi e \<le> rnd_pos x"
proof -
  let ?q = "quantum_exp x"
  have "of_int (2 ^ nat (e - ?q)) = (2 powi e / 2 powi ?q :: rat)" by (rule two_powi_diff [OF assms(2), symmetric])
  also have "\<dots> \<le> x / 2 powi ?q" using assms(1) by (intro divide_right_mono) auto
  finally have "2 ^ nat (e - ?q) \<le> nearest_even (x / 2 powi ?q)" by (rule nearest_even_ge)
  then have "(of_int (2 ^ nat (e - ?q)) :: rat) \<le> of_int (nearest_even (x / 2 powi ?q))"
    unfolding of_int_le_iff .
  then have "of_int (2 ^ nat (e - ?q)) * 2 powi ?q \<le> rnd_pos x"
    unfolding rnd_pos_def by (intro mult_right_mono) auto
  then show ?thesis unfolding two_powi_diff [OF assms(2), symmetric] by simp
qed

lemma rnd_pos_mono:
  assumes "0 < x" and "x \<le> y"
  shows "rnd_pos x \<le> rnd_pos y"
proof (cases "quantum_exp x = quantum_exp y")
  case True
  then have "nearest_even (x / 2 powi quantum_exp x) \<le> nearest_even (y / 2 powi quantum_exp y)"
    using assms by (intro nearest_even_mono) (simp add: divide_right_mono)
  then show ?thesis unfolding rnd_pos_def True by (intro mult_right_mono) auto
next
  case False
  have bin: "binade x < binade y" "quantum_exp y \<le> binade y" "quantum_exp x \<le> binade y"
    using False binade_mono [OF assms] by (auto simp: quantum_exp_def)
  have "rnd_pos x \<le> 2 powi binade y"
    using assms binade_bounds [OF assms(1)] bin two_powi_mono [of "binade x + 1" "binade y"]
    by (intro rnd_pos_le_power) auto
  also have "\<dots> \<le> rnd_pos y"
    using assms binade_bounds [of y] bin by (intro rnd_pos_ge_power) auto
  finally show ?thesis .
qed

lemma rnd_mono: "x \<le> y \<Longrightarrow> rnd x \<le> rnd y"
proof -
  assume le: "x \<le> y"
  consider "0 < x" | "x \<le> 0" "0 \<le> y" | "y < 0" using le by linarith
  then show ?thesis
  proof cases
    case 1
    with le show ?thesis by (simp add: rnd_def rnd_pos_mono)
  next
    case 2
    with rnd_pos_nonneg [of "- x"] rnd_pos_nonneg [of y] show ?thesis by (auto simp: rnd_def)
  next
    case 3
    with le rnd_pos_mono [of "- y" "- x"] show ?thesis by (auto simp: rnd_def)
  qed
qed

subsection \<open>Representable numbers\<close>

text \<open>A number with at most 53 significant bits is not rounded.\<close>

lemma rnd_pos_exact:
  assumes "0 < n" and "n < 2 ^ 53" and "- 1074 \<le> k"
  shows "rnd_pos (of_int n * 2 powi k) = of_int n * 2 powi k"
proof -
  let ?x = "of_int n * 2 powi k :: rat"
  have "of_int n < (of_int (2 ^ 53) :: rat)" unfolding of_int_less_iff by (rule assms(2))
  then have "?x < 2 ^ 53 * 2 powi k" by (intro mult_strict_right_mono) auto
  also have "(2 ^ 53 * 2 powi k :: rat) = 2 powi (k + 53)" by (simp add: power_int_add)
  finally have lt: "?x < 2 powi (k + 53)" .
  have pos: "0 < ?x" using assms(1) by simp
  have "2 powi binade ?x < (2 :: rat) powi (k + 53)" using binade_bounds [OF pos] lt by linarith
  then have "binade ?x < k + 53" using two_powi_mono by (meson not_le)
  then have q: "quantum_exp ?x \<le> k" using assms(3) by (simp add: quantum_exp_def)
  then have "?x / 2 powi quantum_exp ?x = of_int (n * 2 ^ nat (k - quantum_exp ?x))"
    unfolding times_divide_eq_right [symmetric] two_powi_diff [OF q] by simp
  then have "rnd_pos ?x = of_int (n * 2 ^ nat (k - quantum_exp ?x)) * 2 powi quantum_exp ?x"
    unfolding rnd_pos_def by (simp only: nearest_even_int)
  also have "\<dots> = of_int n * (2 powi k / 2 powi quantum_exp ?x) * 2 powi quantum_exp ?x"
    unfolding two_powi_diff [OF q] by simp
  also have "\<dots> = ?x" by simp
  finally show ?thesis .
qed

lemma rnd_of_pos: "0 < x \<Longrightarrow> rnd x = rnd_pos x"
  by (simp add: rnd_def)

lemma rnd_of_neg: "x < 0 \<Longrightarrow> rnd x = - rnd_pos (- x)"
  by (simp add: rnd_def)

lemma rnd_exact:
  assumes "\<bar>n\<bar> < 2 ^ 53" and "- 1074 \<le> k"
  shows "rnd (of_int n * 2 powi k) = of_int n * 2 powi k"
proof -
  consider "n = 0" | "0 < n" | "n < 0" by linarith
  then show ?thesis
  proof cases
    case 2
    then have "0 < (of_int n * 2 powi k :: rat)" by simp
    then have "rnd (of_int n * 2 powi k) = rnd_pos (of_int n * 2 powi k)" by (rule rnd_of_pos)
    with 2 rnd_pos_exact [of n k] assms show ?thesis by simp
  next
    case 3
    with rnd_pos_exact [of "- n" k] assms show ?thesis by (simp add: rnd_def mult_less_0_iff)
  qed (simp add: rnd_def)
qed

lemma rnd_minus [simp]: "rnd (- x) = - rnd x"
  by (simp add: rnd_def)

lemma rnd_zero [simp]: "rnd 0 = 0"
  by (simp add: rnd_def)

lemma abs_rnd_le:
  assumes "- b \<le> x" and "x \<le> b" and "rnd b = b"
  shows "\<bar>rnd x\<bar> \<le> b"
  using rnd_mono [OF assms(1)] rnd_mono [OF assms(2)] assms(3) by simp

end
