(* ===== verification/Least_Response_Time.thy ===== *)
theory Least_Response_Time
  imports Keyed_Heap Double_Arith
begin

section \<open>\<^verbatim>\<open>LeastResponseTimeSelector\<close>\<close>

text \<open>
  The heap holds, for each backend, an exponential moving average of its response times, in
  \<^verbatim>\<open>double\<close> (\<^verbatim>\<open>Double_Arith\<close>); its top has the least average. A response time is a
  64-bit signed count of nanoseconds, negative when the clock was set back.
\<close>

record 'a AverageTimeWrapper =
  atw_backend :: "'a backend"
  response_time_ema :: double
  atw_alpha :: double

definition ResponseTimeEMACompare :: "'a AverageTimeWrapper \<Rightarrow> 'a AverageTimeWrapper \<Rightarrow> bool" where
  "ResponseTimeEMACompare lhs rhs \<longleftrightarrow> response_time_ema lhs > response_time_ema rhs"

type_synonym ('h, 'k, 'a) lrt_heap = "('h, 'k, 'a AverageTimeWrapper) heap_ops"
type_synonym ('h, 'k, 'a) lrt_view = "('h, 'k, 'a AverageTimeWrapper) heap_view"
type_synonym ('h, 'k) LeastResponseTimeSelector = "('h, 'k) keyed_heap"

definition new_average :: "'a backend \<Rightarrow> 'a AverageTimeWrapper" where
  "new_average b = \<lparr>atw_backend = b, response_time_ema = 0, atw_alpha = rnd (9 / 10)\<rparr>"

lemma new_average_simps [simp]: "atw_backend (new_average b) = b" "response_time_ema (new_average b) = 0"
  by (simp_all add: new_average_def)

definition lrt_InsertBackend ::
    "('h, 'k, 'a) lrt_heap \<Rightarrow> 'a env \<Rightarrow> ('h, 'k) LeastResponseTimeSelector \<Rightarrow> 'a backend \<Rightarrow>
     ('h, 'k) LeastResponseTimeSelector result" where
  "lrt_InsertBackend H E s b = Inr (kh_insert H E atw_backend (new_average b) s)"

definition lrt_Configure ::
    "('h, 'k, 'a) lrt_heap \<Rightarrow> 'a env \<Rightarrow> 'n yaml \<Rightarrow> 'n \<Rightarrow> ('h, 'k) LeastResponseTimeSelector \<Rightarrow>
     ('h, 'k) LeastResponseTimeSelector result" where
  "lrt_Configure H E Y config s =
     rbind (endpoints_of Y ''Least response time endpoints node is missed'' config)
       (configure_with E Y (lrt_InsertBackend H E) s)"

definition lrt_SelectBackend ::
    "('h, 'k, 'a) lrt_heap \<Rightarrow> ('h, 'k) LeastResponseTimeSelector \<Rightarrow> 'a endpoint \<Rightarrow>
     'a backend result \<times> ('h, 'k) LeastResponseTimeSelector" where
  "lrt_SelectBackend H s notused =
     (if h_empty H (backends_heap s) then (Inl (UndefinedBehaviour ''top of an empty heap''), s)
      else (Inr (atw_backend (h_top H (backends_heap s))), s))"

definition lrt_ExcludeBackend ::
    "('h, 'k, 'a) lrt_heap \<Rightarrow> 'a env \<Rightarrow> ('h, 'k) LeastResponseTimeSelector \<Rightarrow> 'a backend \<Rightarrow>
     unit result \<times> ('h, 'k) LeastResponseTimeSelector" where
  "lrt_ExcludeBackend H E s backend = kh_exclude H E s backend"

definition lrt_Type :: SelectorType where
  "lrt_Type = LEAST_RESPONSE_TIME"

definition next_ema :: "double \<Rightarrow> double \<Rightarrow> 64 word \<Rightarrow> double" where
  "next_ema alpha old_ema response_time =
     d_add (d_mul (d_sub 1 alpha) old_ema) (d_mul alpha (double_of_long response_time))"

definition AddResponseTime ::
    "('h, 'k, 'a) lrt_heap \<Rightarrow> 'a env \<Rightarrow> 'a backend \<Rightarrow> 64 word \<Rightarrow> ('h, 'k) LeastResponseTimeSelector \<Rightarrow>
     ('h, 'k) LeastResponseTimeSelector" where
  "AddResponseTime H E backend response_time s =
     (case handle_pool s (Backend_ToString E backend) of
        None \<Rightarrow> s
      | Some handle \<Rightarrow>
          let w = h_value H (backends_heap s) handle;
              old_ema = response_time_ema w;
              w' = w\<lparr>response_time_ema := next_ema (atw_alpha w) old_ema response_time\<rparr>;
              h = h_write H handle w' (backends_heap s)
          in s\<lparr>backends_heap := (if old_ema > response_time_ema w' then h_decrease H handle h
                               else h_increase H handle h)\<rparr>)"

subsection \<open>The contract\<close>

abbreviation lrt_ok :: "('h, 'k, 'a) lrt_heap \<Rightarrow> ('h, 'k, 'a) lrt_view \<Rightarrow> 'a env \<Rightarrow> ('h, 'k) LeastResponseTimeSelector \<Rightarrow> bool" where
  "lrt_ok H G E s \<equiv> kh_ok ResponseTimeEMACompare H G E atw_backend s"

lemma ema_key_order: "key_order response_time_ema ResponseTimeEMACompare"
  by (simp add: key_order_def ResponseTimeEMACompare_def)

lemma lrt_Select_abs:
  assumes "lrt_ok H G E s" and "kh_abs H s \<noteq> Map.empty"
  obtains w where "kh_abs H s (Backend_ToString E (atw_backend w)) = Some w"
    and "\<And>key v. kh_abs H s key = Some v \<Longrightarrow> response_time_ema w \<le> response_time_ema v"
    and "lrt_SelectBackend H s c = (Inr (atw_backend w), s)"
proof -
  let ?w = "h_top H (backends_heap s)"
  note top = kh_top [OF assms]
  have "response_time_ema ?w \<le> response_time_ema v" if "kh_abs H s key = Some v" for key v
    using top(3) [OF that] by (simp add: ResponseTimeEMACompare_def not_less)
  with top show ?thesis by (intro that [of ?w]) (auto simp: lrt_SelectBackend_def)
qed

interpretation lrt: excluding_selector "lrt_SelectBackend H" "lrt_ExcludeBackend H E" "kh_pool atw_backend H"
  "kh_entries H" "lrt_ok H G E"
proof unfold_locales
  fix s :: "('a, 'b) LeastResponseTimeSelector" and b x :: "'c backend" and c
  assume s: "lrt_ok H G E s"
  show "kh_entries H s = 0 \<longleftrightarrow> kh_pool atw_backend H s = {}"
    by (rule kh_entries_zero [OF s])
  { assume "kh_pool atw_backend H s \<noteq> {}"
    then have "kh_abs H s \<noteq> Map.empty" by auto
    from lrt_Select_abs [OF s this, of c] obtain w where w: "kh_abs H s (Backend_ToString E (atw_backend w)) = Some w"
      "lrt_SelectBackend H s c = (Inr (atw_backend w), s)" by metis
    then show "lrt_ok H G E (snd (lrt_SelectBackend H s c))" using s by simp
    show "kh_pool atw_backend H (snd (lrt_SelectBackend H s c)) = kh_pool atw_backend H s" using w by simp
    show "kh_entries H (snd (lrt_SelectBackend H s c)) = kh_entries H s" using w by simp
    show "\<exists>b \<in> kh_pool atw_backend H s. fst (lrt_SelectBackend H s c) = Inr b"
      using w by (auto intro: ranI) }
  assume b: "b \<in> kh_pool atw_backend H s"
  note laws = kh_exclude_laws [OF s b, folded lrt_ExcludeBackend_def]
  show "lrt_ok H G E (snd (lrt_ExcludeBackend H E s b))" by (rule laws)
  show "kh_pool atw_backend H (snd (lrt_ExcludeBackend H E s b)) \<subseteq> kh_pool atw_backend H s" unfolding laws(2) by blast
  show "kh_entries H (snd (lrt_ExcludeBackend H E s b)) < kh_entries H s" by (rule laws)
  show "fst (lrt_ExcludeBackend H E s b) = (if kh_pool atw_backend H (snd (lrt_ExcludeBackend H E s b)) = {} then Inl all_excluded else Inr ())"
    by (rule laws)
  show "x \<in> kh_pool atw_backend H (snd (lrt_ExcludeBackend H E s b))" if "x \<in> kh_pool atw_backend H s" "\<not> backend_eq x b"
    using that unfolding laws(2) by blast
  show "\<not> backend_eq x b" if "x \<in> kh_pool atw_backend H (snd (lrt_ExcludeBackend H E s b))"
    using that unfolding laws(2) by blast
qed

interpretation lrt: shared_selector "lrt_SelectBackend H" "lrt_ExcludeBackend H E" "kh_pool atw_backend H"
  "kh_entries H" "lrt_ok H G E" "kh_known atw_backend H E"
proof (unfold_locales, goal_cases)
  case (2 s x c)
  then have "kh_abs H s \<noteq> Map.empty" by auto
  from lrt_Select_abs [OF 2(1) this, of c] obtain w where "kh_abs H s (Backend_ToString E (atw_backend w)) = Some w"
    "lrt_SelectBackend H s c = (Inr (atw_backend w), s)" by metis
  with 2(3) show ?case by simp
next
  case (3 s b x)
  then show ?case unfolding lrt_ExcludeBackend_def by (intro kh_exclude_known)
next
  case (4 s b)
  then show ?case unfolding lrt_ExcludeBackend_def by (rule kh_known_laws)
next
  case (5 s b)
  then show ?case unfolding lrt_ExcludeBackend_def by (rule kh_known_laws)
next
  case (6 s b)
  then show ?case unfolding lrt_ExcludeBackend_def by (rule kh_known_laws)
next
  case (7 s b x)
  then show ?case unfolding lrt_ExcludeBackend_def by (intro kh_known_laws(4))
qed blast

subsection \<open>Configuration\<close>

lemma lrt_Configure_abs:
  assumes "heap_laws ResponseTimeEMACompare H G"
    and "endpoints_of Y ''Least response time endpoints node is missed'' node = Inr eps"
    and "denotes E Y eps bs" and "distinct (map (Backend_ToString E) bs)"
  shows "\<exists>s. lrt_Configure H E Y node (kh_new H) = Inr s \<and> lrt_ok H G E s \<and> kh_abs H s = fresh_elems E new_average bs"
proof -
  have "lrt_InsertBackend H E = (\<lambda>s b. Inr (kh_insert H E atw_backend (new_average b) s))"
    by (intro ext) (simp add: lrt_InsertBackend_def)
  with kh_insert_all [of ResponseTimeEMACompare H G E atw_backend "kh_new H" bs new_average]
    kh_ok_new [OF assms(1), of E atw_backend] assms(4)
  obtain s where "rfold (lrt_InsertBackend H E) (kh_new H) bs = Inr s" "lrt_ok H G E s" "kh_abs H s = fresh_elems E new_average bs"
    by auto
  with assms(2,3) show ?thesis by (auto simp: lrt_Configure_def configure_with_denotes)
qed

lemma lrt_pool_fresh:
  "kh_abs H s = fresh_elems E new_average bs \<Longrightarrow> distinct (map (Backend_ToString E) bs) \<Longrightarrow> kh_pool atw_backend H s = set bs"
  by (rule fresh_pool [where mk = new_average]) simp_all

subsection \<open>Response times\<close>

lemma nearest_even_eq: "of_int n - 1 / 2 < y \<Longrightarrow> y < of_int n + 1 / 2 \<Longrightarrow> nearest_even y = n"
proof -
  assume y: "of_int n - 1 / 2 < y" "y < of_int n + 1 / 2"
  show ?thesis
  proof (cases "of_int n \<le> y")
    case True
    with y have "\<lfloor>y\<rfloor> = n" by (simp add: floor_eq_iff)
    with y show ?thesis by (simp add: nearest_even_def)
  next
    case False
    with y have "\<lfloor>y\<rfloor> = n - 1" by (simp add: floor_eq_iff)
    with y show ?thesis by (simp add: nearest_even_def)
  qed
qed

text \<open>The literal \<^verbatim>\<open>0.9\<close> and its complement.\<close>

definition alpha_int :: int where "alpha_int = 8106479329266893"
definition beta_int :: int where "beta_int = 900719925474099"

lemma alpha_value: "rnd (9 / 10) = of_int alpha_int * 2 powi (- 53)"
proof -
  have "binade (9 / 10) = - 1" by (rule binade_eqI) (simp_all add: power_int_def)
  then have q: "quantum_exp (9 / 10) = - 53" by (simp add: quantum_exp_def)
  have "nearest_even (9 / 10 / 2 powi (- 53)) = alpha_int"
    by (rule nearest_even_eq) (simp_all add: alpha_int_def power_int_def field_simps)
  then show ?thesis by (simp add: rnd_of_pos rnd_pos_def q)
qed

lemma beta_value: "d_sub 1 (rnd (9 / 10)) = of_int beta_int * 2 powi (- 53)"
proof -
  have "1 - rnd (9 / 10) = of_int beta_int * 2 powi (- 53)"
    unfolding alpha_value by (simp add: alpha_int_def beta_int_def power_int_def power_divide)
  then show ?thesis unfolding d_sub_def by (simp only:) (rule rnd_exact, simp_all add: beta_int_def)
qed

text \<open>The bound \<^verbatim>\<open>2^63\<close>, and what the two products are at it.\<close>

definition ema_bound :: double where "ema_bound = 2 powi 63"

lemma product_at_bound:
  assumes "0 \<le> n" and "n < 2 ^ 53" and "0 \<le> x" and "x \<le> ema_bound"
  shows "0 \<le> d_mul (of_int n * 2 powi (- 53)) x \<and> d_mul (of_int n * 2 powi (- 53)) x \<le> of_int n * 2 powi 10"
proof -
  let ?a = "of_int n * 2 powi (- 53) :: rat"
  have "0 \<le> ?a * x" using assms by simp
  then have "0 \<le> rnd (?a * x)" using rnd_mono [of 0 "?a * x"] by simp
  moreover have "rnd (?a * x) \<le> rnd (?a * 2 powi 63)"
    using assms by (intro rnd_mono mult_left_mono) (auto simp: ema_bound_def)
  moreover have "?a * 2 powi 63 = of_int n * 2 powi 10"
    by (simp add: power_int_def power_divide)
  moreover have "rnd (of_int n * 2 powi 10) = of_int n * 2 powi 10"
    using assms by (intro rnd_exact) auto
  ultimately show ?thesis unfolding d_mul_def by metis
qed

lemma d_mul_minus: "d_mul a (- x) = - d_mul a x"
  by (simp add: d_mul_def)

lemma product_bound:
  assumes "0 \<le> n" and "n < 2 ^ 53" and "\<bar>x\<bar> \<le> ema_bound"
  shows "\<bar>d_mul (of_int n * 2 powi (- 53)) x\<bar> \<le> of_int n * 2 powi 10"
proof (cases "0 \<le> x")
  case True
  with product_at_bound [OF assms(1,2), of x] assms(3) show ?thesis by auto
next
  case False
  with product_at_bound [OF assms(1,2), of "- x"] assms(3) show ?thesis by (auto simp: d_mul_minus)
qed

lemma double_of_long_bound: "\<bar>double_of_long t\<bar> \<le> ema_bound"
proof -
  have exact: "rnd (2 powi 63) = 2 powi 63" using rnd_exact [of 1 63] by simp
  have t: "- (2 ^ 63) \<le> sint t" "sint t < 2 ^ 63"
    using sint_ge [of t] sint_lt [of t] by simp_all
  have "(of_int (sint t) :: rat) \<le> of_int (2 ^ 63)" "(of_int (- (2 ^ 63)) :: rat) \<le> of_int (sint t)"
    unfolding of_int_le_iff using t by (simp_all only: less_imp_le)
  then have "- (2 powi 63) \<le> (of_int (sint t) :: rat)" "(of_int (sint t) :: rat) \<le> 2 powi 63"
    by (simp_all only: power_int_def) simp_all
  with exact show ?thesis unfolding double_of_long_def ema_bound_def by (intro abs_rnd_le)
qed

lemma next_ema_eq:
  "next_ema (rnd (9 / 10)) x t =
    rnd (d_mul (of_int beta_int * 2 powi (- 53)) x + d_mul (of_int alpha_int * 2 powi (- 53)) (double_of_long t))"
  unfolding next_ema_def beta_value d_add_def unfolding alpha_value ..

lemma next_ema_bound:
  assumes "\<bar>x\<bar> \<le> ema_bound"
  shows "\<bar>next_ema (rnd (9 / 10)) x t\<bar> \<le> ema_bound"
proof -
  let ?p = "d_mul (of_int beta_int * 2 powi (- 53)) x" and ?q = "d_mul (of_int alpha_int * 2 powi (- 53)) (double_of_long t)"
  have ints: "0 \<le> beta_int" "beta_int < 2 ^ 53" "0 \<le> alpha_int" "alpha_int < 2 ^ 53"
    by (simp_all add: alpha_int_def beta_int_def)
  have "\<bar>?p\<bar> \<le> of_int beta_int * 2 powi 10" "\<bar>?q\<bar> \<le> of_int alpha_int * 2 powi 10"
    using product_bound [OF ints(1,2) assms] product_bound [OF ints(3,4) double_of_long_bound [of t]] by blast+
  moreover have "of_int beta_int * 2 powi 10 + of_int alpha_int * 2 powi 10 = ema_bound"
    by (simp add: alpha_int_def beta_int_def ema_bound_def power_int_def)
  ultimately have "- ema_bound \<le> ?p + ?q" "?p + ?q \<le> ema_bound" by linarith+
  moreover have "rnd ema_bound = ema_bound" using rnd_exact [of 1 63] by (simp add: ema_bound_def)
  ultimately show ?thesis unfolding next_ema_eq by (intro abs_rnd_le)
qed

lemma next_ema_nonneg:
  assumes "0 \<le> x" and "0 \<le> sint t"
  shows "0 \<le> next_ema (rnd (9 / 10)) x t"
proof -
  have "(0 :: rat) \<le> of_int (sint t)" using assms(2) by (simp only: of_int_0_le_iff)
  then have "0 \<le> double_of_long t" unfolding double_of_long_def using rnd_mono [of 0] by (metis rnd_zero)
  then have "0 \<le> of_int alpha_int * 2 powi (- 53) * double_of_long t" "0 \<le> of_int beta_int * 2 powi (- 53) * x"
    using assms(1) by (auto simp: alpha_int_def beta_int_def)
  then have "0 \<le> d_mul (of_int beta_int * 2 powi (- 53)) x + d_mul (of_int alpha_int * 2 powi (- 53)) (double_of_long t)"
    unfolding d_mul_def using rnd_mono [of 0] by (metis add_nonneg_nonneg rnd_zero)
  then show ?thesis
    unfolding next_ema_eq using rnd_mono [of 0] by (metis rnd_zero)
qed

text \<open>Whatever the times, the averages stay within \<^verbatim>\<open>2^63\<close>: no operation overflows.\<close>

lemma averages_bounded: "\<bar>x\<bar> \<le> ema_bound \<Longrightarrow> \<bar>fold (\<lambda>t x. next_ema (rnd (9 / 10)) x t) ts x\<bar> \<le> ema_bound"
  by (induction ts arbitrary: x) (auto simp: next_ema_bound)

lemma averages_nonneg:
  "0 \<le> x \<Longrightarrow> \<forall>t \<in> set ts. 0 \<le> sint t \<Longrightarrow> 0 \<le> fold (\<lambda>t x. next_ema (rnd (9 / 10)) x t) ts x"
  by (induction ts arbitrary: x) (auto simp: next_ema_nonneg)

text \<open>
  \<^verbatim>\<open>AddResponseTime\<close> calls \<^verbatim>\<open>decrease\<close> when the average falls, which raises the
  element's priority, and \<^verbatim>\<open>increase\<close> when it grows, which lowers it. Both are outside of the
  documented contract; what is left within it is a response that does not change the average.
\<close>

lemma lrt_Add_audit:
  "audit_kept (backends_heap (AddResponseTime (audited ResponseTimeEMACompare H) E b t (kh_audit s))) \<longleftrightarrow>
    (\<forall>w. kh_abs H s (Backend_ToString E b) = Some w \<longrightarrow> next_ema (atw_alpha w) (response_time_ema w) t = response_time_ema w)"
  by (auto simp: AddResponseTime_def audit_defs ResponseTimeEMACompare_def Let_def kh_abs_def split: option.splits)

lemma lrt_Add_documented:
  assumes "lrt_ok H G E s" and "audit_kept (backends_heap (AddResponseTime (audited ResponseTimeEMACompare H) E b t (kh_audit s)))"
  shows "lrt_ok H G E (AddResponseTime H E b t s)" and "kh_abs H (AddResponseTime H E b t s) = kh_abs H s"
proof -
  let ?key = "Backend_ToString E b" and ?s = "AddResponseTime H E b t s"
  have "lrt_ok H G E ?s \<and> kh_abs H ?s = kh_abs H s"
  proof (cases "handle_pool s ?key")
    case None
    with assms(1) show ?thesis by (simp add: AddResponseTime_def kh_abs_def)
  next
    case (Some k)
    then obtain w where w: "elems G (backends_heap s) k = Some w" using kh_pool_iff [OF assms(1)] by auto
    with Some have abs: "kh_abs H s ?key = Some w" and v: "h_value H (backends_heap s) k = w"
      by (simp_all add: kh_abs_def heap_value [OF kh_okD(1) [OF assms(1)] w])
    from assms(2) abs have same: "next_ema (atw_alpha w) (response_time_ema w) t = response_time_ema w"
      unfolding lrt_Add_audit by blast
    have "\<not> ResponseTimeEMACompare w w" by (simp add: ResponseTimeEMACompare_def)
    from heap_increase [OF kh_okD [OF assms(1)] w this] kh_write [OF assms(1) Some abs, of _ w] same abs
    show ?thesis by (simp add: AddResponseTime_def Some v Let_def fun_upd_idem)
  qed
  then show "lrt_ok H G E ?s" "kh_abs H ?s = kh_abs H s" by blast+
qed

subsection \<open>Selection by the averages\<close>

abbreviation sample_lrt_heap :: "(sample_addr AverageTimeWrapper lheap, nat, sample_addr) lrt_heap" where
  "sample_lrt_heap \<equiv> searching_heap ResponseTimeEMACompare"

abbreviation sample_lrt_view :: "(sample_addr AverageTimeWrapper lheap, nat, sample_addr) lrt_view" where
  "sample_lrt_view \<equiv> lheap_view ResponseTimeEMACompare"

lemma sample_lrt_laws: "heap_laws ResponseTimeEMACompare sample_lrt_heap sample_lrt_view"
  by (rule searching_heap_laws [OF ema_key_order])

lemma sample_bs_not_Nil: "sample_bs \<noteq> []"
  by (simp add: sample_bs_def)

text \<open>C13. \<^verbatim>\<open>SelectBackend\<close> returns a backend with the least average, and changes nothing. This
  needs no more of the heap than its documentation promises, and that its contract has been kept.\<close>

theorem lrt_select_least:
  assumes "lrt_ok H G E s" and "kh_pool atw_backend H s \<noteq> {}"
  shows "\<exists>b w. kh_abs H s (Backend_ToString E b) = Some w \<and> atw_backend w = b \<and>
    (\<forall>v \<in> ran (kh_abs H s). response_time_ema w \<le> response_time_ema v) \<and>
    lrt_SelectBackend H s c = (Inr b, s)"
proof -
  from assms(2) have "kh_abs H s \<noteq> Map.empty" by auto
  from lrt_Select_abs [OF assms(1) this, of c] obtain w where w: "kh_abs H s (Backend_ToString E (atw_backend w)) = Some w"
    "\<And>key v. kh_abs H s key = Some v \<Longrightarrow> response_time_ema w \<le> response_time_ema v"
    "lrt_SelectBackend H s c = (Inr (atw_backend w), s)" by metis
  then show ?thesis by (intro exI [of _ "atw_backend w"] exI [of _ w]) (auto simp: ran_def)
qed

text \<open>A heap with a slow backend and one that was never measured.\<close>

definition sample_measured :: "(sample_addr AverageTimeWrapper lheap, nat) LeastResponseTimeSelector" where
  "sample_measured = kh_insert sample_lrt_heap sample_env atw_backend (new_average (sample_bs ! 1))
     (kh_insert sample_lrt_heap sample_env atw_backend ((new_average (sample_bs ! 0))\<lparr>response_time_ema := 1000\<rparr>) (kh_new sample_lrt_heap))"

lemma sample_measured_ok:
  "lrt_ok sample_lrt_heap sample_lrt_view sample_env sample_measured"
  "kh_abs sample_lrt_heap sample_measured = [''127.0.0.1:8080'' \<mapsto> (new_average (sample_bs ! 0))\<lparr>response_time_ema := 1000\<rparr>,
     ''127.0.0.1:8081'' \<mapsto> new_average (sample_bs ! 1)]"
proof -
  let ?a = "(new_average (sample_bs ! 0))\<lparr>response_time_ema := 1000\<rparr>" and ?b = "new_average (sample_bs ! 1)"
  have keys: "Backend_ToString sample_env (atw_backend ?a) = ''127.0.0.1:8080''"
    "Backend_ToString sample_env (atw_backend ?b) = ''127.0.0.1:8081''"
    using sample_keys by (simp_all add: new_average_def sample_bs_def)
  note new = kh_ok_new [OF sample_lrt_laws, of sample_env atw_backend]
  note first = kh_insert_abs [OF new [THEN conjunct1], of ?a, unfolded keys new [THEN conjunct2], OF refl]
  have none: "kh_abs sample_lrt_heap (kh_insert sample_lrt_heap sample_env atw_backend ?a (kh_new sample_lrt_heap))
      (Backend_ToString sample_env (atw_backend ?b)) = None"
    unfolding first(2) keys by simp
  note second = kh_insert_abs [OF first(1) none, unfolded keys first(2)]
  show "lrt_ok sample_lrt_heap sample_lrt_view sample_env sample_measured"
    unfolding sample_measured_def by (rule second(1))
  show "kh_abs sample_lrt_heap sample_measured = [''127.0.0.1:8080'' \<mapsto> ?a, ''127.0.0.1:8081'' \<mapsto> ?b]"
    unfolding sample_measured_def by (rule second(2))
qed

theorem lrt_select_least_witness:
  "lrt_SelectBackend sample_lrt_heap sample_measured (sample_ep ''::1'' 1) = (Inr (sample_bs ! 1), sample_measured)"
proof -
  have ne: "kh_pool atw_backend sample_lrt_heap sample_measured \<noteq> {}"
    by (auto simp: sample_measured_ok(2) ran_def)
  from lrt_select_least [OF sample_measured_ok(1) ne, of "sample_ep ''::1'' 1"] obtain b w where
    w: "kh_abs sample_lrt_heap sample_measured (Backend_ToString sample_env b) = Some w" "atw_backend w = b"
      "\<forall>v \<in> ran (kh_abs sample_lrt_heap sample_measured). response_time_ema w \<le> response_time_ema v"
      "lrt_SelectBackend sample_lrt_heap sample_measured (sample_ep ''::1'' 1) = (Inr b, sample_measured)"
    by blast
  have "new_average (sample_bs ! 1) \<in> ran (kh_abs sample_lrt_heap sample_measured)"
    unfolding sample_measured_ok(2) by (rule ranI [where a = "''127.0.0.1:8081''"]) simp
  with w(3) have "response_time_ema w \<le> 0" by (metis new_average_simps(2))
  with w(1,2) have "b = sample_bs ! 1"
    unfolding sample_measured_ok(2) by (auto split: if_splits)
  with w(4) show ?thesis by simp
qed

subsection \<open>Where the selector misuses its heap\<close>

lemma next_ema_pos: "1 \<le> sint t \<Longrightarrow> 0 < next_ema (rnd (9 / 10)) 0 t"
proof -
  assume "1 \<le> sint t"
  then have "of_int 1 \<le> (of_int (sint t) :: rat)" unfolding of_int_le_iff .
  then have "rnd 1 \<le> double_of_long t" unfolding double_of_long_def using rnd_mono [of 1] by simp
  then have t: "1 \<le> double_of_long t" using rnd_exact [of 1 0] by simp
  let ?a = "of_int alpha_int * 2 powi (- 53) :: rat"
  have a: "0 < ?a" by (simp add: alpha_int_def)
  have exact: "rnd ?a = ?a" by (rule rnd_exact) (simp_all add: alpha_int_def)
  have "?a * 1 \<le> ?a * double_of_long t" using a t by (intro mult_left_mono) auto
  then have mul: "?a \<le> d_mul ?a (double_of_long t)" unfolding d_mul_def using rnd_mono exact by (metis mult.right_neutral)
  have "d_mul (of_int beta_int * 2 powi (- 53)) 0 = 0" by (simp add: d_mul_def)
  then have "?a \<le> next_ema (rnd (9 / 10)) 0 t"
    unfolding next_ema_eq using rnd_mono [OF mul] exact by simp
  with a show ?thesis by linarith
qed

abbreviation stale_lrt_heap :: "(sample_addr AverageTimeWrapper lheap, nat, sample_addr) lrt_heap" where
  "stale_lrt_heap \<equiv> remembering_heap ResponseTimeEMACompare"

definition stale_lrt :: "(sample_addr AverageTimeWrapper lheap, nat) LeastResponseTimeSelector" where
  "stale_lrt = AddResponseTime stale_lrt_heap sample_env (sample_bs ! 0) 1000
     (kh_insert stale_lrt_heap sample_env atw_backend (new_average (sample_bs ! 1))
       (kh_insert stale_lrt_heap sample_env atw_backend (new_average (sample_bs ! 0)) (kh_new stale_lrt_heap)))"

text \<open>\<^verbatim>\<open>AddResponseTime\<close> has \<^verbatim>\<open>increase\<close> and \<^verbatim>\<open>decrease\<close> the wrong way round for
  its comparison, in which a greater average is a smaller element. On a heap that does what the
  documentation promises and no more, a backend that has just been measured as the slower one
  stays on top and is selected again.\<close>

theorem lrt_heap_calls_swapped:
  "heap_laws ResponseTimeEMACompare stale_lrt_heap (lheap_view ResponseTimeEMACompare) \<and>
   lrt_SelectBackend stale_lrt_heap stale_lrt c = (Inr (sample_bs ! 0), stale_lrt) \<and>
   (\<exists>slow fast. kh_abs stale_lrt_heap stale_lrt ''127.0.0.1:8080'' = Some slow \<and>
      kh_abs stale_lrt_heap stale_lrt ''127.0.0.1:8081'' = Some fast \<and>
      response_time_ema fast < response_time_ema slow)"
proof -
  note keys = sample_keys [unfolded sample_bs_def, simplified]
  let ?v = "next_ema (rnd (9 / 10)) 0 1000"
  have pos: "0 < ?v" by (rule next_ema_pos) simp
  then have le: "\<not> ?v < 0" by simp
  have state: "stale_lrt = \<lparr>handle_pool = [''127.0.0.1:8080'' \<mapsto> 0, ''127.0.0.1:8081'' \<mapsto> 1],
     backends_heap = \<lparr>l_next = 2, l_elems = [(0, (new_average (sample_bs ! 0))\<lparr>response_time_ema := ?v\<rparr>), (1, new_average (sample_bs ! 1))], l_top = 0\<rparr>\<rparr>"
    using le
    by (simp add: stale_lrt_def sample_bs_def kh_insert_def new_average_def kh_new_def lheap_simps l_search_def
        l_push_def l_value_def l_write_def l_promote_def ResponseTimeEMACompare_def keys AddResponseTime_def)
  show ?thesis
    unfolding state
    by (intro conjI remembering_heap_laws [OF ema_key_order])
      (simp_all add: kh_abs_def lheap_simps l_value_def lrt_SelectBackend_def pos)
qed

end
