(* ===== verification/Detect_Selector.thy ===== *)
theory Detect_Selector
  imports Round_Robin Weighted_Round_Robin Ip_Hash Consistent_Hash Least_Connections Least_Response_Time
begin

section \<open>Choosing the selector: \<^verbatim>\<open>DetectSelector\<close>\<close>

text \<open>
  A \<^verbatim>\<open>SelectorPtr\<close> is a pointer to one of the six final classes of \<^verbatim>\<open>ISelector\<close>: a
  datatype with a constructor per class, and the virtual functions are case distinctions. What
  the selectors need of libraries is collected in one record.
\<close>

record ('a, 'h, 'k, 'l, 'm) libs =
  lib_env :: "'a env"
  lib_sort :: "'a WeightWrapper list \<Rightarrow> 'a WeightWrapper list"
  lib_lc :: "('h, 'k, 'a) lc_heap"
  lib_lrt :: "('l, 'm, 'a) lrt_heap"

datatype ('a, 'h, 'k, 'l, 'm) selector =
    RoundRobinS "'a RoundRobinSelector"
  | WeightedRoundRobinS "'a WeightedRoundRobinSelector"
  | IpHashS "'a IpHashSelector"
  | ConsistentHashS "'a ConsistentHashSelector"
  | LeastConnectionsS "('h, 'k) LeastConnectionsSelector"
  | LeastResponseTimeS "('l, 'm) LeastResponseTimeSelector"

definition SelectBackend ::
    "('a, 'h, 'k, 'l, 'm) libs \<Rightarrow> ('a, 'h, 'k, 'l, 'm) selector \<Rightarrow> 'a endpoint \<Rightarrow>
     'a backend result \<times> ('a, 'h, 'k, 'l, 'm) selector" where
  "SelectBackend L sel c =
     (case sel of
        RoundRobinS s \<Rightarrow> apsnd RoundRobinS (rr_SelectBackend s c)
      | WeightedRoundRobinS s \<Rightarrow> apsnd WeightedRoundRobinS (wrr_SelectBackend s c)
      | IpHashS s \<Rightarrow> apsnd IpHashS (ih_SelectBackend (lib_env L) s c)
      | ConsistentHashS s \<Rightarrow> apsnd ConsistentHashS (ch_SelectBackend (lib_env L) s c)
      | LeastConnectionsS s \<Rightarrow> apsnd LeastConnectionsS (lc_SelectBackend (lib_lc L) (lib_env L) s c)
      | LeastResponseTimeS s \<Rightarrow> apsnd LeastResponseTimeS (lrt_SelectBackend (lib_lrt L) s c))"

definition ExcludeBackend ::
    "('a, 'h, 'k, 'l, 'm) libs \<Rightarrow> ('a, 'h, 'k, 'l, 'm) selector \<Rightarrow> 'a backend \<Rightarrow>
     unit result \<times> ('a, 'h, 'k, 'l, 'm) selector" where
  "ExcludeBackend L sel b =
     (case sel of
        RoundRobinS s \<Rightarrow> apsnd RoundRobinS (rr_ExcludeBackend s b)
      | WeightedRoundRobinS s \<Rightarrow> apsnd WeightedRoundRobinS (wrr_ExcludeBackend s b)
      | IpHashS s \<Rightarrow> apsnd IpHashS (ih_ExcludeBackend s b)
      | ConsistentHashS s \<Rightarrow> apsnd ConsistentHashS (ch_ExcludeBackend (lib_env L) s b)
      | LeastConnectionsS s \<Rightarrow> apsnd LeastConnectionsS (lc_ExcludeBackend (lib_lc L) (lib_env L) s b)
      | LeastResponseTimeS s \<Rightarrow> apsnd LeastResponseTimeS (lrt_ExcludeBackend (lib_lrt L) (lib_env L) s b))"

definition selector_Type :: "('a, 'h, 'k, 'l, 'm) selector \<Rightarrow> SelectorType" where
  "selector_Type sel =
     (case sel of
        RoundRobinS s \<Rightarrow> rr_Type
      | WeightedRoundRobinS s \<Rightarrow> wrr_Type
      | IpHashS s \<Rightarrow> ih_Type
      | ConsistentHashS s \<Rightarrow> ch_Type
      | LeastConnectionsS s \<Rightarrow> lc_Type
      | LeastResponseTimeS s \<Rightarrow> lrt_Type)"

definition selector_switch :: "string \<rightharpoonup> SelectorType" where
  "selector_switch = map_of [
     (''round_robin'', ROUND_ROBIN),
     (''weighted_round_robin'', WEIGHTED_ROUND_ROBIN),
     (''consistent_hash'', CONSISTENT_HASH),
     (''ip_hash'', IP_HASH),
     (''least_connections'', LEAST_CONNECTIONS),
     (''least_response_time'', LEAST_RESPONSE_TIME)]"

definition rmap :: "('x \<Rightarrow> 'y) \<Rightarrow> 'x result \<Rightarrow> 'y result" where
  "rmap f r = rbind r (\<lambda>x. Inr (f x))"

definition make_selector ::
    "('a, 'h, 'k, 'l, 'm) libs \<Rightarrow> 'n yaml \<Rightarrow> 'n \<Rightarrow> SelectorType \<Rightarrow> ('a, 'h, 'k, 'l, 'm) selector result" where
  "make_selector L Y balancing_node type =
     (case type of
        ROUND_ROBIN \<Rightarrow> rmap RoundRobinS (rr_Configure (lib_env L) Y balancing_node rr_new)
      | WEIGHTED_ROUND_ROBIN \<Rightarrow>
          rmap WeightedRoundRobinS (wrr_Configure (lib_sort L) (lib_env L) Y balancing_node wrr_new)
      | IP_HASH \<Rightarrow> rmap IpHashS (ih_Configure (lib_env L) Y balancing_node ih_new)
      | CONSISTENT_HASH \<Rightarrow>
          rbind (size_t_field Y balancing_node ''replicas'') (\<lambda>replicas_num.
            if replicas_num = 0 then Inl (RuntimeError ''Missed replicas field!'')
            else rmap ConsistentHashS (ch_Configure (lib_env L) Y balancing_node (ch_new replicas_num)))
      | LEAST_CONNECTIONS \<Rightarrow>
          rmap LeastConnectionsS (lc_Configure (lib_lc L) (lib_env L) Y balancing_node (kh_new (lib_lc L)))
      | LEAST_RESPONSE_TIME \<Rightarrow>
          rmap LeastResponseTimeS (lrt_Configure (lib_lrt L) (lib_env L) Y balancing_node (kh_new (lib_lrt L))))"

definition DetectSelector ::
    "('a, 'h, 'k, 'l, 'm) libs \<Rightarrow> 'n yaml \<Rightarrow> 'n \<Rightarrow> ('a, 'h, 'k, 'l, 'm) selector result" where
  "DetectSelector L Y node =
     rbind (has_field Y node ''load_balancing'') (\<lambda>has_balancing.
       if \<not> has_balancing then Inl (RuntimeError ''Load balancing node missed in configs'')
       else rbind (y_get Y node ''load_balancing'') (\<lambda>balancing_node.
         rbind (has_field Y balancing_node ''algorithm'') (\<lambda>has_algorithm.
           if \<not> has_algorithm then Inl (RuntimeError ''Missed algorithm field!'')
           else rbind (string_field Y balancing_node ''algorithm'') (\<lambda>name.
             case selector_switch name of
               None \<Rightarrow> Inl (RuntimeError (''Unknown balancing algorithm: '' @ name))
             | Some type \<Rightarrow> make_selector L Y balancing_node type))))"

subsection \<open>The contract, for whichever selector was chosen\<close>

record ('a, 'h, 'k, 'l, 'm) views =
  view_lc :: "('h, 'k, 'a) lc_view"
  view_lrt :: "('l, 'm, 'a) lrt_view"

definition sel_pool :: "('a, 'h, 'k, 'l, 'm) libs \<Rightarrow> ('a, 'h, 'k, 'l, 'm) selector \<Rightarrow> 'a backend set" where
  "sel_pool L sel =
     (case sel of
        RoundRobinS s \<Rightarrow> rr_pool s
      | WeightedRoundRobinS s \<Rightarrow> wrr_pool s
      | IpHashS s \<Rightarrow> ih_pool s
      | ConsistentHashS s \<Rightarrow> ring_nodes s
      | LeastConnectionsS s \<Rightarrow> kh_pool cw_b (lib_lc L) s
      | LeastResponseTimeS s \<Rightarrow> kh_pool atw_backend (lib_lrt L) s)"

definition sel_entries :: "('a, 'h, 'k, 'l, 'm) libs \<Rightarrow> ('a, 'h, 'k, 'l, 'm) selector \<Rightarrow> nat" where
  "sel_entries L sel =
     (case sel of
        RoundRobinS s \<Rightarrow> rr_entries s
      | WeightedRoundRobinS s \<Rightarrow> wrr_entries s
      | IpHashS s \<Rightarrow> ih_entries s
      | ConsistentHashS s \<Rightarrow> ch_entries s
      | LeastConnectionsS s \<Rightarrow> kh_entries (lib_lc L) s
      | LeastResponseTimeS s \<Rightarrow> kh_entries (lib_lrt L) s)"

definition sel_inv ::
    "('a, 'h, 'k, 'l, 'm) libs \<Rightarrow> ('a, 'h, 'k, 'l, 'm) views \<Rightarrow> ('a, 'h, 'k, 'l, 'm) selector \<Rightarrow> bool" where
  "sel_inv L V sel =
     (case sel of
        RoundRobinS s \<Rightarrow> True
      | WeightedRoundRobinS s \<Rightarrow> wrr_inv s
      | IpHashS s \<Rightarrow> True
      | ConsistentHashS s \<Rightarrow> ring_ok (BackendCHTraits (lib_env L)) s
      | LeastConnectionsS s \<Rightarrow> lc_ok (lib_lc L) (view_lc V) (lib_env L) s
      | LeastResponseTimeS s \<Rightarrow> lrt_ok (lib_lrt L) (view_lrt V) (lib_env L) s)"

lemmas sel_defs = sel_pool_def sel_entries_def sel_inv_def SelectBackend_def ExcludeBackend_def

interpretation sel: backend_selector "SelectBackend L" "ExcludeBackend L" "sel_pool L" "sel_entries L" "sel_inv L V"
proof (unfold_locales, goal_cases)
  case (1 s)
  then show ?case
    using wrr.entries_zero ch.entries_zero lc.entries_zero lrt.entries_zero
    by (cases s) (simp_all add: sel_defs rr.entries_zero ih.entries_zero, (blast+)?)
next
  case (2 s c)
  then show ?case
    by (cases s) (simp_all add: sel_defs wrr.select_inv ch.select_inv lc.select_inv lrt.select_inv)
next
  case (3 s c)
  then show ?case
    by (cases s) (simp_all add: sel_defs rr.select_pool wrr.select_pool ih.select_pool ch.select_pool lc.select_pool lrt.select_pool)
next
  case (4 s c)
  then show ?case
    by (cases s) (simp_all add: sel_defs rr.select_entries wrr.select_entries ih.select_entries ch.select_entries lc.select_entries lrt.select_entries)
next
  case (5 s c)
  then show ?case
    by (cases s) (simp_all add: sel_defs rr.select_member wrr.select_member ih.select_member ch.select_member lc.select_member lrt.select_member del: bex_simps image_is_empty)
next
  case (6 s b)
  then show ?case
    by (cases s) (simp_all add: sel_defs rr.exclude_inv wrr.exclude_inv ih.exclude_inv ch.exclude_inv lc.exclude_inv lrt.exclude_inv)
next
  case (7 s b)
  then show ?case
    using rr.exclude_subset wrr.exclude_subset ih.exclude_subset ch.exclude_subset lc.exclude_subset lrt.exclude_subset
    by (cases s) (simp_all add: sel_defs)
next
  case (8 s b x)
  then show ?case
    by (cases s) (simp_all add: sel_defs rr.exclude_keeps wrr.exclude_keeps ih.exclude_keeps ch.exclude_keeps lc.exclude_keeps lrt.exclude_keeps)
next
  case (9 s b)
  then show ?case
    by (cases s) (simp_all add: sel_defs rr.exclude_entries wrr.exclude_entries ih.exclude_entries ch.exclude_entries lc.exclude_entries lrt.exclude_entries)
next
  case (10 s b)
  then show ?case
    by (cases s) (simp_all add: sel_defs rr.exclude_result wrr.exclude_result ih.exclude_result ch.exclude_result lc.exclude_result lrt.exclude_result)
qed

text \<open>The contract of a selector that handlers share.\<close>

definition sel_known :: "('a, 'h, 'k, 'l, 'm) libs \<Rightarrow> ('a, 'h, 'k, 'l, 'm) selector \<Rightarrow> 'a backend \<Rightarrow> bool" where
  "sel_known L sel b =
     (case sel of
        RoundRobinS s \<Rightarrow> True
      | WeightedRoundRobinS s \<Rightarrow> True
      | IpHashS s \<Rightarrow> True
      | ConsistentHashS s \<Rightarrow> ring_known (lib_env L) s b
      | LeastConnectionsS s \<Rightarrow> kh_known cw_b (lib_lc L) (lib_env L) s b
      | LeastResponseTimeS s \<Rightarrow> kh_known atw_backend (lib_lrt L) (lib_env L) s b)"

interpretation sel: shared_selector "SelectBackend L" "ExcludeBackend L" "sel_pool L" "sel_entries L" "sel_inv L V" "sel_known L"
proof (unfold_locales, goal_cases)
  case (1 s b)
  then show ?case by (cases s) (simp_all add: sel_defs sel_known_def)
next
  case (2 s x c)
  then show ?case
    using ch.select_known lc.select_known lrt.select_known by (cases s) (simp_all add: sel_defs sel_known_def del: image_is_empty)
next
  case (3 s b x)
  then show ?case
    using ch.exclude_known lc.exclude_known lrt.exclude_known by (cases s) (simp_all add: sel_defs sel_known_def del: image_is_empty)
next
  case (4 s b)
  then show ?case
    using wrr.known_inv ch.known_inv lc.known_inv lrt.known_inv by (cases s) (simp_all add: sel_defs sel_known_def del: image_is_empty)
next
  case (5 s b)
  then show ?case
    by (cases s) (simp_all add: sel_defs sel_known_def rr.known_subset wrr.known_subset ih.known_subset ch.known_subset lc.known_subset lrt.known_subset del: image_is_empty)
next
  case (6 s b)
  then show ?case
    by (cases s) (simp_all add: sel_defs sel_known_def rr.known_result wrr.known_result ih.known_result ch.known_result lc.known_result lrt.known_result del: image_is_empty)
next
  case (7 s b x)
  then show ?case
    using rr.known_keeps wrr.known_keeps ih.known_keeps ch.known_keeps lc.known_keeps lrt.known_keeps
    by (cases s) (simp_all add: sel_defs sel_known_def del: image_is_empty)
qed

text \<open>The entries of a weighted selector may be equal; an exclusion then removes the first only.\<close>

definition sel_single :: "('a, 'h, 'k, 'l, 'm) selector \<Rightarrow> bool" where
  "sel_single sel = (case sel of WeightedRoundRobinS s \<Rightarrow> wrr_distinct s | _ \<Rightarrow> True)"

interpretation sel: exact_selector "SelectBackend L" "ExcludeBackend L" "sel_pool L" "sel_entries L" "sel_inv L V" "sel_known L" sel_single
proof (unfold_locales, goal_cases)
  case (1 s c)
  then show ?case by (cases s) (simp_all add: sel_single_def SelectBackend_def wrr_distinct_steps)
next
  case (2 s b)
  then show ?case by (cases s) (simp_all add: sel_single_def ExcludeBackend_def wrr_distinct_steps)
next
  case (3 s b x)
  show ?case
  proof (cases s)
    case (WeightedRoundRobinS t)
    with 3 wrr_exclude_gone [of t x b] show ?thesis by (simp add: sel_defs sel_single_def)
  next
    case (ConsistentHashS t)
    with 3 ch_known_gone [of "lib_env L" t b x] show ?thesis by (simp add: sel_defs sel_known_def)
  next
    case (LeastConnectionsS t)
    from 3 kh_known_gone [where bk = cw_b] show ?thesis
      unfolding LeastConnectionsS sel_defs sel_known_def lc_ExcludeBackend_def by simp blast
  next
    case (LeastResponseTimeS t)
    from 3 kh_known_gone [where bk = atw_backend] show ?thesis
      unfolding LeastResponseTimeS sel_defs sel_known_def lrt_ExcludeBackend_def by simp blast
  qed (use 3 in \<open>simp_all add: sel_defs rr_defs ih_defs\<close>)
qed

subsection \<open>The heaps watched\<close>

text \<open>
  The selectors on the heaps of \<^verbatim>\<open>Heap_Contract\<close> that record whether the preconditions of
  the heap's functions are met. Selecting and excluding meet them always; only two algorithms
  have a heap.
\<close>

definition audited_libs ::
    "('a, 'h, 'k, 'l, 'm) libs \<Rightarrow>
     ('a, ('h, 'k, 'a CounterWrapper) audit_heap, 'k, ('l, 'm, 'a AverageTimeWrapper) audit_heap, 'm) libs" where
  "audited_libs L = \<lparr>lib_env = lib_env L, lib_sort = lib_sort L, lib_lc = audited ConnectionsCompare (lib_lc L),
     lib_lrt = audited ResponseTimeEMACompare (lib_lrt L)\<rparr>"

definition audit_selector ::
    "('a, 'h, 'k, 'l, 'm) selector \<Rightarrow>
     ('a, ('h, 'k, 'a CounterWrapper) audit_heap, 'k, ('l, 'm, 'a AverageTimeWrapper) audit_heap, 'm) selector" where
  "audit_selector sel =
     (case sel of
        RoundRobinS s \<Rightarrow> RoundRobinS s
      | WeightedRoundRobinS s \<Rightarrow> WeightedRoundRobinS s
      | IpHashS s \<Rightarrow> IpHashS s
      | ConsistentHashS s \<Rightarrow> ConsistentHashS s
      | LeastConnectionsS s \<Rightarrow> LeastConnectionsS (kh_audit s)
      | LeastResponseTimeS s \<Rightarrow> LeastResponseTimeS (kh_audit s))"

definition audit_passed ::
    "('a, ('h, 'k, 'a CounterWrapper) audit_heap, 'k, ('l, 'm, 'a AverageTimeWrapper) audit_heap, 'm) selector \<Rightarrow> bool" where
  "audit_passed sel =
     (case sel of
        LeastConnectionsS s \<Rightarrow> audit_kept (backends_heap s)
      | LeastResponseTimeS s \<Rightarrow> audit_kept (backends_heap s)
      | _ \<Rightarrow> True)"

definition on_heap :: "SelectorType \<Rightarrow> bool" where
  "on_heap type \<longleftrightarrow> type = LEAST_CONNECTIONS \<or> type = LEAST_RESPONSE_TIME"

lemmas selector_Types = selector_Type_def rr_Type_def wrr_Type_def ih_Type_def ch_Type_def lc_Type_def lrt_Type_def

lemma audited_libs_simps [simp]:
  "lib_env (audited_libs L) = lib_env L" "lib_sort (audited_libs L) = lib_sort L"
  "lib_lc (audited_libs L) = audited ConnectionsCompare (lib_lc L)"
  "lib_lrt (audited_libs L) = audited ResponseTimeEMACompare (lib_lrt L)"
  by (simp_all add: audited_libs_def)

lemma selector_Type_audit [simp]: "selector_Type (audit_selector s) = selector_Type s"
  by (cases s) (simp_all add: audit_selector_def selector_Types)

lemma audit_selector_passed [simp]: "audit_passed (audit_selector s)"
  by (cases s) (simp_all add: audit_selector_def audit_passed_def audit_defs)

lemma audit_passed_off_heap: "\<not> on_heap (selector_Type s) \<Longrightarrow> audit_passed s"
  by (cases s) (simp_all add: audit_passed_def on_heap_def selector_Types)

lemma Select_audit [simp]: "audit_passed (snd (SelectBackend (audited_libs L) (audit_selector s) c))"
proof (cases s)
  case (LeastConnectionsS t)
  then show ?thesis by (simp add: SelectBackend_def audit_selector_def audit_passed_def lc_Select_audit)
next
  case (LeastResponseTimeS t)
  then show ?thesis by (auto simp: SelectBackend_def audit_selector_def audit_passed_def lrt_SelectBackend_def audit_defs)
qed (simp_all add: SelectBackend_def audit_selector_def audit_passed_def)

lemma Exclude_audit [simp]: "audit_passed (snd (ExcludeBackend (audited_libs L) (audit_selector s) b))"
  by (cases s) (simp_all add: ExcludeBackend_def audit_selector_def audit_passed_def lc_ExcludeBackend_def
      lrt_ExcludeBackend_def kh_exclude_audit)

subsection \<open>A configured selector keeps the contract\<close>

definition libs_ok :: "('a, 'h, 'k, 'l, 'm) libs \<Rightarrow> ('a, 'h, 'k, 'l, 'm) views \<Rightarrow> bool" where
  "libs_ok L V \<longleftrightarrow> heap_laws ConnectionsCompare (lib_lc L) (view_lc V) \<and>
     heap_laws ResponseTimeEMACompare (lib_lrt L) (view_lrt V)"

text \<open>
  The keyed selectors need the entries of the configuration to print differently, and consistent
  hashing needs the points of the ring not to collide with a node's own.
\<close>

definition clash_free :: "'a env \<Rightarrow> 'n yaml \<Rightarrow> 'n \<Rightarrow> bool" where
  "clash_free E Y balancing_node \<longleftrightarrow>
     (\<forall>ep_node bs. y_get Y balancing_node ''endpoints'' = Inr ep_node \<and> denotes E Y (y_elems Y ep_node) bs \<longrightarrow>
        distinct (map (Backend_ToString E) bs) \<and>
        (\<forall>r. size_t_field Y balancing_node ''replicas'' = Inr r \<longrightarrow> keys_kept E r bs))"

lemma endpoints_of_get: "endpoints_of Y msg node = Inr eps \<Longrightarrow> \<exists>n. y_get Y node ''endpoints'' = Inr n \<and> eps = y_elems Y n"
  by (auto simp: endpoints_of_def split: if_splits)

lemma clash_free_keys:
  assumes "clash_free E Y node" and "endpoints_of Y msg node = Inr eps" and "denotes E Y eps bs"
  shows "distinct (map (Backend_ToString E) bs)"
    and "size_t_field Y node ''replicas'' = Inr r \<Longrightarrow> keys_kept E r bs"
  using assms endpoints_of_get [OF assms(2)] by (auto simp: clash_free_def)

lemma wrr_Configure_inv: "wrr_Configure srt E Y node wrr_new = Inr t \<Longrightarrow> wrr_inv t"
  by (auto simp: wrr_Configure_def wrr_loop wrr_new_def wrr_inv_def)

lemma make_selector_inv:
  assumes "make_selector L Y node type = Inr s" and "libs_ok L V" and "clash_free (lib_env L) Y node"
  shows "sel_inv L V s \<and> selector_Type s = type"
proof (cases type)
  case ROUND_ROBIN
  with assms(1) show ?thesis by (auto simp: make_selector_def rmap_def sel_inv_def selector_Type_def rr_Type_def)
next
  case WEIGHTED_ROUND_ROBIN
  with assms(1) show ?thesis
    by (auto simp: make_selector_def rmap_def sel_inv_def selector_Type_def wrr_Type_def wrr_Configure_inv)
next
  case IP_HASH
  with assms(1) show ?thesis by (auto simp: make_selector_def rmap_def sel_inv_def selector_Type_def ih_Type_def)
next
  case CONSISTENT_HASH
  with assms(1) obtain r t where t: "size_t_field Y node ''replicas'' = Inr r"
    "ch_Configure (lib_env L) Y node (ch_new r) = Inr t" "s = ConsistentHashS t"
    by (auto simp: make_selector_def rmap_def split: if_splits)
  from t(2) obtain eps bs where "endpoints_of Y ''Consistent hash endpoints node is missed'' node = Inr eps"
    "denotes (lib_env L) Y eps bs" "keys_kept (lib_env L) r bs \<Longrightarrow> ring_ok (BackendCHTraits (lib_env L)) t"
    by (rule ch_Configure_nodes) blast
  with clash_free_keys(2) [OF assms(3) _ _ t(1)] t(3) CONSISTENT_HASH show ?thesis
    by (simp add: sel_inv_def selector_Type_def ch_Type_def)
next
  case LEAST_CONNECTIONS
  with assms(1) obtain t where t: "lc_Configure (lib_lc L) (lib_env L) Y node (kh_new (lib_lc L)) = Inr t" "s = LeastConnectionsS t"
    by (auto simp: make_selector_def rmap_def)
  then obtain eps bs where e: "endpoints_of Y ''Least connections endpoints node is missed'' node = Inr eps"
    "denotes (lib_env L) Y eps bs"
    by (auto simp: lc_Configure_def configure_with_denotes)
  from lc_Configure_abs [OF _ e clash_free_keys(1) [OF assms(3) e]] assms(2) t LEAST_CONNECTIONS show ?thesis
    by (fastforce simp: sel_inv_def selector_Type_def lc_Type_def libs_ok_def)
next
  case LEAST_RESPONSE_TIME
  with assms(1) obtain t where t: "lrt_Configure (lib_lrt L) (lib_env L) Y node (kh_new (lib_lrt L)) = Inr t" "s = LeastResponseTimeS t"
    by (auto simp: make_selector_def rmap_def)
  then obtain eps bs where e: "endpoints_of Y ''Least response time endpoints node is missed'' node = Inr eps"
    "denotes (lib_env L) Y eps bs"
    by (auto simp: lrt_Configure_def configure_with_denotes)
  from lrt_Configure_abs [OF _ e clash_free_keys(1) [OF assms(3) e]] assms(2) t LEAST_RESPONSE_TIME show ?thesis
    by (fastforce simp: sel_inv_def selector_Type_def lrt_Type_def libs_ok_def)
qed

lemma DetectSelector_cases:
  assumes "DetectSelector L Y node = Inr s"
  obtains balancing_node name type where "y_get Y node ''load_balancing'' = Inr balancing_node"
    and "string_field Y balancing_node ''algorithm'' = Inr name" and "selector_switch name = Some type"
    and "make_selector L Y balancing_node type = Inr s"
  using assms that by (auto simp: DetectSelector_def split: if_splits option.splits)

lemma configured_inv:
  assumes "DetectSelector L Y node = Inr s" and "libs_ok L V"
    and "y_get Y node ''load_balancing'' = Inr balancing_node" and "clash_free (lib_env L) Y balancing_node"
  shows "sel_inv L V s"
proof -
  from assms(1) obtain bn name type where "y_get Y node ''load_balancing'' = Inr bn" "make_selector L Y bn type = Inr s"
    by (rule DetectSelector_cases)
  with assms(3) have "make_selector L Y balancing_node type = Inr s" by simp
  from make_selector_inv [OF this assms(2,4)] show ?thesis ..
qed

text \<open>C1. Failover, whichever algorithm is configured: for a configuration without clashing keys, if a
  backend of the selector accepts connections, then asking for a backend, excluding it when it
  refuses and asking again reaches an accepting backend within as many attempts as there are
  entries; if none does, the attempts end in the exception that all backends are excluded.\<close>

theorem configured_failover:
  assumes "DetectSelector L Y node = Inr s" and "libs_ok L V"
    and "y_get Y node ''load_balancing'' = Inr balancing_node" and "clash_free (lib_env L) Y balancing_node"
    and "sel_pool L s \<noteq> {}" and "\<And>x y. backend_eq x y \<Longrightarrow> refuses x = refuses y"
  shows "\<exists>r t. failover (SelectBackend L) (ExcludeBackend L) (sel_entries L s) refuses s c = (Some r, t) \<and>
    (case r of Inr b \<Rightarrow> b \<in> sel_pool L s \<and> \<not> refuses b
     | Inl e \<Rightarrow> e = all_excluded \<and> (\<forall>b \<in> sel_pool L s. refuses b) \<and> sel_pool L t = {})"
proof -
  note inv = configured_inv [OF assms(1-4)]
  show ?thesis
  proof (cases "\<exists>a \<in> sel_pool L s. \<not> refuses a")
    case True
    then obtain a where a: "a \<in> sel_pool L s" "\<not> refuses a" by blast
    with assms(6) have "\<And>x. backend_eq x a \<Longrightarrow> \<not> refuses x" by blast
    from sel.failover_accepting [OF inv a(1) this order.refl, where c = c] show ?thesis by fastforce
  next
    case False
    then have "\<forall>x \<in> sel_pool L s. refuses x" by blast
    from sel.failover_all_refuse [OF inv assms(5) this order.refl, where c = c] this show ?thesis by fastforce
  qed
qed

definition sample_libs ::
    "(sample_addr, sample_addr CounterWrapper lheap, nat, sample_addr AverageTimeWrapper lheap, nat) libs" where
  "sample_libs = \<lparr>lib_env = sample_env, lib_sort = sample_sort, lib_lc = sample_lc_heap, lib_lrt = sample_lrt_heap\<rparr>"

definition sample_views ::
    "(sample_addr, sample_addr CounterWrapper lheap, nat, sample_addr AverageTimeWrapper lheap, nat) views" where
  "sample_views = \<lparr>view_lc = sample_lc_view, view_lrt = sample_lrt_view\<rparr>"

lemma sample_libs_ok: "libs_ok sample_libs sample_views"
  by (simp add: libs_ok_def sample_libs_def sample_views_def sample_lc_laws sample_lrt_laws)

definition sample_balancing :: "string \<Rightarrow> ynode" where
  "sample_balancing algorithm = YMap [(''algorithm'', YScalar algorithm), (''endpoints'', YSeq sample_eps)]"

definition sample_config :: "string \<Rightarrow> ynode" where
  "sample_config algorithm = YMap [(''load_balancing'', sample_balancing algorithm)]"

lemma sample_balancing_fields:
  "y_get sample_yaml (sample_config a) ''load_balancing'' = Inr (sample_balancing a)"
  "y_get sample_yaml (sample_balancing a) ''endpoints'' = Inr (YSeq sample_eps)"
  "endpoints_of sample_yaml msg (sample_balancing a) = Inr sample_eps"
  "size_t_field sample_yaml (sample_balancing a) ''replicas'' = Inl (YamlError ''bad conversion'')"
  by (simp_all add: sample_config_def sample_balancing_def sample_yaml_simps endpoints_of_def)

lemma sample_clash_free: "clash_free sample_env sample_yaml (sample_balancing a)"
proof -
  have "bs = sample_bs" if "denotes sample_env sample_yaml sample_eps bs" for bs
    using denotes_unique [OF that sample_denotes] .
  moreover have "y_elems sample_yaml (YSeq sample_eps) = sample_eps" by (simp add: sample_yaml_def)
  ultimately show ?thesis
    using sample_distinct by (auto simp: clash_free_def sample_balancing_fields)
qed

lemma sample_libs_clash_free: "clash_free (lib_env sample_libs) sample_yaml (sample_balancing a)"
  using sample_clash_free [of a] by (simp add: sample_libs_def)

lemma sample_detect_rr:
  assumes "has_field sample_yaml node ''load_balancing'' = Inr True"
    and "y_get sample_yaml node ''load_balancing'' = Inr (sample_balancing ''round_robin'')"
  shows "DetectSelector sample_libs sample_yaml node = Inr (RoundRobinS \<lparr>rr_counter = 0, rr_backends = sample_bs\<rparr>)"
proof -
  have "\<exists>t. rr_Configure sample_env sample_yaml (sample_balancing ''round_robin'') rr_new = Inr t \<and> t = \<lparr>rr_counter = 0, rr_backends = sample_bs\<rparr>"
    using sample_denotes
    by (auto simp: rr_Configure_def sample_balancing_fields configure_with_denotes sample_bs_def rr_emplace_back_def rr_new_def)
  moreover have "has_field sample_yaml (sample_balancing ''round_robin'') ''algorithm'' = Inr True"
    "string_field sample_yaml (sample_balancing ''round_robin'') ''algorithm'' = Inr ''round_robin''"
    by (simp_all add: sample_balancing_def sample_yaml_simps)
  ultimately show ?thesis
    using assms by (simp add: DetectSelector_def selector_switch_def make_selector_def rmap_def sample_libs_def)
qed

lemma sample_detect:
  "\<exists>t. lc_ok sample_lc_heap sample_lc_view sample_env t \<and> kh_abs sample_lc_heap t = fresh_counters sample_env sample_bs \<and>
    DetectSelector sample_libs sample_yaml (sample_config ''least_connections'') = Inr (LeastConnectionsS t)"
proof -
  from lc_Configure_abs [OF sample_lc_laws sample_balancing_fields(3) sample_denotes sample_distinct]
  obtain t where t: "lc_Configure sample_lc_heap sample_env sample_yaml (sample_balancing ''least_connections'') (kh_new sample_lc_heap) = Inr t"
    "lc_ok sample_lc_heap sample_lc_view sample_env t" "kh_abs sample_lc_heap t = fresh_counters sample_env sample_bs" by blast
  have "has_field sample_yaml (sample_config ''least_connections'') ''load_balancing'' = Inr True"
    "has_field sample_yaml (sample_balancing ''least_connections'') ''algorithm'' = Inr True"
    "string_field sample_yaml (sample_balancing ''least_connections'') ''algorithm'' = Inr ''least_connections''"
    by (simp_all add: sample_config_def sample_balancing_def sample_yaml_simps)
  then have "DetectSelector sample_libs sample_yaml (sample_config ''least_connections'') = Inr (LeastConnectionsS t)"
    by (simp add: DetectSelector_def sample_balancing_fields selector_switch_def make_selector_def rmap_def sample_libs_def t(1))
  with t show ?thesis by blast
qed

theorem configured_failover_witness:
  "\<exists>s r t. DetectSelector sample_libs sample_yaml (sample_config ''least_connections'') = Inr s \<and>
    failover (SelectBackend sample_libs) (ExcludeBackend sample_libs) (sel_entries sample_libs s)
      (\<lambda>b. backend_eq b (sample_bs ! 0)) s (sample_ep ''::1'' 1) = (Some r, t)"
proof -
  obtain t where t: "lc_ok sample_lc_heap sample_lc_view sample_env t" "kh_abs sample_lc_heap t = fresh_counters sample_env sample_bs"
    "DetectSelector sample_libs sample_yaml (sample_config ''least_connections'') = Inr (LeastConnectionsS t)"
    using sample_detect by blast
  have pool: "sel_pool sample_libs (LeastConnectionsS t) \<noteq> {}"
    using lc_pool_fresh [OF t(2) sample_distinct] by (simp add: sel_pool_def sample_libs_def sample_bs_def)
  have eqv: "backend_eq x (sample_bs ! 0) = backend_eq y (sample_bs ! 0)" if "backend_eq x y" for x y
    using that backend_eq_trans backend_eq_sym by blast
  from configured_failover [OF t(3) sample_libs_ok sample_balancing_fields(1) sample_libs_clash_free pool, where refuses = "\<lambda>b. backend_eq b (sample_bs ! 0)", OF eqv, where c = "sample_ep ''::1'' 1"]
  obtain r u where "failover (SelectBackend sample_libs) (ExcludeBackend sample_libs) (sel_entries sample_libs (LeastConnectionsS t))
      (\<lambda>b. backend_eq b (sample_bs ! 0)) (LeastConnectionsS t) (sample_ep ''::1'' 1) = (Some r, u)" by blast
  with t(3) show ?thesis by blast
qed

text \<open>C40. The selector built is the one the configured algorithm names, for each of the six names, and a
  configuration with any other name builds none but ends in the exception that says so.\<close>

theorem DetectSelector_type:
  fixes L :: "('a, 'h, 'k, 'l, 'm) libs"
  assumes "y_get Y node ''load_balancing'' = Inr balancing_node"
    and "has_field Y node ''load_balancing'' = Inr True" and "has_field Y balancing_node ''algorithm'' = Inr True"
    and "string_field Y balancing_node ''algorithm'' = Inr name"
  shows "(\<forall>s. DetectSelector L Y node = Inr s \<longrightarrow>
      name = (case s of
        RoundRobinS t \<Rightarrow> ''round_robin''
      | WeightedRoundRobinS t \<Rightarrow> ''weighted_round_robin''
      | IpHashS t \<Rightarrow> ''ip_hash''
      | ConsistentHashS t \<Rightarrow> ''consistent_hash''
      | LeastConnectionsS t \<Rightarrow> ''least_connections''
      | LeastResponseTimeS t \<Rightarrow> ''least_response_time'')) \<and>
    (name \<notin> {''round_robin'', ''weighted_round_robin'', ''ip_hash'', ''consistent_hash'', ''least_connections'',
        ''least_response_time''} \<longrightarrow>
      (DetectSelector L Y node :: ('a, 'h, 'k, 'l, 'm) selector result) =
        Inl (RuntimeError (''Unknown balancing algorithm: '' @ name)))"
proof (intro conjI allI impI)
  fix s
  assume "DetectSelector L Y node = Inr s"
  then obtain bn n type where d: "y_get Y node ''load_balancing'' = Inr bn" "string_field Y bn ''algorithm'' = Inr n"
    "selector_switch n = Some type" "make_selector L Y bn type = Inr s"
    by (rule DetectSelector_cases)
  with assms(1,4) have "selector_switch name = Some type" by simp
  with d(4) show "name = (case s of RoundRobinS t \<Rightarrow> ''round_robin'' | WeightedRoundRobinS t \<Rightarrow> ''weighted_round_robin''
      | IpHashS t \<Rightarrow> ''ip_hash'' | ConsistentHashS t \<Rightarrow> ''consistent_hash'' | LeastConnectionsS t \<Rightarrow> ''least_connections''
      | LeastResponseTimeS t \<Rightarrow> ''least_response_time'')"
    by (auto simp: selector_switch_def make_selector_def rmap_def split: if_splits)
next
  assume "name \<notin> {''round_robin'', ''weighted_round_robin'', ''ip_hash'', ''consistent_hash'', ''least_connections'',
    ''least_response_time''}"
  then have "selector_switch name = None" by (simp add: selector_switch_def)
  with assms show "DetectSelector L Y node = Inl (RuntimeError (''Unknown balancing algorithm: '' @ name))"
    by (simp add: DetectSelector_def)
qed

theorem DetectSelector_type_witness:
  "(\<exists>t. DetectSelector sample_libs sample_yaml (sample_config ''least_connections'') = Inr (LeastConnectionsS t)) \<and>
    DetectSelector sample_libs sample_yaml (sample_config ''random'') = Inl (RuntimeError ''Unknown balancing algorithm: random'')"
proof -
  have fields: "has_field sample_yaml (sample_config a) ''load_balancing'' = Inr True"
    "has_field sample_yaml (sample_balancing a) ''algorithm'' = Inr True"
    "string_field sample_yaml (sample_balancing a) ''algorithm'' = Inr a" for a
    by (simp_all add: sample_config_def sample_balancing_def sample_yaml_simps)
  obtain s where s: "DetectSelector sample_libs sample_yaml (sample_config ''least_connections'') = Inr s"
    using sample_detect by blast
  note type = DetectSelector_type [where L = sample_libs, OF sample_balancing_fields(1) fields]
  from type [of "''least_connections''", THEN conjunct1] s have "\<exists>t. s = LeastConnectionsS t" by (cases s) auto
  with s type [of "''random''", THEN conjunct2] show ?thesis by auto
qed

end
