(* ===== verification/Http_Session.thy ===== *)
theory Http_Session
  imports LB_Prelude
begin

section \<open>One proxied connection: \<^verbatim>\<open>src/lb/tcp/session.hpp\<close> and \<^verbatim>\<open>session.cpp\<close>\<close>

text \<open>
  An \<^verbatim>\<open>HttpSession\<close> forwards requests of its client to its server and the responses back. It
  runs in handlers: each asynchronous operation holds the only reference to the session
  (\<^verbatim>\<open>shared_from_this\<close>), and its completion handler either starts the next operation or lets
  the reference go, which destroys the session. The state has the operation in flight,
  \<^verbatim>\<open>pending\<close>; a session without one is destroyed when its handler returns.

  What the network does is the input of a step: the error code of the completed operation, the
  message read with the octets read beyond it, and how closing the sockets ends. The visitor
  (\<^verbatim>\<open>StateNotifier\<close>) is a value \<^verbatim>\<open>'v\<close> the session owns, whose member functions act on
  the world \<^verbatim>\<open>'w\<close> outside the session; \<^verbatim>\<open>call\<close> is the virtual dispatch.
\<close>

datatype error_code =
    Success | Eof | EndOfStream | OperationAborted | NotConnected | BadDescriptor | ConnectionRefused
  | OtherError string

datatype notification =
    OnConnect | OnDisconnect | OnResponseReceive | OnResponseSent | OnRequestReceive | OnRequestSent

subsection \<open>Messages\<close>

text \<open>
  A request or response of Beast with a string body: the start line, the header fields and the
  body. \<^verbatim>\<open>clear()\<close> is a member of the fields the message derives from, and removes the fields
  only. \<^verbatim>\<open>http::async_read\<close> reads into a message that must not have previous contents; what it
  makes of one that has a body is left open by its documentation and a parameter here.
\<close>

record message =
  msg_start :: string
  msg_fields :: "(string \<times> string) list"
  msg_body :: string

definition empty_message :: message where
  "empty_message = \<lparr>msg_start = [], msg_fields = [], msg_body = []\<rparr>"

definition clear_fields :: "message \<Rightarrow> message" where
  "clear_fields m = m\<lparr>msg_fields := []\<rparr>"

type_synonym reuse = "message \<Rightarrow> message \<Rightarrow> message"

definition read_into :: "reuse \<Rightarrow> message \<Rightarrow> message \<Rightarrow> message" where
  "read_into R target m = (if msg_body target = [] then m else R target m)"

lemma message_simps [simp]:
  "msg_body empty_message = []" "msg_body (clear_fields m) = msg_body m"
  "msg_body target = [] \<Longrightarrow> read_into R target m = m"
  by (simp_all add: empty_message_def clear_fields_def read_into_def)

datatype async_op = ReadClient | WriteServer message | ReadServer | WriteClient message

subsection \<open>The state of a session\<close>

record 'v HttpSession =
  session_id :: "64 word"
  client_open :: bool
  server_open :: bool
  client_buffer :: string
  server_buffer :: string
  client_request :: message
  server_response :: message
  session_visitor :: "'v option"
  pending :: "async_op option"
  error_log :: "error_code list"

type_synonym ('v, 'w) dispatch = "notification \<Rightarrow> 'v \<Rightarrow> 'w \<Rightarrow> 'v \<times> 'w"
type_synonym ('v, 'w) action =
  "'v HttpSession \<times> 'w \<Rightarrow> unit result \<times> 'v HttpSession \<times> 'w"

text \<open>Statements in sequence: an exception leaves the rest undone.\<close>

definition seq :: "('x \<Rightarrow> unit result \<times> 'x) \<Rightarrow> ('x \<Rightarrow> unit result \<times> 'x) \<Rightarrow> 'x \<Rightarrow> unit result \<times> 'x" where
  "seq f g x = (case f x of (Inl e, y) \<Rightarrow> (Inl e, y) | (Inr _, y) \<Rightarrow> g y)"

subsection \<open>Sockets\<close>

record socket_outcome =
  shutdown_ec :: error_code
  close_ec :: error_code

definition CloseSocket :: "socket_outcome \<Rightarrow> bool \<Rightarrow> unit result \<times> bool \<times> error_code list" where
  "CloseSocket out is_open =
     (if \<not> is_open then (Inr (), False, [])
      else let ec = shutdown_ec out in
        if ec = Success then
          (if close_ec out = Success then (Inr (), False, []) else (Inl (SystemError ''close''), False, []))
        else if ec \<noteq> NotConnected \<and> ec \<noteq> BadDescriptor then (Inr (), True, [ec])
        else (Inr (), True, []))"

definition NeedErrorLogging :: "error_code \<Rightarrow> bool" where
  "NeedErrorLogging ec \<longleftrightarrow> ec \<noteq> Eof \<and> ec \<noteq> EndOfStream \<and> ec \<noteq> OperationAborted"

subsection \<open>The session\<close>

definition generateId :: "64 word \<Rightarrow> 64 word \<times> 64 word" where
  "generateId counter = (counter, counter + 1)"

definition HttpSession_ctor :: "64 word \<Rightarrow> 'v option \<Rightarrow> 'v HttpSession" where
  "HttpSession_ctor i visitor =
     \<lparr>session_id = i, client_open = True, server_open = True, client_buffer = [], server_buffer = [],
      client_request = empty_message, server_response = empty_message, session_visitor = visitor, pending = None, error_log = []\<rparr>"

definition session_Id :: "'v HttpSession \<Rightarrow> 64 word" where
  "session_Id s = session_id s"

definition notify :: "('v, 'w) dispatch \<Rightarrow> notification \<Rightarrow> ('v, 'w) action" where
  "notify call n = (\<lambda>(s, w).
     case session_visitor s of
       None \<Rightarrow> (Inr (), s, w)
     | Some v \<Rightarrow> (let (v', w') = call n v w in (Inr (), s\<lparr>session_visitor := Some v'\<rparr>, w')))"

definition close_client :: "socket_outcome \<Rightarrow> ('v, 'w) action" where
  "close_client out = (\<lambda>(s, w).
     let (r, is_open, lg) = CloseSocket out (client_open s)
     in (r, s\<lparr>client_open := is_open, error_log := error_log s @ lg\<rparr>, w))"

definition close_server :: "socket_outcome \<Rightarrow> ('v, 'w) action" where
  "close_server out = (\<lambda>(s, w).
     let (r, is_open, lg) = CloseSocket out (server_open s)
     in (r, s\<lparr>server_open := is_open, error_log := error_log s @ lg\<rparr>, w))"

definition session_Cancel :: "('v, 'w) dispatch \<Rightarrow> socket_outcome \<times> socket_outcome \<Rightarrow> ('v, 'w) action" where
  "session_Cancel call out =
     seq (close_client (fst out)) (seq (close_server (snd out)) (notify call OnDisconnect))"

definition ClientRead :: "('v, 'w) action" where
  "ClientRead = (\<lambda>(s, w). (Inr (), s\<lparr>client_buffer := [], server_buffer := [], client_request := clear_fields (client_request s),
     server_response := clear_fields (server_response s), pending := Some ReadClient\<rparr>, w))"

definition SendToServer :: "('v, 'w) action" where
  "SendToServer = (\<lambda>(s, w). (Inr (), s\<lparr>pending := Some (WriteServer (client_request s))\<rparr>, w))"

definition ServerRead :: "('v, 'w) action" where
  "ServerRead = (\<lambda>(s, w). (Inr (), s\<lparr>pending := Some ReadServer\<rparr>, w))"

definition SendToClient :: "('v, 'w) action" where
  "SendToClient = (\<lambda>(s, w). (Inr (), s\<lparr>pending := Some (WriteClient (server_response s))\<rparr>, w))"

definition session_Run :: "('v, 'w) dispatch \<Rightarrow> ('v, 'w) action" where
  "session_Run call = seq (notify call OnConnect) ClientRead"

definition log_error :: "error_code \<Rightarrow> ('v, 'w) action" where
  "log_error ec = (\<lambda>(s, w). (Inr (), if NeedErrorLogging ec then s\<lparr>error_log := error_log s @ [ec]\<rparr> else s, w))"

definition HandleClientRead ::
    "('v, 'w) dispatch \<Rightarrow> socket_outcome \<times> socket_outcome \<Rightarrow> error_code \<Rightarrow> ('v, 'w) action" where
  "HandleClientRead call out ec =
     (if ec \<noteq> Success then seq (log_error ec) (session_Cancel call out)
      else seq (notify call OnRequestReceive) SendToServer)"

definition HandleSendToServer ::
    "('v, 'w) dispatch \<Rightarrow> socket_outcome \<times> socket_outcome \<Rightarrow> error_code \<Rightarrow> ('v, 'w) action" where
  "HandleSendToServer call out ec =
     (if ec \<noteq> Success then seq (log_error ec) (session_Cancel call out)
      else seq (notify call OnRequestSent) ServerRead)"

definition HandleServerRead ::
    "('v, 'w) dispatch \<Rightarrow> socket_outcome \<times> socket_outcome \<Rightarrow> error_code \<Rightarrow> ('v, 'w) action" where
  "HandleServerRead call out ec =
     (if ec \<noteq> Success then seq (log_error ec) (session_Cancel call out)
      else seq (notify call OnResponseReceive) SendToClient)"

definition HandleSendToClient ::
    "('v, 'w) dispatch \<Rightarrow> socket_outcome \<times> socket_outcome \<Rightarrow> error_code \<Rightarrow> ('v, 'w) action" where
  "HandleSendToClient call out ec =
     (if ec \<noteq> Success then seq (log_error ec) (session_Cancel call out)
      else seq (notify call OnResponseSent) ClientRead)"

subsection \<open>Completions\<close>

text \<open>
  The completion of the operation in flight. A read that succeeds has stored the message, and left
  the octets that arrived behind it in the buffer. The handler runs with no operation in flight.
\<close>

datatype completion =
    ClientReadDone error_code message string
  | ServerWriteDone error_code
  | ServerReadDone error_code message string
  | ClientWriteDone error_code

definition run_handler ::
    "reuse \<Rightarrow> ('v, 'w) dispatch \<Rightarrow> socket_outcome \<times> socket_outcome \<Rightarrow> completion \<Rightarrow> ('v, 'w) action" where
  "run_handler R call out c = (\<lambda>(s, w).
     let s0 = s\<lparr>pending := None\<rparr> in
     case c of
       ClientReadDone ec q rest \<Rightarrow>
         HandleClientRead call out ec
           (if ec = Success then s0\<lparr>client_request := read_into R (client_request s) q, client_buffer := rest\<rparr> else s0, w)
     | ServerWriteDone ec \<Rightarrow> HandleSendToServer call out ec (s0, w)
     | ServerReadDone ec r rest \<Rightarrow>
         HandleServerRead call out ec
           (if ec = Success then s0\<lparr>server_response := read_into R (server_response s) r, server_buffer := rest\<rparr> else s0, w)
     | ClientWriteDone ec \<Rightarrow> HandleSendToClient call out ec (s0, w))"

fun completes :: "async_op option \<Rightarrow> completion \<Rightarrow> bool" where
  "completes (Some ReadClient) (ClientReadDone ec q rest) = True"
| "completes (Some (WriteServer q)) (ServerWriteDone ec) = True"
| "completes (Some ReadServer) (ServerReadDone ec r rest) = True"
| "completes (Some (WriteClient r)) (ClientWriteDone ec) = True"
| "completes _ _ = False"

text \<open>
  The destructor cancels the session once more. It is \<^verbatim>\<open>noexcept\<close>: an exception in it ends
  the program.
\<close>

datatype fate = Alive | Destroyed | Terminated

definition HttpSession_dtor ::
    "('v, 'w) dispatch \<Rightarrow> socket_outcome \<times> socket_outcome \<Rightarrow> 'v HttpSession \<times> 'w \<Rightarrow>
     fate \<times> 'v HttpSession \<times> 'w" where
  "HttpSession_dtor call out x =
     (case session_Cancel call out x of (Inl e, y) \<Rightarrow> (Terminated, y) | (Inr _, y) \<Rightarrow> (Destroyed, y))"

record session_event =
  ev_completion :: "completion"
  ev_cancel :: "socket_outcome \<times> socket_outcome"
  ev_destroy :: "socket_outcome \<times> socket_outcome"

definition session_step ::
    "reuse \<Rightarrow> ('v, 'w) dispatch \<Rightarrow> session_event \<Rightarrow> 'v HttpSession \<times> 'w \<Rightarrow>
     unit result \<times> fate \<times> 'v HttpSession \<times> 'w" where
  "session_step R call ev x =
     (case run_handler R call (ev_cancel ev) (ev_completion ev) x of
        (r, y) \<Rightarrow> if pending (fst y) = None then (r, HttpSession_dtor call (ev_destroy ev) y) else (r, Alive, y))"

text \<open>The states a running session goes through.\<close>

inductive session_reach ::
    "reuse \<Rightarrow> ('v, 'w) dispatch \<Rightarrow> 'v HttpSession \<times> 'w \<Rightarrow> 'v HttpSession \<times> 'w \<Rightarrow> bool"
  for R call x where
  started: "snd (session_Run call x) = y \<Longrightarrow> session_reach R call x y"
| step: "session_reach R call x y \<Longrightarrow> completes (pending (fst y)) (ev_completion ev) \<Longrightarrow>
    session_step R call ev y = (r, Alive, z) \<Longrightarrow> session_reach R call x z"

lemmas session_defs = seq_def notify_def close_client_def close_server_def session_Cancel_def ClientRead_def
  SendToServer_def ServerRead_def SendToClient_def session_Run_def log_error_def HandleClientRead_def
  HandleSendToServer_def HandleServerRead_def HandleSendToClient_def run_handler_def

subsection \<open>What a step does\<close>

definition completion_ec :: "completion \<Rightarrow> error_code" where
  "completion_ec c = (case c of ClientReadDone ec q rest \<Rightarrow> ec | ServerWriteDone ec \<Rightarrow> ec
     | ServerReadDone ec r rest \<Rightarrow> ec | ClientWriteDone ec \<Rightarrow> ec)"

definition announcement :: "completion \<Rightarrow> notification" where
  "announcement c = (case c of ClientReadDone ec q rest \<Rightarrow> OnRequestReceive | ServerWriteDone ec \<Rightarrow> OnRequestSent
     | ServerReadDone ec r rest \<Rightarrow> OnResponseReceive | ClientWriteDone ec \<Rightarrow> OnResponseSent)"

definition closes :: "socket_outcome \<times> socket_outcome \<Rightarrow> bool" where
  "closes out \<longleftrightarrow> close_ec (fst out) = Success \<and> close_ec (snd out) = Success"

lemma CloseSocket_result: "close_ec out = Success \<Longrightarrow> fst (CloseSocket out b) = Inr ()"
  by (simp add: CloseSocket_def Let_def)

lemma close_effects:
  "snd (snd (close_client out x)) = snd x" "session_visitor (fst (snd (close_client out x))) = session_visitor (fst x)"
  "snd (snd (close_server out x)) = snd x" "session_visitor (fst (snd (close_server out x))) = session_visitor (fst x)"
  "pending (fst (snd (close_client out x))) = pending (fst x)" "pending (fst (snd (close_server out x))) = pending (fst x)"
  by (auto simp: close_client_def close_server_def split: prod.splits)

lemma close_results:
  "close_ec out = Success \<Longrightarrow> fst (close_client out x) = Inr ()"
  "close_ec out = Success \<Longrightarrow> fst (close_server out x) = Inr ()"
  using CloseSocket_result [of out] by (auto simp: close_client_def close_server_def split: prod.splits) (metis fst_conv)+

lemma notify_effects:
  "fst (notify call n x) = Inr ()" "pending (fst (snd (notify call n x))) = pending (fst x)"
  "client_request (fst (snd (notify call n x))) = client_request (fst x)"
  "server_response (fst (snd (notify call n x))) = server_response (fst x)"
  "client_buffer (fst (snd (notify call n x))) = client_buffer (fst x)"
  "server_buffer (fst (snd (notify call n x))) = server_buffer (fst x)"
  by (auto simp: notify_def split: option.splits prod.splits)

text \<open>The effect of a notification on the visitor and the world, whatever the rest of the session is.\<close>

definition told :: "('v, 'w) dispatch \<Rightarrow> notification \<Rightarrow> 'v option \<times> 'w \<Rightarrow> 'v option \<times> 'w" where
  "told call n x = (case x of (None, w) \<Rightarrow> (None, w) | (Some v, w) \<Rightarrow> apfst Some (call n v w))"

abbreviation view :: "'v HttpSession \<times> 'w \<Rightarrow> 'v option \<times> 'w" where
  "view x \<equiv> (session_visitor (fst x), snd x)"

lemma view_notify: "view (snd (notify call n x)) = told call n (view x)"
  by (cases x) (auto simp: notify_def told_def split: option.splits prod.splits)

lemma seq_Inr: "fst (f x) = Inr u \<Longrightarrow> seq f g x = g (snd (f x))"
  by (auto simp: seq_def split: prod.split sum.split)

lemma Cancel_effects:
  assumes "closes out"
  shows "fst (session_Cancel call out x) = Inr ()"
    and "view (snd (session_Cancel call out x)) = told call OnDisconnect (view x)"
    and "pending (fst (snd (session_Cancel call out x))) = pending (fst x)"
proof -
  let ?y = "snd (close_client (fst out) x)"
  let ?z = "snd (close_server (snd out) ?y)"
  have "session_Cancel call out x = notify call OnDisconnect ?z"
    using assms by (simp add: session_Cancel_def closes_def seq_Inr close_results)
  then show "fst (session_Cancel call out x) = Inr ()"
    "view (snd (session_Cancel call out x)) = told call OnDisconnect (view x)"
    "pending (fst (snd (session_Cancel call out x))) = pending (fst x)"
    by (simp_all add: notify_effects view_notify close_effects)
qed

text \<open>The rest of a session after a successful operation: the operation it starts and its messages.\<close>

fun advance :: "reuse \<Rightarrow> 'v HttpSession \<Rightarrow> completion \<Rightarrow> 'v HttpSession" where
  "advance R s (ClientReadDone ec q rest) =
     s\<lparr>client_request := read_into R (client_request s) q, client_buffer := rest,
       pending := Some (WriteServer (read_into R (client_request s) q))\<rparr>"
| "advance R s (ServerWriteDone ec) = s\<lparr>pending := Some ReadServer\<rparr>"
| "advance R s (ServerReadDone ec r rest) =
     s\<lparr>server_response := read_into R (server_response s) r, server_buffer := rest,
       pending := Some (WriteClient (read_into R (server_response s) r))\<rparr>"
| "advance R s (ClientWriteDone ec) =
     s\<lparr>client_buffer := [], server_buffer := [], client_request := clear_fields (client_request s),
       server_response := clear_fields (server_response s), pending := Some ReadClient\<rparr>"

definition sans_visitor :: "'v HttpSession \<Rightarrow> 'v HttpSession" where
  "sans_visitor s = s\<lparr>session_visitor := None\<rparr>"

text \<open>An operation that succeeded is announced, and the next operation of the cycle started.\<close>

lemma run_handler_success:
  assumes "completion_ec c = Success"
  shows "\<exists>y. run_handler R call out c x = (Inr (), y) \<and> view y = told call (announcement c) (view x) \<and>
    sans_visitor (fst y) = sans_visitor (advance R (fst x) c) \<and> pending (fst y) \<noteq> None"
proof -
  obtain s w where x: "x = (s, w)" by fastforce
  show ?thesis
    using assms
    by (cases c; cases "session_visitor s")
      (auto simp: completion_ec_def announcement_def session_defs told_def x sans_visitor_def split: prod.splits)
qed

lemma step_success:
  assumes "completion_ec (ev_completion ev) = Success"
  obtains y where "session_step R call ev x = (Inr (), Alive, y)"
    and "view y = told call (announcement (ev_completion ev)) (view x)"
    and "sans_visitor (fst y) = sans_visitor (advance R (fst x) (ev_completion ev))"
  using run_handler_success [OF assms, of R call "ev_cancel ev" x] that
  by (auto simp: session_step_def split: prod.splits)

lemma advance_fields:
  assumes "sans_visitor s = sans_visitor (advance R t c)"
  shows "pending s = pending (advance R t c)" and "client_request s = client_request (advance R t c)"
    and "server_response s = server_response (advance R t c)" and "client_buffer s = client_buffer (advance R t c)"
  using arg_cong [OF assms, of pending] arg_cong [OF assms, of client_request]
    arg_cong [OF assms, of server_response] arg_cong [OF assms, of client_buffer]
  by (simp_all add: sans_visitor_def)

text \<open>An operation that failed cancels the session, and destroying the session cancels it again.\<close>

lemma run_handler_error:
  assumes "completion_ec c \<noteq> Success"
  shows "run_handler R call out c (s, w) =
    session_Cancel call out (snd (log_error (completion_ec c) (s\<lparr>pending := None\<rparr>, w)))"
  using assms
  by (cases c) (auto simp: run_handler_def completion_ec_def HandleClientRead_def HandleSendToServer_def
      HandleServerRead_def HandleSendToClient_def seq_def log_error_def Let_def)

lemma log_effects: "view (snd (log_error ec x)) = view x" "pending (fst (snd (log_error ec x))) = pending (fst x)"
  by (auto simp: log_error_def split: prod.splits)

lemma Cancel_pending: "pending (fst (snd (session_Cancel call out x))) = pending (fst x)"
  by (auto simp: session_Cancel_def seq_def split: prod.splits sum.splits)
    (metis close_effects(5,6) notify_effects(2) fst_conv snd_conv)+

lemma step_error_not_alive:
  assumes "completion_ec (ev_completion ev) \<noteq> Success"
  shows "fst (snd (session_step R call ev x)) \<noteq> Alive"
proof -
  obtain s w where x: "x = (s, w)" by fastforce
  have "pending (fst (snd (run_handler R call (ev_cancel ev) (ev_completion ev) x))) = None"
    unfolding x run_handler_error [OF assms] Cancel_pending log_effects by simp
  then show ?thesis
    by (auto simp: session_step_def HttpSession_dtor_def split: prod.splits sum.splits)
qed

lemma step_error:
  assumes "completion_ec (ev_completion ev) \<noteq> Success" and "closes (ev_cancel ev)" and "closes (ev_destroy ev)"
  obtains y where "session_step R call ev x = (Inr (), Destroyed, y)"
    and "view y = told call OnDisconnect (told call OnDisconnect (view x))"
proof -
  obtain s w where x: "x = (s, w)" by fastforce
  let ?r = "run_handler R call (ev_cancel ev) (ev_completion ev) x"
  let ?d = "session_Cancel call (ev_destroy ev) (snd ?r)"
  note r = run_handler_error [OF assms(1), of R call "ev_cancel ev" s w, folded x]
  have "fst ?r = Inr ()" "view (snd ?r) = told call OnDisconnect (view x)" "pending (fst (snd ?r)) = None"
    unfolding r Cancel_effects [OF assms(2)] log_effects by (simp_all add: x)
  moreover have "fst ?d = Inr ()" "view (snd ?d) = told call OnDisconnect (view (snd ?r))"
    using Cancel_effects [OF assms(3)] by blast+
  ultimately show ?thesis
    by (intro that [of "snd ?d"]) (auto simp: session_step_def HttpSession_dtor_def split: prod.splits sum.splits)
qed

text \<open>What can be told from the outcome of a step alone.\<close>

lemma Cancel_returned:
  "fst (session_Cancel call out x) = Inr u \<Longrightarrow> view (snd (session_Cancel call out x)) = told call OnDisconnect (view x)"
  by (auto simp: session_Cancel_def seq_def view_notify split: prod.splits sum.splits)
    (metis close_effects(1-4) fst_conv snd_conv view_notify)

lemma run_handler_alive:
  assumes "run_handler R call out c x = (r, y)" and "pending (fst y) \<noteq> None"
  shows "r = Inr () \<and> view y = told call (announcement c) (view x)"
proof -
  obtain s w where x: "x = (s, w)" by fastforce
  have ok: "completion_ec c = Success"
  proof (rule ccontr)
    assume ec: "completion_ec c \<noteq> Success"
    have "pending (fst (snd (run_handler R call out c x))) = None"
      unfolding x run_handler_error [OF ec] Cancel_pending log_effects by simp
    with assms show False by simp
  qed
  from run_handler_success [OF this, of R call out x] assms show ?thesis by auto
qed

lemma run_handler_cancelled:
  assumes "run_handler R call out c x = (Inr u, y)" and "pending (fst y) = None"
  shows "view y = told call OnDisconnect (view x)"
proof -
  obtain s w where x: "x = (s, w)" by fastforce
  have ec: "completion_ec c \<noteq> Success"
    using run_handler_success [of c R call out x] assms by auto
  note h = run_handler_error [OF ec, of R call out s w, folded x]
  from assms(1) have "fst (session_Cancel call out (snd (log_error (completion_ec c) (s\<lparr>pending := None\<rparr>, w)))) = Inr u"
    unfolding h by simp
  from Cancel_returned [OF this] assms(1) show ?thesis
    unfolding h log_effects by (simp add: x)
qed

lemma dtor_destroyed:
  "HttpSession_dtor call out x = (Destroyed, y) \<Longrightarrow> view y = told call OnDisconnect (view x)"
  using Cancel_returned [of call out x] by (auto simp: HttpSession_dtor_def split: prod.splits sum.splits)

text \<open>Whether it throws or not, a handler announces at most one thing.\<close>

lemma Cancel_view:
  "view (snd (session_Cancel call out x)) = view x \<or> view (snd (session_Cancel call out x)) = told call OnDisconnect (view x)"
  by (auto simp: session_Cancel_def seq_def split: prod.splits sum.splits)
    (metis close_effects(1-4) fst_conv snd_conv view_notify)+

lemma handler_view:
  assumes "run_handler R call out c x = (r, y)"
  obtains (succeeded) "completion_ec c = Success" and "r = Inr ()" and "pending (fst y) \<noteq> None"
      and "view y = told call (announcement c) (view x)"
  | (failed) "completion_ec c \<noteq> Success" and "view y = view x \<or> view y = told call OnDisconnect (view x)"
proof (cases "completion_ec c = Success")
  case True
  with run_handler_success [OF True, of R call out x] assms that(1) show ?thesis by auto
next
  case False
  obtain s w where x: "x = (s, w)" by fastforce
  note h = run_handler_error [OF False, of R call out s w, folded x]
  from assms Cancel_view [of call out "snd (log_error (completion_ec c) (s\<lparr>pending := None\<rparr>, w))"]
  have "view y = view x \<or> view y = told call OnDisconnect (view x)"
    unfolding h log_effects by (simp add: x)
  with False that(2) show ?thesis by blast
qed

lemma dtor_view:
  assumes "HttpSession_dtor call out x = (f, y)"
  shows "view y = view x \<or> view y = told call OnDisconnect (view x)"
  using Cancel_view [of call out x] assms by (auto simp: HttpSession_dtor_def split: prod.splits sum.splits)

text \<open>
  What a handler or the destructor announces is told by its result, and its result does not depend on
  what the visitor and the world are.
\<close>

lemma Cancel_result_same:
  "fst (session_Cancel call out (s, w)) = fst (session_Cancel call' out (s, w'))"
proof -
  obtain r t where c: "close_client (fst out) (s, w) = (r, t, w)" "close_client (fst out) (s, w') = (r, t, w')"
    by (cases "CloseSocket (fst out) (client_open s)") (simp add: close_client_def)
  obtain q u where d: "close_server (snd out) (t, w) = (q, u, w)" "close_server (snd out) (t, w') = (q, u, w')"
    by (cases "CloseSocket (snd out) (server_open t)") (simp add: close_server_def)
  have "fst (notify call OnDisconnect (u, w)) = fst (notify call' OnDisconnect (u, w'))"
    by (simp add: notify_effects)
  with c d show ?thesis by (simp add: session_Cancel_def seq_def split: sum.split)
qed

lemma Cancel_tells:
  "view (snd (session_Cancel call out x)) =
    (if isl (fst (session_Cancel call out x)) then view x else told call OnDisconnect (view x))"
proof (cases "fst (session_Cancel call out x)")
  case (Inl e)
  then show ?thesis
    by (auto simp: session_Cancel_def seq_def split: prod.splits sum.splits)
      (metis close_effects(1-4) notify_effects(1) fst_conv snd_conv sum.distinct(1))+
next
  case (Inr u)
  with Cancel_returned [of call out x u] show ?thesis by simp
qed

lemma log_world: "fst (snd (log_error ec (s, w))) = fst (snd (log_error ec (s, w')))" "snd (snd (log_error ec (s, w))) = w"
  by (auto simp: log_error_def)

lemma handler_result_same: "fst (run_handler R call out c (s, w)) = fst (run_handler R call' out c (s, w'))"
proof (cases "completion_ec c = Success")
  case True
  from run_handler_success [OF True, of R call out "(s, w)"] run_handler_success [OF True, of R call' out "(s, w')"]
  show ?thesis by auto
next
  case False
  have "snd (log_error (completion_ec c) (s\<lparr>pending := None\<rparr>, v)) = (fst (snd (log_error (completion_ec c) (s\<lparr>pending := None\<rparr>, w))), v)" for v
    using log_world by (metis prod.collapse)
  then show ?thesis unfolding run_handler_error [OF False] using Cancel_result_same by metis
qed

lemma handler_tells:
  "view (snd (run_handler R call out c x)) =
    (if isl (fst (run_handler R call out c x)) then view x
     else told call (if completion_ec c = Success then announcement c else OnDisconnect) (view x))"
proof (cases "completion_ec c = Success")
  case True
  from run_handler_success [OF True, of R call out x] True show ?thesis by auto
next
  case False
  obtain s w where x: "x = (s, w)" by fastforce
  show ?thesis unfolding x run_handler_error [OF False] Cancel_tells log_effects using False by simp
qed

lemma dtor_result_same: "fst (HttpSession_dtor call out (s, w)) = fst (HttpSession_dtor call' out (s, w'))"
  using Cancel_result_same [of call out s w call' w'] by (auto simp: HttpSession_dtor_def split: prod.splits sum.splits)

lemma dtor_tells:
  "view (snd (HttpSession_dtor call out x)) =
    (if fst (HttpSession_dtor call out x) = Terminated then view x else told call OnDisconnect (view x))"
  using Cancel_tells [of call out x] by (auto simp: HttpSession_dtor_def split: prod.splits sum.splits)

lemma step_alive:
  assumes "session_step R call ev x = (r, Alive, y)"
  shows "view y = told call (announcement (ev_completion ev)) (view x)"
proof -
  have ok: "completion_ec (ev_completion ev) = Success"
    using step_error_not_alive [of ev R call x] assms by auto
  show ?thesis by (rule step_success [OF ok, of R call x]) (use assms in simp)
qed

lemma step_destroyed:
  assumes "session_step R call ev x = (Inr u, Destroyed, y)"
  shows "view y = told call OnDisconnect (told call OnDisconnect (view x))"
proof -
  obtain s w where x: "x = (s, w)" by fastforce
  let ?r = "run_handler R call (ev_cancel ev) (ev_completion ev) x"
  have ec: "completion_ec (ev_completion ev) \<noteq> Success"
  proof
    assume "completion_ec (ev_completion ev) = Success"
    from step_success [OF this, of R call x] assms show False by auto
  qed
  from assms have r: "fst ?r = Inr u" "y = snd (session_Cancel call (ev_destroy ev) (snd ?r))"
    "fst (session_Cancel call (ev_destroy ev) (snd ?r)) = Inr ()"
    by (auto simp: session_step_def HttpSession_dtor_def split: prod.splits sum.splits if_splits)
  note h = run_handler_error [OF ec, of R call "ev_cancel ev" s w, folded x]
  have "view (snd ?r) = told call OnDisconnect (view x)"
    using Cancel_returned [OF r(1) [unfolded h]] unfolding h log_effects by (simp add: x)
  with Cancel_returned [OF r(3)] r(2) show ?thesis by simp
qed

subsection \<open>The life of a session\<close>

text \<open>The dispatch that records what is announced.\<close>

definition recorder :: "(unit, notification list) dispatch" where
  "recorder n v w = (v, w @ [n])"

definition cycle :: "notification list" where
  "cycle = [OnRequestReceive, OnRequestSent, OnResponseReceive, OnResponseSent]"

definition told_so_far :: "nat \<Rightarrow> nat \<Rightarrow> notification list" where
  "told_so_far n k = OnConnect # concat (replicate n cycle) @ take k cycle"

fun stage :: "async_op option \<Rightarrow> nat option" where
  "stage (Some ReadClient) = Some 0"
| "stage (Some (WriteServer q)) = Some 1"
| "stage (Some ReadServer) = Some 2"
| "stage (Some (WriteClient r)) = Some 3"
| "stage None = None"

lemma told_recorder: "told recorder n (Some u, w) = (Some u, w @ [n])"
  by (simp add: told_def recorder_def)

lemma concat_replicate_Suc: "concat (replicate (Suc n) xs) = concat (replicate n xs) @ xs"
  by (induction n) auto

lemma told_so_far_next:
  "told_so_far n 0 @ [OnRequestReceive] = told_so_far n 1"
  "told_so_far n 1 @ [OnRequestSent] = told_so_far n 2"
  "told_so_far n 2 @ [OnResponseReceive] = told_so_far n 3"
  "told_so_far n 3 @ [OnResponseSent] = told_so_far (Suc n) 0"
  unfolding told_so_far_def concat_replicate_Suc by (simp_all add: cycle_def eval_nat_numeral)

definition session_inv :: "unit HttpSession \<times> notification list \<Rightarrow> bool" where
  "session_inv x \<longleftrightarrow> session_visitor (fst x) = Some () \<and>
     (\<exists>n k. stage (pending (fst x)) = Some k \<and> snd x = told_so_far n k)"

lemma session_inv_reach:
  assumes "session_reach R recorder (HttpSession_ctor i (Some ()), []) y"
  shows "session_inv y"
  using assms
proof induction
  case (started y)
  have "told_so_far 0 0 = [OnConnect]" by (simp add: told_so_far_def)
  with started show ?case
    by (auto simp: session_inv_def session_defs HttpSession_ctor_def recorder_def
        intro!: exI [of _ "0 :: nat"])
next
  case (step y ev r z)
  from step.IH obtain n k where inv: "session_visitor (fst y) = Some ()" "stage (pending (fst y)) = Some k"
    "snd y = told_so_far n k" by (auto simp: session_inv_def)
  show ?case
  proof (cases "completion_ec (ev_completion ev) = Success")
    case True
    from step_success [of ev R recorder y, OF True] obtain z' where z': "session_step R recorder ev y = (Inr (), Alive, z')"
      "view z' = told recorder (announcement (ev_completion ev)) (view y)"
      "pending (fst z') = pending (advance R (fst y) (ev_completion ev))"
      using advance_fields(1) by metis
    then have z: "z' = z" using step.hyps(3) by simp
    have w: "session_visitor (fst z) = Some ()" "snd z = told_so_far n k @ [announcement (ev_completion ev)]"
      using z'(2) inv unfolding z by (simp_all add: told_recorder)
    from step.hyps(2) show ?thesis
      using w inv z'(3) unfolding z
      by (cases "(pending (fst y), ev_completion ev)" rule: completes.cases)
        (auto simp: session_inv_def announcement_def told_so_far_next told_so_far_next [unfolded One_nat_def] split: if_splits)
  next
    case False
    with step_error_not_alive [OF this, of R recorder y] step.hyps(3) show ?thesis by simp
  qed
qed

text \<open>C15. What a session announces. A session runs through whole cycles of receiving a request,
  sending it, receiving the response and sending it, and announces each of them, in that order;
  it never sends a request or a response before it has read one. When an operation fails the
  disconnection is announced twice: once by the handler that cancels the session, and once more
  by the destructor.\<close>

theorem session_announcements:
  assumes "session_reach R recorder (HttpSession_ctor i (Some ()), []) y"
  shows "(\<exists>n k. stage (pending (fst y)) = Some k \<and> k < 4 \<and> snd y = told_so_far n k \<and>
    (completion_ec (ev_completion ev) \<noteq> Success \<and> closes (ev_cancel ev) \<and> closes (ev_destroy ev) \<longrightarrow>
      (\<exists>z. session_step R recorder ev y = (Inr (), Destroyed, z) \<and>
         snd z = told_so_far n k @ [OnDisconnect, OnDisconnect])))"
proof -
  from session_inv_reach [OF assms] obtain n k where inv: "session_visitor (fst y) = Some ()"
    "stage (pending (fst y)) = Some k" "snd y = told_so_far n k" by (auto simp: session_inv_def)
  have "k < 4" using inv(2) by (cases "pending (fst y)" rule: stage.cases) (auto split: if_splits)
  moreover have "\<exists>z. session_step R recorder ev y = (Inr (), Destroyed, z) \<and>
      snd z = told_so_far n k @ [OnDisconnect, OnDisconnect]"
    if "completion_ec (ev_completion ev) \<noteq> Success" "closes (ev_cancel ev)" "closes (ev_destroy ev)"
  proof -
    from step_error [OF that, of R recorder y] obtain z where "session_step R recorder ev y = (Inr (), Destroyed, z)"
      "view z = told recorder OnDisconnect (told recorder OnDisconnect (view y))" by metis
    with inv show ?thesis by (auto simp: told_recorder)
  qed
  ultimately show ?thesis using inv by blast
qed

definition all_well :: "socket_outcome \<times> socket_outcome" where
  "all_well = (\<lparr>shutdown_ec = Success, close_ec = Success\<rparr>, \<lparr>shutdown_ec = Success, close_ec = Success\<rparr>)"

text \<open>A library that appends what it reads to the body it finds.\<close>

definition appending :: reuse where
  "appending target m = m\<lparr>msg_body := msg_body target @ msg_body m\<rparr>"

definition ended_by :: "error_code \<Rightarrow> session_event" where
  "ended_by ec = \<lparr>ev_completion = ClientReadDone ec empty_message [], ev_cancel = all_well, ev_destroy = all_well\<rparr>"

theorem session_announcements_witness:
  "\<exists>z. session_step appending recorder (ended_by EndOfStream)
      (snd (session_Run recorder (HttpSession_ctor 7 (Some ()), []))) = (Inr (), Destroyed, z) \<and>
    snd z = [OnConnect, OnDisconnect, OnDisconnect]"
proof -
  let ?y = "snd (session_Run recorder (HttpSession_ctor 7 (Some ()), [])) :: unit HttpSession \<times> _"
  have reach: "session_reach appending recorder (HttpSession_ctor 7 (Some ()), []) ?y"
    by (rule session_reach.started) simp
  have y: "pending (fst ?y) = Some ReadClient" "snd ?y = [OnConnect]"
    by (simp_all add: session_defs HttpSession_ctor_def recorder_def)
  from session_announcements [OF reach, of "ended_by EndOfStream"] obtain n k where nk:
    "stage (pending (fst ?y)) = Some k" "snd ?y = told_so_far n k"
    "completion_ec (ev_completion (ended_by EndOfStream)) \<noteq> Success \<and> closes (ev_cancel (ended_by EndOfStream)) \<and>
      closes (ev_destroy (ended_by EndOfStream)) \<longrightarrow>
      (\<exists>z. session_step appending recorder (ended_by EndOfStream) ?y = (Inr (), Destroyed, z) \<and>
         snd z = told_so_far n k @ [OnDisconnect, OnDisconnect])" by blast
  have "completion_ec (ev_completion (ended_by EndOfStream)) \<noteq> Success \<and> closes (ev_cancel (ended_by EndOfStream)) \<and>
      closes (ev_destroy (ended_by EndOfStream))"
    by (simp add: ended_by_def completion_ec_def closes_def all_well_def)
  with nk(3) obtain z where "session_step appending recorder (ended_by EndOfStream) ?y = (Inr (), Destroyed, z)"
    "snd z = told_so_far n k @ [OnDisconnect, OnDisconnect]" by blast
  with y(2) nk(2) show ?thesis by (metis append_Cons append_Nil)
qed

text \<open>
  The completions of one successful exchange, in order, and the state after a list of events.
\<close>

definition succeeded :: "completion \<Rightarrow> session_event" where
  "succeeded c = \<lparr>ev_completion = c, ev_cancel = all_well, ev_destroy = all_well\<rparr>"

definition session_steps ::
    "reuse \<Rightarrow> ('v, 'w) dispatch \<Rightarrow> completion list \<Rightarrow> 'v HttpSession \<times> 'w \<Rightarrow> 'v HttpSession \<times> 'w" where
  "session_steps R call cs x = fold (\<lambda>c y. snd (snd (session_step R call (succeeded c) y))) cs x"

lemma session_steps_simps [simp]:
  "session_steps R call [] x = x"
  "session_steps R call (c # cs) x = session_steps R call cs (snd (snd (session_step R call (succeeded c) x)))"
  by (simp_all add: session_steps_def)

lemma advance_cong:
  "sans_visitor s = sans_visitor t \<Longrightarrow> sans_visitor (advance R s c) = sans_visitor (advance R t c)"
  by (cases c; cases s; cases t) (simp_all add: sans_visitor_def)

lemma advances_cong:
  "sans_visitor s = sans_visitor t \<Longrightarrow>
    sans_visitor (fold (\<lambda>c s. advance R s c) cs s) = sans_visitor (fold (\<lambda>c s. advance R s c) cs t)"
proof (induction cs arbitrary: s t)
  case (Cons c cs)
  from Cons.IH [OF advance_cong [OF Cons.prems]] show ?case by simp
qed simp

lemma session_steps_advance:
  assumes "\<forall>c \<in> set cs. completion_ec c = Success"
  shows "sans_visitor (fst (session_steps R call cs x)) = sans_visitor (fold (\<lambda>c s. advance R s c) cs (fst x))"
  using assms
proof (induction cs arbitrary: x)
  case (Cons c cs)
  then have ok: "completion_ec (ev_completion (succeeded c)) = Success" by (simp add: succeeded_def)
  obtain y where y: "session_step R call (succeeded c) x = (Inr (), Alive, y)"
    "sans_visitor (fst y) = sans_visitor (advance R (fst x) c)"
    by (rule step_success [OF ok, of R call x]) (simp add: succeeded_def)
  have "sans_visitor (fold (\<lambda>c s. advance R s c) cs (fst y)) = sans_visitor (fold (\<lambda>c s. advance R s c) cs (advance R (fst x) c))"
    by (rule advances_cong [OF y(2)])
  with Cons y show ?case by simp
qed simp

definition exchange :: "message \<Rightarrow> string \<Rightarrow> message \<Rightarrow> string \<Rightarrow> completion list" where
  "exchange q rest r behind = [ClientReadDone Success q rest, ServerWriteDone Success, ServerReadDone Success r behind,
     ClientWriteDone Success]"

lemma exchange_Success: "c \<in> set (exchange q rest r behind) \<Longrightarrow> completion_ec c = Success"
  by (auto simp: exchange_def completion_ec_def)

lemma session_steps_fields:
  assumes "\<forall>c \<in> set cs. completion_ec c = Success"
  shows "pending (fst (session_steps R call cs x)) = pending (fold (\<lambda>c s. advance R s c) cs (fst x))"
    and "client_request (fst (session_steps R call cs x)) = client_request (fold (\<lambda>c s. advance R s c) cs (fst x))"
    and "server_response (fst (session_steps R call cs x)) = server_response (fold (\<lambda>c s. advance R s c) cs (fst x))"
    and "client_buffer (fst (session_steps R call cs x)) = client_buffer (fold (\<lambda>c s. advance R s c) cs (fst x))"
  using session_steps_advance [OF assms, of R call x]
  by (metis HttpSession.ext_inject HttpSession.surjective HttpSession.update_convs(8) sans_visitor_def)+

text \<open>
  What a session starts in a run of successful exchanges, and what it should relay: each message as
  it is read into the one before it, of which the header fields have been cleared.
\<close>

primrec started_ops :: "reuse \<Rightarrow> ('v, 'w) dispatch \<Rightarrow> completion list \<Rightarrow> 'v HttpSession \<times> 'w \<Rightarrow> async_op list" where
  "started_ops R call [] x = []"
| "started_ops R call (c # cs) x =
     (let y = snd (snd (session_step R call (succeeded c) x))
      in (case pending (fst y) of None \<Rightarrow> [] | Some op \<Rightarrow> [op]) @ started_ops R call cs y)"

primrec relayed :: "reuse \<Rightarrow> message \<Rightarrow> message list \<Rightarrow> message list" where
  "relayed R m [] = []"
| "relayed R m (q # qs) = (let w = read_into R m q in w # relayed R (clear_fields w) qs)"

fun to_server :: "async_op list \<Rightarrow> message list" where
  "to_server [] = []"
| "to_server (WriteServer q # ops) = q # to_server ops"
| "to_server (op # ops) = to_server ops"

fun to_client :: "async_op list \<Rightarrow> message list" where
  "to_client [] = []"
| "to_client (WriteClient r # ops) = r # to_client ops"
| "to_client (op # ops) = to_client ops"

lemma started_ops_append:
  "started_ops R call (cs @ ds) x = started_ops R call cs x @ started_ops R call ds (session_steps R call cs x)"
  by (induction cs arbitrary: x) (simp_all add: Let_def)

lemma started_ops_exchange:
  "started_ops R call (exchange q rest r behind) x =
    [WriteServer (read_into R (client_request (fst x)) q), ReadServer,
     WriteClient (read_into R (server_response (fst x)) r), ReadClient]"
proof -
  have ok: "\<forall>c \<in> set (take n (exchange q rest r behind)). completion_ec c = Success" for n
    using exchange_Success in_set_takeD by fast
  note f = session_steps_fields(1) [OF ok, where R = R and call = call and x = x]
  show ?thesis
    using f [of 1] f [of 2] f [of 3] f [of 4] by (simp add: exchange_def Let_def)
qed

lemma exchange_messages:
  "client_request (fst (session_steps R call (exchange q rest r behind) x)) = clear_fields (read_into R (client_request (fst x)) q)"
  "server_response (fst (session_steps R call (exchange q rest r behind) x)) = clear_fields (read_into R (server_response (fst x)) r)"
proof -
  have "\<forall>c \<in> set (exchange q rest r behind). completion_ec c = Success" using exchange_Success by blast
  from session_steps_fields(2,3) [OF this, of R call x]
  show "client_request (fst (session_steps R call (exchange q rest r behind) x)) = clear_fields (read_into R (client_request (fst x)) q)"
    "server_response (fst (session_steps R call (exchange q rest r behind) x)) = clear_fields (read_into R (server_response (fst x)) r)"
    by (simp_all add: exchange_def)
qed

text \<open>C17. A session is a relay. Over any number of exchanges, whatever its visitor does and whatever
  arrives beyond the messages, the messages written to the server are exactly the requests read
  from the client, in their order, each as the library reads it into the message before it; and
  the messages written to the client are the responses of the server likewise.\<close>

theorem session_relays:
  "to_server (started_ops R call (concat (map (\<lambda>(q, rest, r, behind). exchange q rest r behind) es)) (s, w)) =
     relayed R (client_request s) (map fst es) \<and>
   to_client (started_ops R call (concat (map (\<lambda>(q, rest, r, behind). exchange q rest r behind) es)) (s, w)) =
     relayed R (server_response s) (map (\<lambda>(q, rest, r, behind). r) es)"
proof (induction es arbitrary: s w)
  case (Cons e es)
  obtain q rest r behind where e: "e = (q, rest, r, behind)" by (cases e)
  obtain s' w' where x: "session_steps R call (exchange q rest r behind) (s, w) = (s', w')" by fastforce
  from exchange_messages [of R call q rest r behind "(s, w)"]
  have "client_request s' = clear_fields (read_into R (client_request s) q)"
    "server_response s' = clear_fields (read_into R (server_response s) r)" by (simp_all add: x)
  with Cons [of s' w'] show ?case
    by (simp add: e started_ops_append started_ops_exchange x Let_def)
qed simp

text \<open>On messages without a body the relay is the identity.\<close>

lemma relayed_bodyless: "msg_body m = [] \<Longrightarrow> \<forall>q \<in> set qs. msg_body q = [] \<Longrightarrow> relayed R m qs = qs"
  by (induction qs arbitrary: m) (simp_all add: Let_def)

text \<open>C16. One exchange, whatever the visitor does. In a session whose messages have no body yet, the
  request written to the server is the one read from the client and the response written to the
  client the one read from the server; then the session reads the client again. What the client
  sent beyond its request, the beginning of a pipelined one, is in the buffer until then, and is
  cleared with it; the bodies of the two messages stay in them.\<close>

theorem session_exchange:
  assumes "msg_body (client_request s) = []" and "msg_body (server_response s) = []"
  shows "pending (fst (session_steps R call (take 1 (exchange q rest r behind)) (s, w))) = Some (WriteServer q) \<and>
    client_buffer (fst (session_steps R call (take 3 (exchange q rest r behind)) (s, w))) = rest \<and>
    pending (fst (session_steps R call (take 3 (exchange q rest r behind)) (s, w))) = Some (WriteClient r) \<and>
    pending (fst (session_steps R call (exchange q rest r behind) (s, w))) = Some ReadClient \<and>
    client_buffer (fst (session_steps R call (exchange q rest r behind) (s, w))) = [] \<and>
    msg_body (client_request (fst (session_steps R call (exchange q rest r behind) (s, w)))) = msg_body q \<and>
    msg_body (server_response (fst (session_steps R call (exchange q rest r behind) (s, w)))) = msg_body r"
proof -
  have ok: "\<forall>c \<in> set (take n (exchange q rest r behind)). completion_ec c = Success" for n
    using exchange_Success in_set_takeD by fast
  note f = session_steps_fields [OF ok, where R = R and call = call and x = "(s, w)"]
  from assms show ?thesis
    using f(1,4) [of 1] f(1,4) [of 3] f [of 4] by (simp add: exchange_def)
qed

definition sample_message :: "string \<Rightarrow> string \<Rightarrow> message" where
  "sample_message start body = \<lparr>msg_start = start, msg_fields = [(''host'', ''a'')], msg_body = body\<rparr>"

definition sample_session :: "unit HttpSession \<times> notification list" where
  "sample_session = (HttpSession_ctor 7 (Some ()), [])"

theorem session_exchange_witness:
  "pending (fst (session_steps appending recorder
      (exchange (sample_message ''POST /'' ''x=1'') ''GET'' (sample_message ''200'' ''ok'') []) sample_session)) = Some ReadClient"
  using session_exchange [of "HttpSession_ctor 7 (Some ())" appending recorder "sample_message ''POST /'' ''x=1''" "''GET''"
      "sample_message ''200'' ''ok''" "[]" "[]"]
  by (simp add: HttpSession_ctor_def sample_session_def)

text \<open>C38. The second request of a connection is read into the message of the first, whose body is
  still there: unless the first body was empty, the read breaks the condition the library states,
  and what is forwarded is whatever the library then makes of the two.\<close>

theorem second_request_reuses_body:
  assumes "msg_body (client_request s) = []"
  shows "pending (fst (session_steps R call (exchange q rest r behind @ [ClientReadDone Success q2 rest2]) (s, w))) =
    Some (WriteServer (if msg_body q = [] then q2 else R (clear_fields q) q2))"
proof -
  have "\<forall>c \<in> set (exchange q rest r behind @ [ClientReadDone Success q2 rest2]). completion_ec c = Success"
    using exchange_Success by (auto simp: completion_ec_def)
  from session_steps_fields(1) [OF this, of R call "(s, w)"] assms show ?thesis
    by (simp add: exchange_def read_into_def)
qed

theorem second_request_reuses_body_witness:
  "pending (fst (session_steps appending recorder
      (exchange (sample_message ''POST /'' ''x=1'') [] (sample_message ''200'' ''ok'') [] @
        [ClientReadDone Success (sample_message ''POST /'' ''y=2'') []]) sample_session)) =
    Some (WriteServer (sample_message ''POST /'' ''x=1y=2''))"
  using second_request_reuses_body [of "HttpSession_ctor 7 (Some ())" appending recorder "sample_message ''POST /'' ''x=1''"
      "[]" "sample_message ''200'' ''ok''" "[]" "sample_message ''POST /'' ''y=2''" "[]" "[]"]
  by (simp add: HttpSession_ctor_def sample_session_def) (simp add: sample_message_def appending_def clear_fields_def)

text \<open>C39. An operation that fails ends the session, at whatever point it was and whatever closing the
  sockets gives; and when shutting down and closing succeed, both sockets are closed.\<close>

theorem session_error_ends:
  assumes "completion_ec (ev_completion ev) \<noteq> Success"
  shows "fst (snd (session_step R call ev (s, w))) \<noteq> Alive \<and>
    (ev_cancel ev = all_well \<longrightarrow> \<not> client_open (fst (snd (snd (session_step R call ev (s, w))))) \<and>
       \<not> server_open (fst (snd (snd (session_step R call ev (s, w))))))"
proof -
  have gone: "\<not> client_open (fst (snd (session_Cancel call out x))) \<and> \<not> server_open (fst (snd (session_Cancel call out x)))"
    if "out = all_well \<or> \<not> client_open (fst x) \<and> \<not> server_open (fst x)" for out x
    using that by (cases x; cases out) (auto simp: session_defs CloseSocket_def all_well_def Let_def split: prod.splits option.splits)
  let ?r = "run_handler R call (ev_cancel ev) (ev_completion ev) (s, w)"
  have "pending (fst (snd ?r)) = None"
    unfolding run_handler_error [OF assms] Cancel_pending log_effects by simp
  then have step: "snd (snd (session_step R call ev (s, w))) = snd (session_Cancel call (ev_destroy ev) (snd ?r))"
    by (auto simp: session_step_def HttpSession_dtor_def split: prod.splits sum.splits)
  have "\<not> client_open (fst (snd ?r)) \<and> \<not> server_open (fst (snd ?r))" if "ev_cancel ev = all_well"
    unfolding run_handler_error [OF assms] using that by (intro gone) simp
  then have "ev_cancel ev = all_well \<longrightarrow> \<not> client_open (fst (snd (snd (session_step R call ev (s, w))))) \<and>
       \<not> server_open (fst (snd (snd (session_step R call ev (s, w)))))"
    unfolding step using gone by blast
  with step_error_not_alive [OF assms] show ?thesis by blast
qed

theorem session_error_ends_witness:
  "fst (snd (session_step appending recorder (ended_by EndOfStream) (HttpSession_ctor 7 None, []))) \<noteq> Alive"
proof -
  have "completion_ec (ev_completion (ended_by EndOfStream)) \<noteq> Success"
    by (simp add: ended_by_def completion_ec_def)
  from session_error_ends [OF this, of appending recorder "HttpSession_ctor 7 None" "[]"] show ?thesis by blast
qed

subsection \<open>Session numbers\<close>

primrec generate_ids :: "nat \<Rightarrow> 64 word \<Rightarrow> (64 word) list" where
  "generate_ids 0 counter = []"
| "generate_ids (Suc n) counter = (let (i, counter') = generateId counter in i # generate_ids n counter')"

lemma generate_ids_eq: "generate_ids n c = map (\<lambda>k. c + word_of_nat k) [0..<n]"
proof (induction n arbitrary: c)
  case (Suc n)
  have "map (\<lambda>k. c + word_of_nat k) [0..<Suc n] = c # map (\<lambda>k. c + 1 + word_of_nat k) [0..<n]"
    by (simp add: upt_conv_Cons map_Suc_upt [symmetric] comp_def add.assoc del: upt_Suc map_Suc_upt)
  with Suc show ?case by (simp add: generateId_def Let_def del: upt_Suc)
qed simp

text \<open>Session numbers are unique: up to \<^verbatim>\<open>2^64\<close> numbers drawn in a row are different, from
  whatever value the counter has, wrapping around included; the next one repeats the first.\<close>

theorem generated_ids_distinct:
  "(distinct (generate_ids n c)) = (n \<le> 2 ^ 64)"
proof -
  have inj: "(word_of_nat j :: 64 word) = word_of_nat k \<longleftrightarrow> j = k" if "j < 2 ^ 64" "k < 2 ^ 64" for j k
    using that by (simp add: word_of_nat_eq_iff take_bit_nat_eq_self)
  have "distinct (generate_ids n c)" if "n \<le> 2 ^ 64"
    unfolding generate_ids_eq distinct_map using that inj by (auto simp: inj_on_def)
  moreover have "\<not> distinct (generate_ids n c)" if "2 ^ 64 < n"
  proof
    assume "distinct (generate_ids n c)"
    then have "card (set (generate_ids n c)) = n" 
      using distinct_card [of "generate_ids n c"] by (simp add: generate_ids_eq)
    moreover have "card (set (generate_ids n c)) \<le> card (UNIV :: (64 word) set)" by (rule card_mono) auto
    ultimately show False using that by (simp add: card_word)
  qed
  ultimately show ?thesis by (meson not_le)
qed

end
