(* ===== verification/Connector.thy ===== *)
theory Connector
  imports Detect_Selector Http_Session
begin

section \<open>Connecting clients to backends: \<^verbatim>\<open>src/lb/tcp/connector.cpp\<close>\<close>

text \<open>
  The connector asks the selector for a backend, connects to it, and gives the two sockets to a
  session; the session's visitor reports back to the selectors that count. A connection attempt
  that waits for an asynchronous operation is a value of \<^verbatim>\<open>attempt\<close>, which has what the
  operation's handler captured. The world a visitor acts on is the selector, the clock it reads and
  the counter of session numbers. \<^verbatim>\<open>remote_endpoint()\<close> of a socket throws when the client has
  gone, so the peer of a client is a result.
\<close>

datatype 'a visitor =
    LeastConnectionsCallbacks "'a backend"
  | LeastResponseTimeCallbacks "'a backend" "64 word" "64 word"

record ('a, 'h, 'k, 'l, 'm) world =
  w_selector :: "('a, 'h, 'k, 'l, 'm) selector"
  w_clock :: "64 word"
  w_next_id :: "64 word"

subsection \<open>The visitors\<close>

text \<open>
  A visitor for least connections is made only when the selector is of that class
  (\<^verbatim>\<open>MakeSession\<close>), and a selector never changes its class, so the dynamic cast of the pointer
  succeeds: in every state the program reaches, the visitors of its sessions are those of its
  selector (\<^verbatim>\<open>visitors_fit\<close> in \<^verbatim>\<open>Balancer\<close>). The last case of these two definitions, in
  which the cast gives a null pointer, is not reached.
\<close>

definition on_least_connections ::
    "(('h, 'k) LeastConnectionsSelector \<Rightarrow> ('h, 'k) LeastConnectionsSelector) \<Rightarrow>
     ('a, 'h, 'k, 'l, 'm) world \<Rightarrow> ('a, 'h, 'k, 'l, 'm) world" where
  "on_least_connections f w =
     (case w_selector w of LeastConnectionsS s \<Rightarrow> w\<lparr>w_selector := LeastConnectionsS (f s)\<rparr> | _ \<Rightarrow> w)"

definition on_least_response_time ::
    "(('l, 'm) LeastResponseTimeSelector \<Rightarrow> ('l, 'm) LeastResponseTimeSelector) \<Rightarrow>
     ('a, 'h, 'k, 'l, 'm) world \<Rightarrow> ('a, 'h, 'k, 'l, 'm) world" where
  "on_least_response_time f w =
     (case w_selector w of LeastResponseTimeS s \<Rightarrow> w\<lparr>w_selector := LeastResponseTimeS (f s)\<rparr> | _ \<Rightarrow> w)"

fun lc_callback ::
    "('a, 'h, 'k, 'l, 'm) libs \<Rightarrow> notification \<Rightarrow> 'a backend \<Rightarrow> ('a, 'h, 'k, 'l, 'm) world \<Rightarrow>
     ('a, 'h, 'k, 'l, 'm) world" where
  "lc_callback L OnConnect backend w =
     on_least_connections (IncreaseConnectionCount (lib_lc L) (lib_env L) backend) w"
| "lc_callback L OnDisconnect backend w =
     on_least_connections (DecreaseConnectionCount (lib_lc L) (lib_env L) backend) w"
| "lc_callback L _ backend w = w"

fun lrt_callback ::
    "('a, 'h, 'k, 'l, 'm) libs \<Rightarrow> notification \<Rightarrow> 'a backend \<Rightarrow> 64 word \<Rightarrow> 64 word \<Rightarrow> ('a, 'h, 'k, 'l, 'm) world \<Rightarrow>
     'a visitor \<times> ('a, 'h, 'k, 'l, 'm) world" where
  "lrt_callback L OnRequestSent backend response_begin response_end w =
     (LeastResponseTimeCallbacks backend (w_clock w) response_end, w)"
| "lrt_callback L OnResponseReceive backend response_begin response_end w =
     (LeastResponseTimeCallbacks backend response_begin (w_clock w),
      on_least_response_time (AddResponseTime (lib_lrt L) (lib_env L) backend (w_clock w - response_begin)) w)"
| "lrt_callback L _ backend response_begin response_end w =
     (LeastResponseTimeCallbacks backend response_begin response_end, w)"

definition visitor_call ::
    "('a, 'h, 'k, 'l, 'm) libs \<Rightarrow> ('a visitor, ('a, 'h, 'k, 'l, 'm) world) dispatch" where
  "visitor_call L n v w =
     (case v of
        LeastConnectionsCallbacks b \<Rightarrow> (v, lc_callback L n b w)
      | LeastResponseTimeCallbacks b response_begin response_end \<Rightarrow>
          lrt_callback L n b response_begin response_end w)"

subsection \<open>The connector\<close>

datatype 'a attempt =
    ConnectingIp "'a endpoint" "'a backend"
  | Resolving string string "'a backend"
  | ConnectingUrl "'a backend"

primrec attempt_backend :: "'a attempt \<Rightarrow> 'a backend" where
  "attempt_backend (ConnectingIp ep b) = b"
| "attempt_backend (Resolving host port b) = b"
| "attempt_backend (ConnectingUrl b) = b"

definition MakeSession ::
    "'a backend \<Rightarrow> ('a, 'h, 'k, 'l, 'm) world \<Rightarrow>
     'a visitor HttpSession \<times> ('a, 'h, 'k, 'l, 'm) world" where
  "MakeSession backend w =
     (let (i, counter) = generateId (w_next_id w);
          visitor = (case selector_Type (w_selector w) of
             LEAST_CONNECTIONS \<Rightarrow> Some (LeastConnectionsCallbacks backend)
           | LEAST_RESPONSE_TIME \<Rightarrow> Some (LeastResponseTimeCallbacks backend 0 0)
           | _ \<Rightarrow> None)
      in (HttpSession_ctor i visitor, w\<lparr>w_next_id := counter\<rparr>))"

definition MakeAndRunSession ::
    "('a, 'h, 'k, 'l, 'm) libs \<Rightarrow> 'a endpoint result \<Rightarrow> ('a, 'h, 'k, 'l, 'm) world \<Rightarrow>
     'a attempt result \<times> ('a, 'h, 'k, 'l, 'm) world" where
  "MakeAndRunSession L peer w =
     (case peer of
        Inl e \<Rightarrow> (Inl e, w)
      | Inr client \<Rightarrow>
          (case SelectBackend L (w_selector w) client of
             (Inl e, sel) \<Rightarrow> (Inl e, w\<lparr>w_selector := sel\<rparr>)
           | (Inr backend, sel) \<Rightarrow>
               (case backend of
                  EndpointB ep \<Rightarrow> (Inr (ConnectingIp ep backend), w\<lparr>w_selector := sel\<rparr>)
                | UrlB u \<Rightarrow> (Inr (Resolving (Url_Hostname u) (Url_Port u) backend), w\<lparr>w_selector := sel\<rparr>))))"

text \<open>
  What a handler leaves: nothing, an operation in flight, or a running session. The calls of
  \<^verbatim>\<open>MakeAndRunSession\<close> are the last statements of the handlers that make them, after other
  accesses to the selector and its lock. Other threads can act in between, so a handler that goes on
  to this call leaves \<^verbatim>\<open>Selecting\<close>, and the call is a step of its own.
\<close>

datatype 'a reaction =
    Dropped
  | Selecting
  | Trying "'a attempt"
  | Running "'a visitor HttpSession"

definition run_session ::
    "('a, 'h, 'k, 'l, 'm) libs \<Rightarrow> 'a backend \<Rightarrow> ('a, 'h, 'k, 'l, 'm) world \<Rightarrow>
     'a reaction result \<times> ('a, 'h, 'k, 'l, 'm) world" where
  "run_session L backend w =
     (case session_Run (visitor_call L) (MakeSession backend w) of
        (Inl e, s, w') \<Rightarrow> (Inl e, w')
      | (Inr _, s, w') \<Rightarrow> (Inr (Running s), w'))"

definition exclude_and_retry ::
    "('a, 'h, 'k, 'l, 'm) libs \<Rightarrow> 'a backend \<Rightarrow> ('a, 'h, 'k, 'l, 'm) world \<Rightarrow>
     'a reaction result \<times> ('a, 'h, 'k, 'l, 'm) world" where
  "exclude_and_retry L backend w =
     (case ExcludeBackend L (w_selector w) backend of
        (Inl e, sel) \<Rightarrow> (Inl e, w\<lparr>w_selector := sel\<rparr>)
      | (Inr _, sel) \<Rightarrow> (Inr Selecting, w\<lparr>w_selector := sel\<rparr>))"

definition HandleIpConnect ::
    "('a, 'h, 'k, 'l, 'm) libs \<Rightarrow> error_code \<Rightarrow> 'a backend \<Rightarrow> ('a, 'h, 'k, 'l, 'm) world \<Rightarrow>
     'a reaction result \<times> ('a, 'h, 'k, 'l, 'm) world" where
  "HandleIpConnect L error backend w =
     (if error \<noteq> Success then
        if error = ConnectionRefused then exclude_and_retry L backend w
        else (Inr Dropped, w)
      else run_session L backend w)"

definition HandleResolve ::
    "('a, 'h, 'k, 'l, 'm) libs \<Rightarrow> error_code \<Rightarrow> 'a backend \<Rightarrow> ('a, 'h, 'k, 'l, 'm) world \<Rightarrow>
     'a reaction result \<times> ('a, 'h, 'k, 'l, 'm) world" where
  "HandleResolve L error backend w =
     (if error \<noteq> Success then
        if error = ConnectionRefused then exclude_and_retry L backend w
        else (Inr Dropped, w)
      else (Inr (Trying (ConnectingUrl backend)), w))"

definition HandleUrlConnect ::
    "('a, 'h, 'k, 'l, 'm) libs \<Rightarrow> error_code \<Rightarrow> 'a backend \<Rightarrow> ('a, 'h, 'k, 'l, 'm) world \<Rightarrow>
     'a reaction result \<times> ('a, 'h, 'k, 'l, 'm) world" where
  "HandleUrlConnect L error backend w =
     (if error \<noteq> Success then (Inr Dropped, w) else run_session L backend w)"

definition attempt_done ::
    "('a, 'h, 'k, 'l, 'm) libs \<Rightarrow> error_code \<Rightarrow> 'a attempt \<Rightarrow> ('a, 'h, 'k, 'l, 'm) world \<Rightarrow>
     'a reaction result \<times> ('a, 'h, 'k, 'l, 'm) world" where
  "attempt_done L error a w =
     (case a of
        ConnectingIp ep b \<Rightarrow> HandleIpConnect L error b w
      | Resolving host port b \<Rightarrow> HandleResolve L error b w
      | ConnectingUrl b \<Rightarrow> HandleUrlConnect L error b w)"

definition seek_backend ::
    "('a, 'h, 'k, 'l, 'm) libs \<Rightarrow> 'a endpoint result \<Rightarrow> ('a, 'h, 'k, 'l, 'm) world \<Rightarrow>
     'a reaction result \<times> ('a, 'h, 'k, 'l, 'm) world" where
  "seek_backend L peer w =
     (case MakeAndRunSession L peer w of (Inl e, w') \<Rightarrow> (Inl e, w') | (Inr a, w') \<Rightarrow> (Inr (Trying a), w'))"

text \<open>A handler that no other thread interrupts.\<close>

definition handle_alone ::
    "('a, 'h, 'k, 'l, 'm) libs \<Rightarrow> 'a endpoint result \<Rightarrow> error_code \<Rightarrow> 'a attempt \<Rightarrow> ('a, 'h, 'k, 'l, 'm) world \<Rightarrow>
     'a reaction result \<times> ('a, 'h, 'k, 'l, 'm) world" where
  "handle_alone L peer error a w =
     (case attempt_done L error a w of
        (Inr Selecting, w') \<Rightarrow> seek_backend L peer w'
      | x \<Rightarrow> x)"

subsection \<open>The selector's class never changes\<close>

lemma selector_Type_Select [simp]: "selector_Type (snd (SelectBackend L s c)) = selector_Type s"
  by (cases s) (simp_all add: SelectBackend_def selector_Type_def)

lemma selector_Type_Exclude [simp]: "selector_Type (snd (ExcludeBackend L s b)) = selector_Type s"
  by (cases s) (simp_all add: ExcludeBackend_def selector_Type_def)

lemma selector_Type_on [simp]:
  "selector_Type (w_selector (on_least_connections f w)) = selector_Type (w_selector w)"
  "selector_Type (w_selector (on_least_response_time g w)) = selector_Type (w_selector w)"
  by (auto simp: on_least_connections_def on_least_response_time_def selector_Type_def split: selector.splits)

lemma selector_Type_callback:
  "selector_Type (w_selector (lc_callback L n b w)) = selector_Type (w_selector w)"
  "selector_Type (w_selector (snd (lrt_callback L n b t u w))) = selector_Type (w_selector w)"
  by (cases n; simp)+

lemma selector_Type_visitor:
  "selector_Type (w_selector (snd (visitor_call L n v w))) = selector_Type (w_selector w)"
  by (cases v) (simp_all add: visitor_call_def selector_Type_callback)

text \<open>The visitor a session must have: the one of the selector's class, if that class has one.\<close>

definition visitor_fits :: "SelectorType \<Rightarrow> 'a visitor option \<Rightarrow> bool" where
  "visitor_fits type v \<longleftrightarrow> (case v of
     None \<Rightarrow> \<not> on_heap type
   | Some (LeastConnectionsCallbacks b) \<Rightarrow> type = LEAST_CONNECTIONS
   | Some (LeastResponseTimeCallbacks b response_begin response_end) \<Rightarrow> type = LEAST_RESPONSE_TIME)"

lemma visitor_fits_made: "visitor_fits (selector_Type (w_selector w)) (session_visitor (fst (MakeSession b w)))"
  by (auto simp: visitor_fits_def MakeSession_def HttpSession_ctor_def on_heap_def Let_def case_prod_unfold split: SelectorType.split)

lemma visitor_fits_call: "visitor_fits type (Some (fst (visitor_call L n v w))) \<longleftrightarrow> visitor_fits type (Some v)"
  by (cases v; cases n) (simp_all add: visitor_fits_def visitor_call_def)

lemma visitor_fits_told: "visitor_fits type (fst (told (visitor_call L) n (v, w))) \<longleftrightarrow> visitor_fits type v"
  by (cases v) (simp_all add: told_def visitor_fits_call)

subsection \<open>The visitors keep the selector's contract\<close>

text \<open>
  A notification calls the heap as documented when, on the heaps that watch, no precondition is
  broken. A connection that ends calls it otherwise as soon as the backend has a connection
  counted, and a response as soon as the average changes.
\<close>

definition audit_world ::
    "('a, 'h, 'k, 'l, 'm) world \<Rightarrow>
     ('a, ('h, 'k, 'a CounterWrapper) audit_heap, 'k, ('l, 'm, 'a AverageTimeWrapper) audit_heap, 'm) world" where
  "audit_world w = \<lparr>w_selector = audit_selector (w_selector w), w_clock = w_clock w, w_next_id = w_next_id w\<rparr>"

lemma audit_world_simps [simp]:
  "w_selector (audit_world w) = audit_selector (w_selector w)" "w_clock (audit_world w) = w_clock w"
  "w_next_id (audit_world w) = w_next_id w"
  by (simp_all add: audit_world_def)

definition told_documented ::
    "('a, 'h, 'k, 'l, 'm) libs \<Rightarrow> notification \<Rightarrow> 'a visitor option \<Rightarrow> ('a, 'h, 'k, 'l, 'm) world \<Rightarrow> bool" where
  "told_documented L n v w \<longleftrightarrow>
     audit_passed (w_selector (snd (told (visitor_call (audited_libs L)) n (v, audit_world w))))"

lemma told_documented_lc:
  "w_selector w = LeastConnectionsS s \<Longrightarrow> told_documented L n v w \<longleftrightarrow>
    (\<forall>b c. n = OnDisconnect \<and> v = Some (LeastConnectionsCallbacks b) \<and>
       kh_abs (lib_lc L) s (Backend_ToString (lib_env L) b) = Some c \<longrightarrow> cw_counter c = 0)"
proof -
  assume s: "w_selector w = LeastConnectionsS s"
  have start: "audit_kept (audit_start h)" for h :: 'b by (simp add: audit_defs)
  show ?thesis
  proof (cases v)
    case (Some u)
    with s show ?thesis
      by (cases u; cases n)
        (simp_all add: told_documented_def told_def visitor_call_def on_least_connections_def on_least_response_time_def
          audit_selector_def audit_passed_def lc_Increase_audit lc_Decrease_audit start)
  qed (simp add: told_documented_def told_def)
qed

lemma told_documented_lrt:
  "w_selector w = LeastResponseTimeS s \<Longrightarrow> told_documented L n v w \<longleftrightarrow>
    (\<forall>b response_begin response_end a. n = OnResponseReceive \<and> v = Some (LeastResponseTimeCallbacks b response_begin response_end) \<and>
       kh_abs (lib_lrt L) s (Backend_ToString (lib_env L) b) = Some a \<longrightarrow>
       next_ema (atw_alpha a) (response_time_ema a) (w_clock w - response_begin) = response_time_ema a)"
proof -
  assume s: "w_selector w = LeastResponseTimeS s"
  have start: "audit_kept (audit_start h)" for h :: 'd by (simp add: audit_defs)
  show ?thesis
  proof (cases v)
    case (Some u)
    with s show ?thesis
      by (cases u; cases n)
        (simp_all add: told_documented_def told_def visitor_call_def on_least_connections_def on_least_response_time_def
          audit_selector_def audit_passed_def lrt_Add_audit start)
  qed (simp add: told_documented_def told_def)
qed

lemma told_documented_off_heap: "\<not> on_heap (selector_Type (w_selector w)) \<Longrightarrow> told_documented L n v w"
proof -
  assume "\<not> on_heap (selector_Type (w_selector w))"
  then have "\<not> on_heap (selector_Type (w_selector (snd (told (visitor_call (audited_libs L)) n (v, audit_world w)))))"
    by (cases v) (simp_all add: told_def selector_Type_visitor)
  then show ?thesis unfolding told_documented_def by (rule audit_passed_off_heap)
qed

lemma told_documented_connect: "told_documented L OnConnect v w"
proof (cases "w_selector w")
  case (LeastConnectionsS s)
  then show ?thesis by (simp add: told_documented_lc)
next
  case (LeastResponseTimeS s)
  then show ?thesis by (simp add: told_documented_lrt)
qed (rule told_documented_off_heap, simp add: on_heap_def selector_Types)+

text \<open>
  As long as the heap's contract is kept, the callbacks change what the selector has recorded of its
  backends, and neither the pool nor what is known.
\<close>

definition kept ::
    "('a, 'h, 'k, 'l, 'm) libs \<Rightarrow> ('a, 'h, 'k, 'l, 'm) views \<Rightarrow> ('a, 'h, 'k, 'l, 'm) selector \<Rightarrow>
     ('a, 'h, 'k, 'l, 'm) selector \<Rightarrow> bool" where
  "kept L V s t \<longleftrightarrow> sel_inv L V t \<and> sel_pool L t = sel_pool L s \<and> (\<forall>x. sel_known L s x \<longrightarrow> sel_known L t x) \<and>
     sel_single t = sel_single s"

lemma kept_refl: "sel_inv L V s \<Longrightarrow> kept L V s s"
  by (simp add: kept_def)

lemma kept_Increase:
  assumes "sel_inv L V (LeastConnectionsS s)"
  shows "kept L V (LeastConnectionsS s) (LeastConnectionsS (IncreaseConnectionCount (lib_lc L) (lib_env L) b s))"
proof -
  from assms have s: "lc_ok (lib_lc L) (view_lc V) (lib_env L) s" by (simp add: sel_inv_def)
  note inc = lc_Increase_abs [OF s, of b]
  show ?thesis
    using inc(1) kh_update_element [OF inc(2), where bk = cw_b]
    by (simp add: kept_def sel_inv_def sel_pool_def sel_known_def sel_single_def)
qed

lemma kept_Decrease:
  assumes "sel_inv L V (LeastConnectionsS s)"
    and "\<And>c. kh_abs (lib_lc L) s (Backend_ToString (lib_env L) b) = Some c \<Longrightarrow> cw_counter c = 0"
  shows "kept L V (LeastConnectionsS s) (LeastConnectionsS (DecreaseConnectionCount (lib_lc L) (lib_env L) b s))"
proof -
  have "DecreaseConnectionCount (lib_lc L) (lib_env L) b s = s"
    by (rule lc_Decrease_documented) (use assms(2) in \<open>simp add: lc_Decrease_audit\<close>)
  with kept_refl [OF assms(1)] show ?thesis by simp
qed

lemma kept_Add:
  assumes "sel_inv L V (LeastResponseTimeS s)"
    and "\<And>a. kh_abs (lib_lrt L) s (Backend_ToString (lib_env L) b) = Some a \<Longrightarrow>
      next_ema (atw_alpha a) (response_time_ema a) t = response_time_ema a"
  shows "kept L V (LeastResponseTimeS s) (LeastResponseTimeS (AddResponseTime (lib_lrt L) (lib_env L) b t s))"
proof -
  from assms(1) have s: "lrt_ok (lib_lrt L) (view_lrt V) (lib_env L) s" by (simp add: sel_inv_def)
  from assms(2) have "audit_kept (backends_heap (AddResponseTime (audited ResponseTimeEMACompare (lib_lrt L)) (lib_env L) b t (kh_audit s)))"
    by (simp add: lrt_Add_audit)
  from lrt_Add_documented [OF s this] show ?thesis
    by (simp add: kept_def sel_inv_def sel_pool_def sel_known_def sel_single_def)
qed

lemma kept_told:
  assumes "sel_inv L V (w_selector w)" and "told_documented L n v w"
  shows "kept L V (w_selector w) (w_selector (snd (told (visitor_call L) n (v, w))))"
proof (cases v)
  case (Some u)
  show ?thesis
  proof (cases u)
    case (LeastConnectionsCallbacks b)
    show ?thesis
    proof (cases "w_selector w")
      case s: (LeastConnectionsS s)
      from assms(2) have "n = OnDisconnect \<Longrightarrow> kh_abs (lib_lc L) s (Backend_ToString (lib_env L) b) = Some c \<Longrightarrow> cw_counter c = 0" for c
        unfolding told_documented_lc [OF s] Some LeastConnectionsCallbacks by blast
      with kept_Increase [of L V s b] kept_Decrease [of L V s b] assms(1) kept_refl [OF assms(1)] Some LeastConnectionsCallbacks show ?thesis
        by (cases n) (simp_all add: told_def visitor_call_def on_least_connections_def s)
    qed (use assms(1) Some LeastConnectionsCallbacks in \<open>cases n; simp add: told_def visitor_call_def on_least_connections_def kept_refl\<close>)+
  next
    case (LeastResponseTimeCallbacks b x y)
    show ?thesis
    proof (cases "w_selector w")
      case s: (LeastResponseTimeS s)
      from assms(2) have "n = OnResponseReceive \<Longrightarrow> kh_abs (lib_lrt L) s (Backend_ToString (lib_env L) b) = Some a \<Longrightarrow>
          next_ema (atw_alpha a) (response_time_ema a) (w_clock w - x) = response_time_ema a" for a
        unfolding told_documented_lrt [OF s] Some LeastResponseTimeCallbacks by blast
      with kept_Add [of L V s b "w_clock w - x"] assms(1) kept_refl [OF assms(1)] Some LeastResponseTimeCallbacks show ?thesis
        by (cases n) (simp_all add: told_def visitor_call_def on_least_response_time_def s)
    qed (use assms(1) Some LeastResponseTimeCallbacks in \<open>cases n; simp add: told_def visitor_call_def on_least_response_time_def kept_refl\<close>)+
  qed
qed (use assms kept_refl in \<open>simp add: told_def\<close>)

subsection \<open>Failover of one client\<close>

text \<open>
  The attempts for one client of a network in which the backends that refuse are known: each
  connection attempt completes at once, refused or successful. \<open>n\<close> bounds the attempts.
\<close>

primrec serve_client ::
    "('a, 'h, 'k, 'l, 'm) libs \<Rightarrow> nat \<Rightarrow> ('a backend \<Rightarrow> bool) \<Rightarrow> 'a endpoint \<Rightarrow> 'a reaction result \<Rightarrow>
     ('a, 'h, 'k, 'l, 'm) world \<Rightarrow> 'a reaction result option \<times> ('a, 'h, 'k, 'l, 'm) world" where
  "serve_client L 0 refuses c r w = (case r of Inr (Trying a) \<Rightarrow> (None, w) | _ \<Rightarrow> (Some r, w))"
| "serve_client L (Suc n) refuses c r w =
     (case r of
        Inr (Trying a) \<Rightarrow>
          (let (r', w') = handle_alone L (Inr c) (if refuses (attempt_backend a) then ConnectionRefused else Success) a w
           in serve_client L n refuses c r' w')
      | _ \<Rightarrow> (Some r, w))"

lemma session_Run_effects:
  "fst (session_Run call x) = Inr ()" "pending (fst (snd (session_Run call x))) = Some ReadClient"
  "view (snd (session_Run call x)) = told call OnConnect (view x)"
  by (cases x; auto simp: session_defs told_def split: option.splits prod.splits)+

lemma run_session_Running: "\<exists>s. fst (run_session L b w) = Inr (Running s)"
  by (simp add: run_session_def case_prod_unfold session_Run_effects(1))

lemma handle_alone_session: "handle_alone L peer Success (ConnectingIp ep b) w = run_session L b w"
proof -
  obtain s w' where "run_session L b w = (Inr (Running s), w')"
    using run_session_Running [of L b w] by (metis prod.collapse)
  then show ?thesis by (simp add: handle_alone_def attempt_done_def HandleIpConnect_def)
qed

lemma handle_alone_refused:
  "handle_alone L peer ConnectionRefused (ConnectingIp ep b) w =
     (case ExcludeBackend L (w_selector w) b of
        (Inl e, sel) \<Rightarrow> (Inl e, w\<lparr>w_selector := sel\<rparr>)
      | (Inr _, sel) \<Rightarrow> seek_backend L peer (w\<lparr>w_selector := sel\<rparr>))"
  by (simp add: handle_alone_def attempt_done_def HandleIpConnect_def exclude_and_retry_def split: prod.split sum.split)

lemma serve_finished:
  "serve_client L n refuses c (Inl e) w = (Some (Inl e), w)"
  "serve_client L n refuses c (Inr (Running s)) w = (Some (Inr (Running s)), w)"
  by (cases n; simp)+

lemma serve_run:
  "case_prod (serve_client L n refuses c) (run_session L b w) = apfst Some (run_session L b w)"
  by (simp add: run_session_def case_prod_unfold session_Run_effects(1) serve_finished)

lemma serve_refines_failover:
  assumes "failover (SelectBackend L) (ExcludeBackend L) n refuses (w_selector w) c = (Some r, sel')"
    and "sel_inv L V (w_selector w)" and "sel_pool L (w_selector w) \<noteq> {}"
    and "\<forall>b \<in> sel_pool L (w_selector w). IsIpEndpoint b"
  shows "\<exists>w'. w_selector w' = sel' \<and>
    case_prod (serve_client L n refuses c) (seek_backend L (Inr c) w) =
    (case r of Inl e \<Rightarrow> (Some (Inl e), w')
     | Inr b \<Rightarrow> (apfst Some (run_session L b w') :: 'a reaction result option \<times> _))"
  using assms
proof (induction n arbitrary: w)
  case (Suc n)
  obtain b sel1 where sel: "SelectBackend L (w_selector w) c = (Inr b, sel1)" "b \<in> sel_pool L (w_selector w)"
    "sel_inv L V sel1" "sel_pool L sel1 = sel_pool L (w_selector w)"
    using sel.select_cases [OF Suc.prems(2,3)] by metis
  with Suc.prems(4) obtain ep where b: "b = EndpointB ep" by (cases b) auto
  let ?w = "w\<lparr>w_selector := sel1\<rparr>"
  have accept: "seek_backend L (Inr c) w = (Inr (Trying (ConnectingIp ep b)), ?w)"
    by (simp add: seek_backend_def MakeAndRunSession_def sel(1) b)
  show ?case
  proof (cases "refuses b")
    case False
    with Suc.prems(1) sel(1) have r: "r = Inr b" "sel' = sel1" by simp_all
    have "case_prod (serve_client L (Suc n) refuses c) (seek_backend L (Inr c) w) =
        apfst Some (run_session L b ?w)"
      using False by (simp add: accept handle_alone_session serve_run)
    with r show ?thesis by (intro exI [of _ ?w]) (simp del: serve_client.simps)
  next
    case True
    note refused = this
    have b1: "b \<in> sel_pool L sel1" using sel by simp
    from sel(3) b1 show ?thesis
    proof (cases rule: sel.exclude_cases)
      case (last sel2)
      with Suc.prems(1) sel(1) refused have r: "r = Inl all_excluded" "sel' = sel2" by simp_all
      have "case_prod (serve_client L (Suc n) refuses c) (seek_backend L (Inr c) w) =
          (Some (Inl all_excluded), w\<lparr>w_selector := sel2\<rparr>)"
        using refused last(1) by (simp add: accept handle_alone_refused serve_finished)
      with r show ?thesis by (intro exI [of _ "w\<lparr>w_selector := sel2\<rparr>"]) (simp del: serve_client.simps)
    next
      case (more sel2)
      let ?w2 = "w\<lparr>w_selector := sel2\<rparr>"
      have "case_prod (serve_client L (Suc n) refuses c) (seek_backend L (Inr c) w) =
          (case_prod (serve_client L n refuses c) (seek_backend L (Inr c) ?w2) :: 'a reaction result option \<times> _)"
        using refused by (simp add: accept handle_alone_refused more(1) case_prod_unfold Let_def)
      moreover from Suc.prems(1) sel(1) refused more(1)
      have "failover (SelectBackend L) (ExcludeBackend L) n refuses (w_selector ?w2) c = (Some r, sel')" by simp
      moreover have "sel_inv L V (w_selector ?w2)" "sel_pool L (w_selector ?w2) \<noteq> {}"
        "\<forall>b \<in> sel_pool L (w_selector ?w2). IsIpEndpoint b"
        using more Suc.prems(4) sel(4) by auto
      ultimately show ?thesis using Suc.IH [of ?w2] by (simp del: serve_client.simps)
    qed
  qed
qed simp

text \<open>C3. The connector's handlers implement failover. When all backends are IP endpoints, accepting a
  client and completing its connection attempts, refused or successful, does what the abstract
  loop does: with as many attempts as the selector has entries it ends, and it runs a session with
  the backend that loop returns, or ends in its exception, leaving the same selector.\<close>

theorem connector_refines_failover:
  assumes "sel_inv L V (w_selector w)" and "sel_pool L (w_selector w) \<noteq> {}"
    and "\<forall>b \<in> sel_pool L (w_selector w). IsIpEndpoint b" and "sel_entries L (w_selector w) \<le> n"
  shows "\<exists>r w'. failover (SelectBackend L) (ExcludeBackend L) n refuses (w_selector w) c = (Some r, w_selector w') \<and>
    case_prod (serve_client L n refuses c) (seek_backend L (Inr c) w) =
    (case r of Inl e \<Rightarrow> (Some (Inl e), w')
     | Inr b \<Rightarrow> apfst Some (run_session L b w'))"
proof -
  obtain r sel' where f: "failover (SelectBackend L) (ExcludeBackend L) n refuses (w_selector w) c = (Some r, sel')"
    using sel.failover_terminates [OF assms(1,2,4), of refuses c] by (metis not_Some_eq prod.collapse)
  from serve_refines_failover [OF f assms(1-3)] f show ?thesis by blast
qed

definition sample_world :: "(sample_addr, sample_addr CounterWrapper lheap, nat, sample_addr AverageTimeWrapper lheap, nat) world" where
  "sample_world = \<lparr>w_selector = RoundRobinS sample_rr, w_clock = 0, w_next_id = 0\<rparr>"

theorem connector_refines_failover_witness:
  "\<exists>r w'. failover (SelectBackend sample_libs) (ExcludeBackend sample_libs) 3 (\<lambda>b. True) (RoundRobinS sample_rr) (sample_ep ''::1'' 1) =
      (Some r, w_selector w') \<and>
    case_prod (serve_client sample_libs 3 (\<lambda>b. True) (sample_ep ''::1'' 1))
      (seek_backend sample_libs (Inr (sample_ep ''::1'' 1)) sample_world :: sample_addr reaction result \<times> _) =
    (case r of Inl e \<Rightarrow> (Some (Inl e), w')
     | Inr b \<Rightarrow> apfst Some (run_session sample_libs b w'))"
proof -
  have w: "w_selector sample_world = RoundRobinS sample_rr" by (simp add: sample_world_def)
  have "sel_inv sample_libs sample_views (w_selector sample_world)" "sel_pool sample_libs (w_selector sample_world) \<noteq> {}"
    "\<forall>b \<in> sel_pool sample_libs (w_selector sample_world). IsIpEndpoint b" "sel_entries sample_libs (w_selector sample_world) \<le> 3"
    by (simp_all add: w sel_inv_def sel_pool_def sel_entries_def sample_rr_def)
  from connector_refines_failover [OF this, of "\<lambda>b. True" "sample_ep ''::1'' 1"]
  show ?thesis unfolding w by blast
qed

text \<open>Failover does not cover URL backends: when the connection to a resolved URL backend fails, by
  refusal or otherwise, the client is dropped and the selector left as it is, so the dead backend
  stays in the pool; and any failure of an IP backend other than a refusal is treated the same.\<close>

theorem failures_without_failover:
  "(ec \<noteq> Success \<longrightarrow> attempt_done L ec (ConnectingUrl b) w = (Inr Dropped, w)) \<and>
   (ec \<noteq> Success \<and> ec \<noteq> ConnectionRefused \<longrightarrow> attempt_done L ec (ConnectingIp ep b) w = (Inr Dropped, w)) \<and>
   (ec \<noteq> Success \<and> ec \<noteq> ConnectionRefused \<longrightarrow> attempt_done L ec (Resolving host port b) w = (Inr Dropped, w))"
  by (simp add: attempt_done_def HandleUrlConnect_def HandleIpConnect_def HandleResolve_def)

end
