(* ===== verification/Tcp_Acceptor.thy ===== *)
theory Tcp_Acceptor
  imports Connector
begin

section \<open>Accepting clients: \<^verbatim>\<open>src/lb/tcp/acceptor.hpp\<close> and \<^verbatim>\<open>acceptor.cpp\<close>\<close>

text \<open>
  The acceptor listens on one port and has at most one accept operation in flight. Opening and
  binding the socket is the system's: its outcome is an argument of the constructor. A completed
  accept gives an error code and, when it succeeded, a socket, whose local and remote endpoints
  are asked for and may throw.
\<close>

record acceptor_config =
  acc_port :: nat
  useIpV6 :: bool

datatype ip_family = V4 | V6

record listen_endpoint =
  le_family :: ip_family
  le_port :: "16 word"

record acceptor =
  acc_endpoint :: listen_endpoint
  acc_open :: bool
  acc_waiting :: bool

text \<open>
  \<^verbatim>\<open>PortType\<close> is \<^verbatim>\<open>unsigned\<close>; the endpoint's port is an \<^verbatim>\<open>unsigned short\<close>, and
  the conversion is implicit.
\<close>

definition AcceptorEndpoint :: "nat \<Rightarrow> bool \<Rightarrow> listen_endpoint" where
  "AcceptorEndpoint port v6 =
     (if v6 then \<lparr>le_family = V6, le_port = word_of_nat port\<rparr>
      else \<lparr>le_family = V4, le_port = word_of_nat port\<rparr>)"

definition Acceptor_ctor :: "(listen_endpoint \<Rightarrow> unit result) \<Rightarrow> acceptor_config \<Rightarrow> acceptor result" where
  "Acceptor_ctor bind config =
     (let ep = AcceptorEndpoint (acc_port config) (useIpV6 config)
      in rbind (bind ep) (\<lambda>_. Inr \<lparr>acc_endpoint = ep, acc_open = True, acc_waiting = False\<rparr>))"

definition Acceptor_of_port :: "(listen_endpoint \<Rightarrow> unit result) \<Rightarrow> nat \<Rightarrow> bool \<Rightarrow> acceptor result" where
  "Acceptor_of_port bind port v6 =
     rbind (bind (AcceptorEndpoint port v6)) (\<lambda>_.
       Inr \<lparr>acc_endpoint = AcceptorEndpoint port v6, acc_open = True, acc_waiting = False\<rparr>)"

definition DoAccept :: "acceptor \<Rightarrow> acceptor" where
  "DoAccept a = a\<lparr>acc_waiting := True\<rparr>"

definition Acceptor_Run :: "acceptor \<Rightarrow> acceptor" where
  "Acceptor_Run a = DoAccept a"

text \<open>
  The handler of the accept operation; the acceptor is given as it is when the operation has
  completed, with none in flight. The acceptor is armed again before the client is served. The
  handler ends in the connector's \<^verbatim>\<open>MakeAndRunSession\<close>.
\<close>

definition HandleAccept :: "error_code \<Rightarrow> unit result \<Rightarrow> acceptor \<Rightarrow> 'a reaction result \<times> acceptor" where
  "HandleAccept ec local a =
     (if ec \<noteq> Success then (Inr Dropped, a\<lparr>acc_open := False\<rparr>)
      else let a' = DoAccept a in
        (case local of
           Inl e \<Rightarrow> (Inl e, a')
         | Inr _ \<Rightarrow> (Inr Selecting, a')))"

text \<open>Cancelling makes the operation in flight complete with \<^verbatim>\<open>operation_aborted\<close>.\<close>

definition Acceptor_Stop :: "acceptor \<Rightarrow> error_code option" where
  "Acceptor_Stop a = (if acc_waiting a then Some OperationAborted else None)"

text \<open>The two constructors differ in the executor of the socket only.\<close>

lemma Acceptor_constructors: "Acceptor_ctor bind c = Acceptor_of_port bind (acc_port c) (useIpV6 c)"
  by (simp add: Acceptor_ctor_def Acceptor_of_port_def Let_def)

lemma AcceptorEndpoint_simps [simp]:
  "le_family (AcceptorEndpoint port v6) = (if v6 then V6 else V4)"
  "le_port (AcceptorEndpoint port v6) = word_of_nat port"
  by (simp_all add: AcceptorEndpoint_def)

end
