(* ===== verification/Balancer.thy ===== *)
theory Balancer
  imports Tcp_Acceptor
begin

section \<open>The running balancer\<close>

text \<open>
  The parts put together: the acceptor, the world of selector, clock and session numbers, the
  connection attempts in flight and the live sessions. The program runs the handlers of its
  \<^verbatim>\<open>io_context\<close> in several threads. What the handlers share, the selector and the session
  numbers, is behind the selector's mutex and an atomic; a step is one section of one handler that
  is atomic for the others. A handler that goes on to \<^verbatim>\<open>MakeAndRunSession\<close> after another
  access is between two steps in \<^verbatim>\<open>sys_selecting\<close>, and a session that its handler has let
  go is between its cancellation and its destruction in \<^verbatim>\<open>sys_closing\<close>.

  An exception that leaves a handler leaves \<^verbatim>\<open>io_context::run\<close> of its thread
  (\<^verbatim>\<open>sys_thrown\<close>), and the thread then stops the \<^verbatim>\<open>io_context\<close>; so does the signal handler.
  From then on no handler begins, but those that have begun run to their end. An exception that
  leaves a destructor aborts the process.

  \<^verbatim>\<open>sys_lost\<close> and \<^verbatim>\<open>sys_times\<close> are auxiliary: the program has no such variables, and no
  step depends on them. They record the backends selected for a client that was then dropped, and
  the response times measured.
\<close>

record ('a, 'h, 'k, 'l, 'm) system =
  sys_acceptor :: acceptor
  sys_world :: "('a, 'h, 'k, 'l, 'm) world"
  sys_selecting :: nat
  sys_attempts :: "'a attempt list"
  sys_sessions :: "'a visitor HttpSession list"
  sys_closing :: "'a visitor HttpSession list"
  sys_thrown :: "exn list"
  sys_stopped :: bool
  sys_aborted :: bool
  sys_lost :: "'a backend list"
  sys_times :: "('a backend \<times> 64 word) list"

datatype 'a sys_event =
    AcceptDone error_code "unit result"
  | SelectNow "'a endpoint result"
  | AttemptDone nat error_code
  | SessionDone nat "socket_outcome \<times> socket_outcome" completion
  | DestroySession nat "socket_outcome \<times> socket_outcome"
  | Tick "64 word"
  | Stop

definition balancer_start ::
    "acceptor \<Rightarrow> ('a, 'h, 'k, 'l, 'm) selector \<Rightarrow> ('a, 'h, 'k, 'l, 'm) system" where
  "balancer_start a sel =
     \<lparr>sys_acceptor = Acceptor_Run a, sys_world = \<lparr>w_selector = sel, w_clock = 0, w_next_id = 0\<rparr>,
      sys_selecting = 0, sys_attempts = [], sys_sessions = [], sys_closing = [],
      sys_thrown = [], sys_stopped = False, sys_aborted = False, sys_lost = [], sys_times = []\<rparr>"

definition throw :: "exn \<Rightarrow> ('a, 'h, 'k, 'l, 'm) system \<Rightarrow> ('a, 'h, 'k, 'l, 'm) system" where
  "throw e S = S\<lparr>sys_thrown := sys_thrown S @ [e]\<rparr>"

text \<open>Where the reaction of a handler goes.\<close>

definition settle ::
    "'a reaction result \<times> ('a, 'h, 'k, 'l, 'm) world \<Rightarrow> ('a, 'h, 'k, 'l, 'm) system \<Rightarrow>
     ('a, 'h, 'k, 'l, 'm) system" where
  "settle x S =
     (let S' = S\<lparr>sys_world := snd x\<rparr> in
      case fst x of
        Inl e \<Rightarrow> throw e S'
      | Inr Dropped \<Rightarrow> S'
      | Inr Selecting \<Rightarrow> S'\<lparr>sys_selecting := Suc (sys_selecting S)\<rparr>
      | Inr (Trying a) \<Rightarrow> S'\<lparr>sys_attempts := sys_attempts S @ [a]\<rparr>
      | Inr (Running s) \<Rightarrow> S'\<lparr>sys_sessions := sys_sessions S @ [s]\<rparr>)"

definition on_accept ::
    "error_code \<Rightarrow> unit result \<Rightarrow> ('a, 'h, 'k, 'l, 'm) system \<Rightarrow> ('a, 'h, 'k, 'l, 'm) system" where
  "on_accept ec local S =
     (case HandleAccept ec local ((sys_acceptor S)\<lparr>acc_waiting := False\<rparr>) of
        (r, a) \<Rightarrow> settle (r, sys_world S) (S\<lparr>sys_acceptor := a\<rparr>))"

definition on_select ::
    "('a, 'h, 'k, 'l, 'm) libs \<Rightarrow> 'a endpoint result \<Rightarrow> ('a, 'h, 'k, 'l, 'm) system \<Rightarrow>
     ('a, 'h, 'k, 'l, 'm) system" where
  "on_select L peer S = settle (seek_backend L peer (sys_world S)) (S\<lparr>sys_selecting := sys_selecting S - 1\<rparr>)"

definition on_attempt ::
    "('a, 'h, 'k, 'l, 'm) libs \<Rightarrow> nat \<Rightarrow> error_code \<Rightarrow>
     ('a, 'h, 'k, 'l, 'm) system \<Rightarrow> ('a, 'h, 'k, 'l, 'm) system" where
  "on_attempt L i ec S =
     (let a = sys_attempts S ! i; x = attempt_done L ec a (sys_world S) in
      settle x (S\<lparr>sys_attempts := erase_at i (sys_attempts S),
                  sys_lost := sys_lost S @ (case fst x of Inr Dropped \<Rightarrow> [attempt_backend a] | _ \<Rightarrow> [])\<rparr>))"

fun response_times :: "64 word \<Rightarrow> 'a visitor HttpSession \<Rightarrow> completion \<Rightarrow> ('a backend \<times> 64 word) list" where
  "response_times now s (ServerReadDone Success r rest) =
     (case session_visitor s of
        Some (LeastResponseTimeCallbacks b response_begin response_end) \<Rightarrow> [(b, now - response_begin)]
      | _ \<Rightarrow> [])"
| "response_times now s c = []"

text \<open>
  A session's handler either starts the next operation or lets the last reference to the session
  go. Its destructor runs even when the handler threw.
\<close>

definition on_session ::
    "reuse \<Rightarrow> ('a, 'h, 'k, 'l, 'm) libs \<Rightarrow> nat \<Rightarrow> socket_outcome \<times> socket_outcome \<Rightarrow> completion \<Rightarrow>
     ('a, 'h, 'k, 'l, 'm) system \<Rightarrow> ('a, 'h, 'k, 'l, 'm) system" where
  "on_session R L i out c S =
     (let s0 = sys_sessions S ! i in
      case run_handler R (visitor_call L) out c (s0, sys_world S) of
        (r, s, w) \<Rightarrow>
          (let S1 = S\<lparr>sys_world := w, sys_times := sys_times S @ response_times (w_clock (sys_world S)) s0 c\<rparr>;
               S2 = (if pending s = None
                     then S1\<lparr>sys_sessions := erase_at i (sys_sessions S), sys_closing := sys_closing S @ [s]\<rparr>
                     else S1\<lparr>sys_sessions := (sys_sessions S)[i := s]\<rparr>)
           in case r of Inl e \<Rightarrow> throw e S2 | Inr _ \<Rightarrow> S2))"

definition on_destroy ::
    "('a, 'h, 'k, 'l, 'm) libs \<Rightarrow> nat \<Rightarrow> socket_outcome \<times> socket_outcome \<Rightarrow>
     ('a, 'h, 'k, 'l, 'm) system \<Rightarrow> ('a, 'h, 'k, 'l, 'm) system" where
  "on_destroy L j out S =
     (case HttpSession_dtor (visitor_call L) out (sys_closing S ! j, sys_world S) of
        (f, s, w) \<Rightarrow> S\<lparr>sys_world := w, sys_closing := erase_at j (sys_closing S), sys_aborted := (f = Terminated)\<rparr>)"

definition on_tick :: "64 word \<Rightarrow> ('a, 'h, 'k, 'l, 'm) system \<Rightarrow> ('a, 'h, 'k, 'l, 'm) system" where
  "on_tick t S = S\<lparr>sys_world := (sys_world S)\<lparr>w_clock := w_clock (sys_world S) + t\<rparr>\<rparr>"

definition begins :: "('a, 'h, 'k, 'l, 'm) system \<Rightarrow> bool" where
  "begins S \<longleftrightarrow> \<not> sys_stopped S \<and> \<not> sys_aborted S"

inductive sys_step ::
    "reuse \<Rightarrow> ('a, 'h, 'k, 'l, 'm) libs \<Rightarrow> ('a, 'h, 'k, 'l, 'm) system \<Rightarrow> 'a sys_event \<Rightarrow>
     ('a, 'h, 'k, 'l, 'm) system \<Rightarrow> bool"
  for R L where
  accept: "begins S \<Longrightarrow> acc_waiting (sys_acceptor S) \<Longrightarrow>
    sys_step R L S (AcceptDone ec local) (on_accept ec local S)"
| attempt: "begins S \<Longrightarrow> i < length (sys_attempts S) \<Longrightarrow>
    sys_step R L S (AttemptDone i ec) (on_attempt L i ec S)"
| session: "begins S \<Longrightarrow> i < length (sys_sessions S) \<Longrightarrow> completes (pending (sys_sessions S ! i)) c \<Longrightarrow>
    sys_step R L S (SessionDone i out c) (on_session R L i out c S)"
| select: "\<not> sys_aborted S \<Longrightarrow> sys_selecting S > 0 \<Longrightarrow>
    sys_step R L S (SelectNow peer) (on_select L peer S)"
| destroy: "\<not> sys_aborted S \<Longrightarrow> j < length (sys_closing S) \<Longrightarrow>
    sys_step R L S (DestroySession j out) (on_destroy L j out S)"
| tick: "\<not> sys_aborted S \<Longrightarrow> sys_step R L S (Tick t) (on_tick t S)"
| stop: "\<not> sys_aborted S \<Longrightarrow> sys_step R L S Stop (S\<lparr>sys_stopped := True\<rparr>)"

inductive_cases sys_step_cases: "sys_step R L S ev T"
inductive_simps sys_step_accept: "sys_step R L S (AcceptDone ec local) T"
inductive_simps sys_step_attempt: "sys_step R L S (AttemptDone i ec) T"
inductive_simps sys_step_select: "sys_step R L S (SelectNow peer) T"
inductive_simps sys_step_session: "sys_step R L S (SessionDone i out c) T"
inductive_simps sys_step_destroy: "sys_step R L S (DestroySession j out) T"
inductive_simps sys_step_stop: "sys_step R L S Stop T"

text \<open>What is reachable by steps of which \<open>I\<close> holds, of the state they start from and their input.\<close>

inductive sys_reach ::
    "reuse \<Rightarrow> ('a, 'h, 'k, 'l, 'm) libs \<Rightarrow> (('a, 'h, 'k, 'l, 'm) system \<Rightarrow> 'a sys_event \<Rightarrow> bool) \<Rightarrow>
     ('a, 'h, 'k, 'l, 'm) system \<Rightarrow> ('a, 'h, 'k, 'l, 'm) system \<Rightarrow> bool"
  for R L I S where
  here: "sys_reach R L I S S"
| after: "sys_reach R L I S T \<Longrightarrow> sys_step R L T ev U \<Longrightarrow> I T ev \<Longrightarrow> sys_reach R L I S U"

abbreviation any_event :: "('a, 'h, 'k, 'l, 'm) system \<Rightarrow> 'a sys_event \<Rightarrow> bool" where
  "any_event \<equiv> \<lambda>S ev. True"

lemma sys_reach_trans: "sys_reach R L I T U \<Longrightarrow> sys_reach R L I S T \<Longrightarrow> sys_reach R L I S U"
  by (induction rule: sys_reach.induct) (auto intro: sys_reach.after)

lemma sys_reach_weaken: "sys_reach R L I S T \<Longrightarrow> (\<And>S ev. I S ev \<Longrightarrow> J S ev) \<Longrightarrow> sys_reach R L J S T"
  by (induction rule: sys_reach.induct) (auto intro: sys_reach.intros)

lemma sys_reach_step: "sys_reach R L any_event S T \<Longrightarrow> sys_step R L T ev U \<Longrightarrow> sys_reach R L any_event S U"
  by (rule sys_reach.after) simp_all

lemma sys_reach_first: "sys_step R L S ev T \<Longrightarrow> I S ev \<Longrightarrow> sys_reach R L I T U \<Longrightarrow> sys_reach R L I S U"
  using sys_reach_trans [OF _ sys_reach.after [OF sys_reach.here]] by blast

lemma throw_simps [simp]:
  "sys_thrown (throw e S) = sys_thrown S @ [e]" "sys_world (throw e S) = sys_world S"
  "sys_acceptor (throw e S) = sys_acceptor S" "sys_selecting (throw e S) = sys_selecting S"
  "sys_attempts (throw e S) = sys_attempts S" "sys_sessions (throw e S) = sys_sessions S"
  "sys_closing (throw e S) = sys_closing S" "sys_stopped (throw e S) = sys_stopped S"
  "sys_aborted (throw e S) = sys_aborted S" "sys_lost (throw e S) = sys_lost S" "sys_times (throw e S) = sys_times S"
  by (simp_all add: throw_def)

lemma settle_same [simp]:
  "sys_world (settle x S) = snd x" "sys_acceptor (settle x S) = sys_acceptor S" "sys_lost (settle x S) = sys_lost S"
  "sys_times (settle x S) = sys_times S" "sys_closing (settle x S) = sys_closing S"
  "sys_stopped (settle x S) = sys_stopped S" "sys_aborted (settle x S) = sys_aborted S"
  by (auto simp: settle_def Let_def split: sum.splits reaction.splits)

lemma settle_simps:
  "sys_thrown (settle x S) = sys_thrown S @ (case fst x of Inl e \<Rightarrow> [e] | Inr r \<Rightarrow> [])"
  "sys_attempts (settle x S) = sys_attempts S @ (case fst x of Inr (Trying a) \<Rightarrow> [a] | _ \<Rightarrow> [])"
  "sys_sessions (settle x S) = sys_sessions S @ (case fst x of Inr (Running s) \<Rightarrow> [s] | _ \<Rightarrow> [])"
  "sys_selecting (settle x S) = sys_selecting S + (case fst x of Inr Selecting \<Rightarrow> 1 | _ \<Rightarrow> 0)"
  by (auto simp: settle_def Let_def split: sum.splits reaction.splits)

subsection \<open>The visitors of the sessions\<close>

text \<open>
  A step never changes the class of the selector, and the visitors of all sessions, running or being
  closed, are those of that class: no visitor has a null pointer for its selector.
\<close>

lemma seek_Type [simp]: "selector_Type (w_selector (snd (seek_backend L peer w))) = selector_Type (w_selector w)"
  using selector_Type_Select [of L "w_selector w"]
  by (auto simp: seek_backend_def MakeAndRunSession_def split: sum.splits prod.splits backend.splits simp del: selector_Type_Select)
    (metis snd_conv)+

lemma exclude_Type [simp]: "selector_Type (w_selector (snd (exclude_and_retry L b w))) = selector_Type (w_selector w)"
  using selector_Type_Exclude [of L "w_selector w" b]
  by (auto simp: exclude_and_retry_def split: sum.splits prod.splits simp del: selector_Type_Exclude)

lemma told_Type [simp]: "selector_Type (w_selector (snd (told (visitor_call L) n (v, w)))) = selector_Type (w_selector w)"
  by (cases v) (simp_all add: told_def selector_Type_visitor)

lemma MakeSession_selector [simp]: "w_selector (snd (MakeSession b w)) = w_selector w"
  by (simp add: MakeSession_def Let_def case_prod_unfold)

lemma run_session_tells:
  "snd (run_session L b w) = snd (told (visitor_call L) OnConnect (view (MakeSession b w)))"
  unfolding session_Run_effects(3) [symmetric] by (auto simp: run_session_def split: prod.splits sum.splits)

lemma run_session_Type [simp]: "selector_Type (w_selector (snd (run_session L b w))) = selector_Type (w_selector w)"
  by (simp add: run_session_tells)

lemma run_session_fits:
  assumes "fst (run_session L b w) = Inr (Running x)"
  shows "visitor_fits (selector_Type (w_selector w)) (session_visitor x)"
proof -
  from assms have "x = fst (snd (session_Run (visitor_call L) (MakeSession b w)))"
    by (auto simp: run_session_def split: prod.splits sum.splits)
  then have "session_visitor x = fst (told (visitor_call L) OnConnect (view (MakeSession b w)))"
    using session_Run_effects(3) [of "visitor_call L" "MakeSession b w"] by (metis fst_conv)
  with visitor_fits_made [of w b] show ?thesis by (simp add: visitor_fits_told)
qed

lemma attempt_Type [simp]: "selector_Type (w_selector (snd (attempt_done L ec a w))) = selector_Type (w_selector w)"
  by (cases a) (auto simp: attempt_done_def HandleIpConnect_def HandleResolve_def HandleUrlConnect_def)

lemma attempt_Running:
  "fst (attempt_done L ec a w) = Inr (Running x) \<Longrightarrow> visitor_fits (selector_Type (w_selector w)) (session_visitor x)"
  by (cases a) (auto simp: attempt_done_def HandleIpConnect_def HandleResolve_def HandleUrlConnect_def exclude_and_retry_def
      run_session_fits split: if_splits sum.splits prod.splits)

definition visitors_fit :: "('a, 'h, 'k, 'l, 'm) system \<Rightarrow> bool" where
  "visitors_fit S \<longleftrightarrow> (\<forall>x \<in> set (sys_sessions S) \<union> set (sys_closing S).
     visitor_fits (selector_Type (w_selector (sys_world S))) (session_visitor x))"

lemma handler_fits:
  "visitor_fits type (session_visitor (fst (snd (run_handler R (visitor_call L) out c x)))) \<longleftrightarrow>
    visitor_fits type (session_visitor (fst x))"
  "selector_Type (w_selector (snd (snd (run_handler R (visitor_call L) out c x)))) = selector_Type (w_selector (snd x))"
  using handler_tells [of R "visitor_call L" out c x] by (metis fst_conv snd_conv visitor_fits_told told_Type)+

lemma visitors_fit_step:
  fixes L :: "('a, 'h, 'k, 'l, 'm) libs"
  assumes "sys_step R L S ev T" and "visitors_fit S"
  shows "visitors_fit T \<and> selector_Type (w_selector (sys_world T)) = selector_Type (w_selector (sys_world S))"
  using assms(1)
proof cases
  case (accept ec local)
  have "HandleAccept ec local a \<noteq> (Inr (Running x :: 'a reaction), a')" for x a a'
    by (simp add: HandleAccept_def Let_def split: sum.split)
  with assms(2) accept show ?thesis
    by (auto simp: visitors_fit_def on_accept_def settle_simps split: prod.splits sum.splits reaction.splits)
next
  case (attempt i ec)
  with assms(2) show ?thesis
    by (auto simp: visitors_fit_def on_attempt_def Let_def settle_simps attempt_Running split: sum.splits reaction.splits)
next
  case (select peer)
  have "Inr (Running x) \<noteq> fst (seek_backend L peer (sys_world S))" for x
    by (auto simp: seek_backend_def MakeAndRunSession_def split: sum.splits prod.splits backend.splits)
  with assms(2) select show ?thesis
    by (auto simp: visitors_fit_def on_select_def settle_simps split: sum.splits reaction.splits)
next
  case (session i c out)
  obtain r x w where h: "run_handler R (visitor_call L) out c (sys_sessions S ! i, sys_world S) = (r, x, w)" by (metis prod.collapse)
  let ?type = "selector_Type (w_selector (sys_world S))"
  from handler_fits [where R = R and L = L and out = out and c = c and x = "(sys_sessions S ! i, sys_world S)"]
  have x: "visitor_fits ?type (session_visitor x) \<longleftrightarrow> visitor_fits ?type (session_visitor (sys_sessions S ! i))"
    and w: "selector_Type (w_selector w) = ?type" by (simp_all add: h)
  from session(4) assms(2) have "visitor_fits ?type (session_visitor x)" by (simp add: x visitors_fit_def)
  with assms(2) w set_erase_at_subset [of i "sys_sessions S"] show ?thesis
    unfolding session(2)
    by (auto simp: visitors_fit_def on_session_def h Let_def split: sum.splits dest!: set_update_subset_insert [THEN subsetD])
next
  case (destroy j out)
  obtain f x w where h: "HttpSession_dtor (visitor_call L) out (sys_closing S ! j, sys_world S) = (f, x, w)" by (metis prod.collapse)
  from dtor_tells [of "visitor_call L" out "(sys_closing S ! j, sys_world S)"]
  have "selector_Type (w_selector w) = selector_Type (w_selector (sys_world S))"
    unfolding h by (metis snd_conv fst_conv told_Type)
  with assms(2) set_erase_at_subset [of j "sys_closing S"] show ?thesis
    unfolding destroy(2) by (auto simp: visitors_fit_def on_destroy_def h)
qed (use assms(2) in \<open>simp_all add: visitors_fit_def on_tick_def\<close>)

lemma visitors_fit_reach:
  assumes "sys_reach R L I (balancer_start a s) S"
  shows "visitors_fit S \<and> selector_Type (w_selector (sys_world S)) = selector_Type s"
  using assms
proof induction
  case (after T ev U)
  from visitors_fit_step [OF after.hyps(2)] after.IH show ?case by simp
qed (simp add: visitors_fit_def balancer_start_def)

subsection \<open>Steps that call the heap as documented\<close>

text \<open>
  What a step does to the heap of the selector is seen by making it on the heap that watches. Its
  calls are as documented unless a session of the counting selectors reports the end of a
  connection or a response.
\<close>

primrec sys_apply ::
    "reuse \<Rightarrow> ('a, 'h, 'k, 'l, 'm) libs \<Rightarrow> 'a sys_event \<Rightarrow> ('a, 'h, 'k, 'l, 'm) system \<Rightarrow>
     ('a, 'h, 'k, 'l, 'm) system" where
  "sys_apply R L (AcceptDone ec local) S = on_accept ec local S"
| "sys_apply R L (SelectNow peer) S = on_select L peer S"
| "sys_apply R L (AttemptDone i ec) S = on_attempt L i ec S"
| "sys_apply R L (SessionDone i out c) S = on_session R L i out c S"
| "sys_apply R L (DestroySession j out) S = on_destroy L j out S"
| "sys_apply R L (Tick t) S = on_tick t S"
| "sys_apply R L Stop S = S\<lparr>sys_stopped := True\<rparr>"

lemma sys_step_apply: "sys_step R L S ev T \<Longrightarrow> T = sys_apply R L ev S"
  by (auto elim: sys_step_cases)

definition audit_system ::
    "('a, 'h, 'k, 'l, 'm) system \<Rightarrow>
     ('a, ('h, 'k, 'a CounterWrapper) audit_heap, 'k, ('l, 'm, 'a AverageTimeWrapper) audit_heap, 'm) system" where
  "audit_system S =
     \<lparr>sys_acceptor = sys_acceptor S, sys_world = audit_world (sys_world S), sys_selecting = sys_selecting S,
      sys_attempts = sys_attempts S, sys_sessions = sys_sessions S, sys_closing = sys_closing S,
      sys_thrown = sys_thrown S, sys_stopped = sys_stopped S, sys_aborted = sys_aborted S,
      sys_lost = sys_lost S, sys_times = sys_times S\<rparr>"

lemma audit_system_simps [simp]:
  "sys_world (audit_system S) = audit_world (sys_world S)" "sys_attempts (audit_system S) = sys_attempts S"
  "sys_sessions (audit_system S) = sys_sessions S" "sys_closing (audit_system S) = sys_closing S"
  "sys_acceptor (audit_system S) = sys_acceptor S"
  by (simp_all add: audit_system_def)

definition heap_calls_documented ::
    "reuse \<Rightarrow> ('a, 'h, 'k, 'l, 'm) libs \<Rightarrow> ('a, 'h, 'k, 'l, 'm) system \<Rightarrow> 'a sys_event \<Rightarrow> bool" where
  "heap_calls_documented R L S ev \<longleftrightarrow>
     audit_passed (w_selector (sys_world (sys_apply R (audited_libs L) ev (audit_system S))))"

lemma documented_seek [simp]: "audit_passed (w_selector (snd (seek_backend (audited_libs L) peer (audit_world w))))"
  using Select_audit [of L "w_selector w"]
  by (auto simp: seek_backend_def MakeAndRunSession_def split: sum.splits prod.splits backend.splits simp del: Select_audit)
    (metis snd_conv)+

lemma documented_exclude: "audit_passed (w_selector (snd (exclude_and_retry (audited_libs L) b (audit_world w))))"
  using Exclude_audit [of L "w_selector w" b]
  by (auto simp: exclude_and_retry_def split: sum.splits prod.splits simp del: Exclude_audit)

lemma MakeSession_audit:
  "view (MakeSession b (audit_world w)) = (session_visitor (fst (MakeSession b w)), audit_world (snd (MakeSession b w)))"
  by (simp add: MakeSession_def Let_def case_prod_unfold audit_world_def)

lemma documented_run_session: "audit_passed (w_selector (snd (run_session (audited_libs L) b (audit_world w))))"
  unfolding run_session_tells MakeSession_audit using told_documented_connect [unfolded told_documented_def] .

lemma documented_attempt [simp]: "audit_passed (w_selector (snd (attempt_done (audited_libs L) ec a (audit_world w))))"
  by (cases a) (simp_all add: attempt_done_def HandleIpConnect_def HandleResolve_def HandleUrlConnect_def
      documented_exclude documented_run_session)

lemma documented_simps [simp]:
  "heap_calls_documented R L S (AcceptDone ec local)" "heap_calls_documented R L S (SelectNow peer)"
  "heap_calls_documented R L S (AttemptDone i ec)" "heap_calls_documented R L S (Tick t)"
  "heap_calls_documented R L S Stop"
  by (simp_all add: heap_calls_documented_def on_accept_def on_select_def on_attempt_def Let_def on_tick_def split: prod.split)

lemma documented_session:
  "heap_calls_documented R L S (SessionDone i out c) \<longleftrightarrow>
    isl (fst (run_handler R (visitor_call L) out c (sys_sessions S ! i, sys_world S))) \<or>
    told_documented L (if completion_ec c = Success then announcement c else OnDisconnect)
      (session_visitor (sys_sessions S ! i)) (sys_world S)"
proof -
  let ?x = "sys_sessions S ! i" and ?w = "sys_world S" and ?A = "audited_libs L"
  let ?h = "run_handler R (visitor_call ?A) out c (?x, audit_world ?w)"
  have "sys_world (on_session R ?A i out c (audit_system S)) = snd (snd ?h)"
    by (auto simp: on_session_def Let_def split: prod.splits sum.splits)
  moreover have "fst ?h = fst (run_handler R (visitor_call L) out c (?x, ?w))"
    by (rule handler_result_same)
  moreover have "snd (snd ?h) = (if isl (fst ?h) then audit_world ?w
      else snd (told (visitor_call ?A) (if completion_ec c = Success then announcement c else OnDisconnect) (session_visitor ?x, audit_world ?w)))"
    using handler_tells [of R "visitor_call ?A" out c "(?x, audit_world ?w)"] by (metis (no_types, lifting) fst_conv snd_conv)
  ultimately show ?thesis by (simp add: heap_calls_documented_def told_documented_def)
qed

lemma documented_destroy:
  "heap_calls_documented R L S (DestroySession j out) \<longleftrightarrow>
    fst (HttpSession_dtor (visitor_call L) out (sys_closing S ! j, sys_world S)) = Terminated \<or>
    told_documented L OnDisconnect (session_visitor (sys_closing S ! j)) (sys_world S)"
proof -
  let ?x = "sys_closing S ! j" and ?w = "sys_world S" and ?A = "audited_libs L"
  let ?h = "HttpSession_dtor (visitor_call ?A) out (?x, audit_world ?w)"
  have "sys_world (on_destroy ?A j out (audit_system S)) = snd (snd ?h)"
    by (simp add: on_destroy_def split: prod.splits)
  moreover have "fst ?h = fst (HttpSession_dtor (visitor_call L) out (?x, ?w))"
    by (rule dtor_result_same)
  moreover have "snd (snd ?h) = (if fst ?h = Terminated then audit_world ?w
      else snd (told (visitor_call ?A) OnDisconnect (session_visitor ?x, audit_world ?w)))"
    using dtor_tells [of "visitor_call ?A" out "(?x, audit_world ?w)"] by (metis (no_types, lifting) fst_conv snd_conv)
  ultimately show ?thesis by (simp add: heap_calls_documented_def told_documented_def)
qed

text \<open>Four of the algorithms have no heap, and what does not end a session keeps its contract.\<close>

lemma documented_off_heap: "\<not> on_heap (selector_Type (w_selector (sys_world S))) \<Longrightarrow> heap_calls_documented R L S ev"
  by (cases ev) (simp_all add: documented_session documented_destroy told_documented_off_heap)

lemma reach_off_heap:
  assumes "sys_reach R L I (balancer_start a s) S" and "\<not> on_heap (selector_Type s)"
  shows "heap_calls_documented R L S ev"
  using documented_off_heap visitors_fit_reach [OF assms(1)] assms(2) by metis

subsection \<open>Exceptions are not forgotten\<close>

text \<open>What is shown of the balancer's account holds until an exception leaves a handler or a destructor.\<close>

definition unharmed :: "('a, 'h, 'k, 'l, 'm) system \<Rightarrow> bool" where
  "unharmed S \<longleftrightarrow> sys_thrown S = [] \<and> \<not> sys_aborted S"

lemma thrown_step:
  assumes "sys_step R L S ev T"
  shows "\<exists>es. sys_thrown T = sys_thrown S @ es"
  using assms
  by cases (auto simp: on_accept_def on_attempt_def on_select_def on_session_def on_destroy_def on_tick_def Let_def
      settle_simps split: prod.splits sum.splits)

lemma unharmed_step: "sys_step R L S ev T \<Longrightarrow> unharmed T \<Longrightarrow> unharmed S"
  using thrown_step [of R L S ev T] by (auto simp: unharmed_def begins_def elim!: sys_step_cases)

subsection \<open>A failed accept\<close>

lemma not_waiting_step:
  assumes "sys_step R L S ev T" and "\<not> acc_waiting (sys_acceptor S)"
  shows "\<not> acc_waiting (sys_acceptor T)"
  using assms
  by cases (auto simp: on_attempt_def on_select_def on_session_def on_destroy_def on_tick_def Let_def
      split: prod.splits sum.splits)

lemma not_waiting_reach:
  "sys_reach R L I S T \<Longrightarrow> \<not> acc_waiting (sys_acceptor S) \<Longrightarrow> \<not> acc_waiting (sys_acceptor T)"
  by (induction rule: sys_reach.induct) (use not_waiting_step in blast)+

text \<open>C20. An accept that fails, for want of a file descriptor for example, closes the acceptor and
  nothing else: the balancer goes on serving the sessions it has, and never accepts a client again.\<close>

theorem accept_error_is_final:
  assumes "sys_step R L S (AcceptDone ec local) T" and "ec \<noteq> Success" and "sys_reach R L I T U"
  shows "sys_thrown T = sys_thrown S \<and> sys_sessions T = sys_sessions S \<and> sys_attempts T = sys_attempts S \<and>
    \<not> acc_waiting (sys_acceptor U) \<and> \<not> sys_step R L U (AcceptDone ec' local') W"
proof -
  from assms(1,2) have T: "T = settle (Inr Dropped, sys_world S)
      (S\<lparr>sys_acceptor := (sys_acceptor S)\<lparr>acc_waiting := False, acc_open := False\<rparr>\<rparr>)"
    by (simp add: sys_step_accept on_accept_def HandleAccept_def)
  then have "\<not> acc_waiting (sys_acceptor U)"
    by (intro not_waiting_reach [OF assms(3)]) simp
  with T show ?thesis by (simp add: sys_step_accept settle_simps)
qed

definition sample_acceptor :: acceptor where
  "sample_acceptor = \<lparr>acc_endpoint = AcceptorEndpoint 9090 False, acc_open = True, acc_waiting = False\<rparr>"

type_synonym sample_system =
  "(sample_addr, sample_addr CounterWrapper lheap, nat, sample_addr AverageTimeWrapper lheap, nat) system"

definition sample_rr_start :: sample_system where
  "sample_rr_start = balancer_start sample_acceptor (RoundRobinS sample_rr)"

theorem accept_error_is_final_witness:
  "\<not> acc_waiting (sys_acceptor (on_accept (OtherError ''EMFILE'') (Inr ()) sample_rr_start))"
proof -
  have "sys_step appending sample_libs sample_rr_start (AcceptDone (OtherError ''EMFILE'') (Inr ()))
      (on_accept (OtherError ''EMFILE'') (Inr ()) sample_rr_start)"
    by (simp add: sys_step_accept sample_rr_start_def balancer_start_def Acceptor_Run_def DoAccept_def begins_def)
  from accept_error_is_final [OF this _ sys_reach.here] show ?thesis by simp
qed

text \<open>One client accepted and a backend selected for it.\<close>

definition sample_accepted :: "sample_system \<Rightarrow> sample_system" where
  "sample_accepted S = on_select sample_libs (Inr (sample_ep ''::1'' 1)) (on_accept Success (Inr ()) S)"

lemma sample_accepted_steps:
  assumes "begins S" and "acc_waiting (sys_acceptor S)"
  shows "\<exists>T. sys_step appending sample_libs S (AcceptDone Success (Inr ())) T \<and>
    sys_step appending sample_libs T (SelectNow (Inr (sample_ep ''::1'' 1))) (sample_accepted S)"
proof -
  let ?T = "on_accept Success (Inr ()) S"
  have T: "sys_step appending sample_libs S (AcceptDone Success (Inr ())) ?T" "sys_selecting ?T > 0" "\<not> sys_aborted ?T"
    using assms by (simp_all add: sys_step_accept on_accept_def HandleAccept_def settle_simps begins_def)
  then have "sys_step appending sample_libs ?T (SelectNow (Inr (sample_ep ''::1'' 1))) (sample_accepted S)"
    by (simp add: sys_step_select sample_accepted_def)
  with T(1) show ?thesis by blast
qed

lemma sample_accepted_reach:
  "begins S \<Longrightarrow> acc_waiting (sys_acceptor S) \<Longrightarrow> sys_reach appending sample_libs any_event S (sample_accepted S)"
  using sample_accepted_steps sys_reach_step [OF sys_reach_step [OF sys_reach.here]] by blast

end
