(* ===== verification/Balancer_Safety.thy ===== *)
theory Balancer_Safety
  imports Balancer
begin

section \<open>What a balancer never does\<close>

text \<open>
  Every call of a selector has a precondition: the pool is not empty, and the backend excluded is
  one the selector can still resolve. This theory shows that the handlers keep to it in every
  interleaving, as long as no handler has excluded the last backend; and that once one has, the
  rest of another handler that is already running does not.
\<close>

subsection \<open>Between two calls of the selector\<close>

definition evolved ::
    "('a, 'h, 'k, 'l, 'm) libs \<Rightarrow> ('a, 'h, 'k, 'l, 'm) views \<Rightarrow> ('a, 'h, 'k, 'l, 'm) selector \<Rightarrow>
     ('a, 'h, 'k, 'l, 'm) selector \<Rightarrow> bool" where
  "evolved L V s t \<longleftrightarrow> sel_inv L V t \<and> sel_pool L t \<noteq> {} \<and> sel_pool L t \<subseteq> sel_pool L s \<and>
     (\<forall>x. sel_known L s x \<longrightarrow> sel_known L t x) \<and> (sel_single s \<longrightarrow> sel_single t)"

lemma evolved_refl: "sel_inv L V s \<Longrightarrow> sel_pool L s \<noteq> {} \<Longrightarrow> evolved L V s s"
  by (simp add: evolved_def)

lemma evolved_kept: "kept L V s t \<Longrightarrow> sel_pool L s \<noteq> {} \<Longrightarrow> evolved L V s t"
  by (simp add: evolved_def kept_def)

definition system_error :: "exn \<Rightarrow> bool" where
  "system_error e \<longleftrightarrow> (\<exists>m. e = SystemError m)"

lemma system_error_simps [simp]: "system_error (SystemError m)" "\<not> system_error all_excluded"
  by (simp_all add: system_error_def all_excluded_def)

text \<open>What may come of a handler that finds the selector \<open>s\<close> and the configured backends \<open>P\<close>.\<close>

definition safe ::
    "('a, 'h, 'k, 'l, 'm) libs \<Rightarrow> ('a, 'h, 'k, 'l, 'm) views \<Rightarrow> 'a backend set \<Rightarrow> ('a, 'h, 'k, 'l, 'm) selector \<Rightarrow>
     'a reaction result \<times> ('a, 'h, 'k, 'l, 'm) world \<Rightarrow> bool" where
  "safe L V P s x \<longleftrightarrow>
     (case fst x of
        Inl e \<Rightarrow> e = all_excluded \<or> system_error e \<and> evolved L V s (w_selector (snd x))
      | Inr r \<Rightarrow> evolved L V s (w_selector (snd x)) \<and>
          (\<forall>a. r = Trying a \<longrightarrow> sel_known L (w_selector (snd x)) (attempt_backend a) \<and> attempt_backend a \<in> P))"

lemma safe_seek:
  assumes "sel_inv L V (w_selector w)" and "sel_pool L (w_selector w) \<noteq> {}" and "sel_pool L (w_selector w) \<subseteq> P"
    and "\<And>e. peer = Inl e \<Longrightarrow> system_error e"
  shows "safe L V P (w_selector w) (seek_backend L peer w)"
proof (cases peer)
  case (Inl e)
  with assms evolved_refl [OF assms(1,2)] show ?thesis by (simp add: seek_backend_def MakeAndRunSession_def safe_def)
next
  case (Inr client)
  obtain b t where b: "SelectBackend L (w_selector w) client = (Inr b, t)" "b \<in> sel_pool L (w_selector w)" "sel_inv L V t"
    "sel_pool L t = sel_pool L (w_selector w)"
    using sel.select_cases [OF assms(1,2)] by metis
  have "sel_known L t x" if "sel_known L (w_selector w) x" for x
    using sel.select_known [OF assms(1,2) that, of client] b(1) by simp
  moreover from b have "sel_known L t b" by (simp add: sel.member_known [OF b(3)])
  moreover have "sel_single t" if "sel_single (w_selector w)"
    using sel.select_single [OF assms(1,2) that, of client] b(1) by simp
  ultimately show ?thesis
    using b assms(2,3)
    by (cases b) (auto simp: seek_backend_def MakeAndRunSession_def Inr safe_def evolved_def)
qed

lemma safe_exclude:
  assumes "sel_inv L V (w_selector w)" and "sel_pool L (w_selector w) \<noteq> {}" and "sel_known L (w_selector w) b"
  shows "safe L V P (w_selector w) (exclude_and_retry L b w)"
  using assms
proof (cases rule: sel.exclude_known_cases)
  case (last t)
  then show ?thesis by (simp add: exclude_and_retry_def safe_def)
next
  case (more t)
  have "sel_single t" if "sel_single (w_selector w)"
    using sel.exclude_single [OF assms that] more(1) by simp
  with more show ?thesis by (simp add: exclude_and_retry_def safe_def evolved_def)
qed

lemma kept_run_session:
  assumes "sel_inv L V (w_selector w)"
  shows "kept L V (w_selector w) (w_selector (snd (run_session L b w)))"
  using kept_told [where w = "snd (MakeSession b w)", OF _ told_documented_connect] assms
  by (simp add: run_session_tells)

lemma safe_run_session:
  assumes "sel_inv L V (w_selector w)" and "sel_pool L (w_selector w) \<noteq> {}"
  shows "safe L V P (w_selector w) (run_session L b w)"
  using evolved_kept [OF kept_run_session [OF assms(1)] assms(2)] run_session_Running [of L b w] by (auto simp: safe_def)

lemma safe_attempt:
  assumes "sel_inv L V (w_selector w)" and "sel_pool L (w_selector w) \<noteq> {}"
    and "sel_known L (w_selector w) (attempt_backend a)" and "attempt_backend a \<in> P"
  shows "safe L V P (w_selector w) (attempt_done L ec a w)"
proof -
  have "safe L V P (w_selector w) (Inr Dropped, w)"
    "safe L V P (w_selector w) (Inr (Trying (ConnectingUrl (attempt_backend a))), w)"
    using evolved_refl [OF assms(1,2)] assms(3,4) by (simp_all add: safe_def)
  with safe_run_session [OF assms(1,2)] safe_exclude [OF assms(1,2,3)] show ?thesis
    by (cases a) (auto simp: attempt_done_def HandleIpConnect_def HandleResolve_def HandleUrlConnect_def)
qed

lemma close_throws:
  "fst (close_client out x) = Inl e \<Longrightarrow> system_error e" "fst (close_server out x) = Inl e \<Longrightarrow> system_error e"
  by (auto simp: close_client_def close_server_def CloseSocket_def Let_def system_error_def split: prod.splits if_splits)

lemma Cancel_throws: "fst (session_Cancel call out x) = Inl e \<Longrightarrow> system_error e"
  by (auto simp: session_Cancel_def seq_def split: prod.splits sum.splits)
    (metis close_throws notify_effects(1) fst_conv sum.distinct(1))+

lemma handler_throws:
  assumes "run_handler R call out c x = (Inl e, y)"
  shows "system_error e"
proof -
  obtain s w where x: "x = (s, w)" by fastforce
  from assms have ec: "completion_ec c \<noteq> Success" by (rule handler_view) auto
  from assms Cancel_throws show ?thesis unfolding x run_handler_error [OF ec] by (metis fst_conv)
qed

lemma kept_session:
  assumes "run_handler R (visitor_call L) out c (sys_sessions S ! i, sys_world S) = (r, y)"
    and "sel_inv L V (w_selector (sys_world S))" and "heap_calls_documented R L S (SessionDone i out c)"
  shows "kept L V (w_selector (sys_world S)) (w_selector (snd y))"
proof -
  let ?n = "if completion_ec c = Success then announcement c else OnDisconnect"
  have y: "snd y = (if isl r then sys_world S
      else snd (told (visitor_call L) ?n (session_visitor (sys_sessions S ! i), sys_world S)))"
    using handler_tells [of R "visitor_call L" out c "(sys_sessions S ! i, sys_world S)"]
    unfolding assms(1) by (metis (no_types, lifting) fst_conv snd_conv)
  show ?thesis
  proof (cases "isl r")
    case False
    with assms(3) have "told_documented L ?n (session_visitor (sys_sessions S ! i)) (sys_world S)"
      unfolding documented_session assms(1) by simp
    with kept_told [OF assms(2)] False show ?thesis by (simp add: y)
  qed (use kept_refl [OF assms(2)] in \<open>simp add: y\<close>)
qed

lemma kept_destroy:
  assumes "HttpSession_dtor (visitor_call L) out (sys_closing S ! j, sys_world S) = (f, y)"
    and "sel_inv L V (w_selector (sys_world S))" and "heap_calls_documented R L S (DestroySession j out)"
  shows "kept L V (w_selector (sys_world S)) (w_selector (snd y))"
proof -
  have y: "snd y = (if f = Terminated then sys_world S
      else snd (told (visitor_call L) OnDisconnect (session_visitor (sys_closing S ! j), sys_world S)))"
    using dtor_tells [of "visitor_call L" out "(sys_closing S ! j, sys_world S)"]
    unfolding assms(1) by (metis (no_types, lifting) fst_conv snd_conv)
  show ?thesis
  proof (cases "f = Terminated")
    case False
    with assms(3) have "told_documented L OnDisconnect (session_visitor (sys_closing S ! j)) (sys_world S)"
      unfolding documented_destroy assms(1) by simp
    with kept_told [OF assms(2)] False show ?thesis by (simp add: y)
  qed (use kept_refl [OF assms(2)] in \<open>simp add: y\<close>)
qed

subsection \<open>The running balancer\<close>

definition steady ::
    "('a, 'h, 'k, 'l, 'm) libs \<Rightarrow> ('a, 'h, 'k, 'l, 'm) views \<Rightarrow> 'a backend set \<Rightarrow> ('a, 'h, 'k, 'l, 'm) system \<Rightarrow> bool" where
  "steady L V P S \<longleftrightarrow> sel_inv L V (w_selector (sys_world S)) \<and> sel_pool L (w_selector (sys_world S)) \<noteq> {} \<and>
     sel_pool L (w_selector (sys_world S)) \<subseteq> P \<and>
     (\<forall>a \<in> set (sys_attempts S). sel_known L (w_selector (sys_world S)) (attempt_backend a) \<and> attempt_backend a \<in> P)"

text \<open>The exceptions the network gives are system errors.\<close>

fun network_fails_well :: "'a sys_event \<Rightarrow> bool" where
  "network_fails_well (AcceptDone ec (Inl e)) = system_error e"
| "network_fails_well (SelectNow (Inl e)) = system_error e"
| "network_fails_well ev = True"

text \<open>
  What is shown of a run rests on two conditions on each of its steps: the network fails well, and,
  when the selector is one of the two with a heap, the step calls the heap as documented.
\<close>

definition in_contract ::
    "reuse \<Rightarrow> ('a, 'h, 'k, 'l, 'm) libs \<Rightarrow> ('a, 'h, 'k, 'l, 'm) system \<Rightarrow> 'a sys_event \<Rightarrow> bool" where
  "in_contract R L S ev \<longleftrightarrow> network_fails_well ev \<and>
     (on_heap (selector_Type (w_selector (sys_world S))) \<longrightarrow> heap_calls_documented R L S ev)"

lemma in_contract_iff: "in_contract R L S ev \<longleftrightarrow> network_fails_well ev \<and> heap_calls_documented R L S ev"
  using documented_off_heap by (auto simp: in_contract_def)

lemma in_contract_simps [simp]:
  "in_contract R L S (AcceptDone ec local :: 'a sys_event) \<longleftrightarrow> network_fails_well (AcceptDone ec local :: 'a sys_event)"
  "in_contract R L S (SelectNow peer) \<longleftrightarrow> network_fails_well (SelectNow peer)"
  "in_contract R L S (AttemptDone i ec)" "in_contract R L S (Tick t)" "in_contract R L S Stop"
  by (simp_all add: in_contract_def)

definition steady_after ::
    "('a, 'h, 'k, 'l, 'm) libs \<Rightarrow> ('a, 'h, 'k, 'l, 'm) views \<Rightarrow> 'a backend set \<Rightarrow> ('a, 'h, 'k, 'l, 'm) system \<Rightarrow>
     ('a, 'h, 'k, 'l, 'm) system \<Rightarrow> bool" where
  "steady_after L V P S T \<longleftrightarrow> steady L V P T \<and>
     (sel_single (w_selector (sys_world S)) \<longrightarrow> sel_single (w_selector (sys_world T)))"

lemma steady_evolved:
  assumes "steady L V P S" and "evolved L V (w_selector (sys_world S)) (w_selector (sys_world T))"
    and "\<And>a. a \<in> set (sys_attempts T) \<Longrightarrow> a \<in> set (sys_attempts S) \<or>
      sel_known L (w_selector (sys_world T)) (attempt_backend a) \<and> attempt_backend a \<in> P"
  shows "steady_after L V P S T"
proof -
  have "sel_known L (w_selector (sys_world T)) (attempt_backend a) \<and> attempt_backend a \<in> P"
    if "a \<in> set (sys_attempts T)" for a
    using assms(3) [OF that] assms(1,2) unfolding steady_def evolved_def by blast
  with assms(1,2) show ?thesis unfolding steady_after_def steady_def evolved_def by blast
qed

text \<open>A step from a steady state throws nothing, or system errors, or that all are excluded.\<close>

definition continues ::
    "('a, 'h, 'k, 'l, 'm) libs \<Rightarrow> ('a, 'h, 'k, 'l, 'm) views \<Rightarrow> 'a backend set \<Rightarrow> ('a, 'h, 'k, 'l, 'm) system \<Rightarrow>
     ('a, 'h, 'k, 'l, 'm) system \<Rightarrow> bool" where
  "continues L V P S T \<longleftrightarrow> (\<exists>es. sys_thrown T = sys_thrown S @ es \<and> (\<forall>e \<in> set es. e = all_excluded \<or> system_error e) \<and>
     (all_excluded \<notin> set es \<longrightarrow> steady_after L V P S T))"

lemma continues_settle:
  assumes "steady L V P S" and "safe L V P (w_selector (sys_world S)) x" and "sys_thrown S' = sys_thrown S"
    and "set (sys_attempts S') \<subseteq> set (sys_attempts S)"
  shows "continues L V P S (settle x S')"
proof -
  let ?T = "settle x S'"
  have "steady_after L V P S ?T" if "fst x \<noteq> Inl all_excluded"
  proof (rule steady_evolved [OF assms(1)])
    show "evolved L V (w_selector (sys_world S)) (w_selector (sys_world ?T))"
      using assms(2) that by (auto simp: safe_def split: sum.splits)
    show "a \<in> set (sys_attempts S) \<or> sel_known L (w_selector (sys_world ?T)) (attempt_backend a) \<and> attempt_backend a \<in> P"
      if "a \<in> set (sys_attempts ?T)" for a
      using that assms(2,4) by (auto simp: settle_simps safe_def split: sum.splits reaction.splits)
  qed
  with assms(2,3) show ?thesis
    by (auto simp: continues_def settle_simps safe_def split: sum.splits)
qed

lemma continues_step:
  fixes L :: "('a, 'h, 'k, 'l, 'm) libs"
  assumes "sys_step R L S ev T" and "in_contract R L S ev" and "steady L V P S"
  shows "continues L V P S T"
proof -
  from assms(2) have fails: "network_fails_well ev" and doc: "heap_calls_documented R L S ev" by (simp_all add: in_contract_iff)
  let ?w = "sys_world S"
  from assms(3) have S: "sel_inv L V (w_selector ?w)" "sel_pool L (w_selector ?w) \<noteq> {}" "sel_pool L (w_selector ?w) \<subseteq> P"
    "\<And>a. a \<in> set (sys_attempts S) \<Longrightarrow> sel_known L (w_selector ?w) (attempt_backend a) \<and> attempt_backend a \<in> P"
    by (auto simp: steady_def)
  note refl = evolved_refl [OF S(1,2)]
  show ?thesis
    using assms(1)
  proof cases
    case (accept ec local)
    obtain r :: "'a reaction result" and a where h: "HandleAccept ec local ((sys_acceptor S)\<lparr>acc_waiting := False\<rparr>) = (r, a)" by fastforce
    with fails accept(1) refl have "safe L V P (w_selector ?w) (r, ?w)"
      by (cases local) (auto simp: HandleAccept_def Let_def safe_def split: if_splits)
    from continues_settle [OF assms(3) this] show ?thesis by (simp add: accept(2) on_accept_def h)
  next
    case (select peer)
    have "system_error e" if "peer = Inl e" for e using that fails select(1) by simp
    from continues_settle [OF assms(3) safe_seek [OF S(1-3) this]] show ?thesis by (simp add: select(2) on_select_def)
  next
    case (attempt i ec)
    then have "sys_attempts S ! i \<in> set (sys_attempts S)" by simp
    with S have "safe L V P (w_selector ?w) (attempt_done L ec (sys_attempts S ! i) ?w)"
      by (intro safe_attempt) blast+
    from continues_settle [OF assms(3) this] set_erase_at_subset [of i "sys_attempts S"] show ?thesis
      by (simp add: attempt(2) on_attempt_def Let_def)
  next
    case (session i c out)
    obtain r x w where h: "run_handler R (visitor_call L) out c (sys_sessions S ! i, ?w) = (r, x, w)" by (metis prod.collapse)
    from evolved_kept [OF kept_session [OF h S(1) doc [unfolded session(1)]] S(2)] have ev: "evolved L V (w_selector ?w) (w_selector w)" by simp
    have T: "sys_world T = w" "sys_attempts T = sys_attempts S" "sys_thrown T = sys_thrown S @ (case r of Inl e \<Rightarrow> [e] | Inr u \<Rightarrow> [])"
      by (auto simp: session(2) on_session_def h Let_def split: sum.splits)
    have "steady_after L V P S T" by (rule steady_evolved [OF assms(3)]) (simp_all add: T ev)
    moreover have "\<forall>e \<in> set (case r of Inl e \<Rightarrow> [e] | Inr u \<Rightarrow> []). system_error e"
      using handler_throws h by (cases r) fastforce+
    ultimately show ?thesis by (auto simp: continues_def T)
  next
    case (destroy j out)
    obtain f x w where h: "HttpSession_dtor (visitor_call L) out (sys_closing S ! j, ?w) = (f, x, w)" by (metis prod.collapse)
    from evolved_kept [OF kept_destroy [OF h S(1) doc [unfolded destroy(1)]] S(2)] have ev: "evolved L V (w_selector ?w) (w_selector w)" by simp
    have T: "sys_world T = w" "sys_attempts T = sys_attempts S" "sys_thrown T = sys_thrown S"
      by (simp_all add: destroy(2) on_destroy_def h)
    have "steady_after L V P S T" by (rule steady_evolved [OF assms(3)]) (simp_all add: T ev)
    then show ?thesis by (simp add: continues_def T)
  next
    case (tick t)
    have "steady_after L V P S T" by (rule steady_evolved [OF assms(3)]) (simp_all add: tick(2) on_tick_def refl)
    then show ?thesis by (simp add: continues_def tick(2) on_tick_def)
  next
    case stop
    have "steady_after L V P S T" by (rule steady_evolved [OF assms(3)]) (simp_all add: stop(2) refl)
    then show ?thesis by (simp add: continues_def stop(2))
  qed
qed

definition well :: "('a, 'h, 'k, 'l, 'm) libs \<Rightarrow> ('a, 'h, 'k, 'l, 'm) views \<Rightarrow> 'a backend set \<Rightarrow> ('a, 'h, 'k, 'l, 'm) system \<Rightarrow> bool" where
  "well L V P S \<longleftrightarrow> (all_excluded \<notin> set (sys_thrown S) \<longrightarrow> steady L V P S) \<and>
     (\<forall>e \<in> set (takeWhile (\<lambda>e. e \<noteq> all_excluded) (sys_thrown S)). system_error e)"

lemma well_step:
  assumes "sys_step R L S ev T" and "in_contract R L S ev" and "well L V P S"
  shows "well L V P T"
proof (cases "all_excluded \<in> set (sys_thrown S)")
  case True
  obtain es where "sys_thrown T = sys_thrown S @ es" using thrown_step [OF assms(1)] by blast
  with True assms(3) show ?thesis by (simp add: well_def takeWhile_append1)
next
  case False
  with assms(3) have "steady L V P S" by (simp add: well_def)
  from continues_step [OF assms(1,2) this] obtain es where es: "sys_thrown T = sys_thrown S @ es"
    "\<forall>e \<in> set es. e = all_excluded \<or> system_error e" "all_excluded \<notin> set es \<Longrightarrow> steady_after L V P S T"
    by (auto simp: continues_def)
  from False have "takeWhile (\<lambda>e. e \<noteq> all_excluded) (sys_thrown S) = sys_thrown S" by (auto simp: takeWhile_eq_all_conv)
  with assms(3) have old: "\<forall>e \<in> set (sys_thrown S). system_error e" by (simp add: well_def)
  from False have "takeWhile (\<lambda>e. e \<noteq> all_excluded) (sys_thrown T) = sys_thrown S @ takeWhile (\<lambda>e. e \<noteq> all_excluded) es"
    unfolding es(1) by (intro takeWhile_append2) auto
  with old es have "\<forall>e \<in> set (takeWhile (\<lambda>e. e \<noteq> all_excluded) (sys_thrown T)). system_error e"
    by (auto dest: set_takeWhileD)
  moreover have "steady L V P T" if "all_excluded \<notin> set (sys_thrown T)" using that es by (simp add: steady_after_def)
  ultimately show ?thesis by (simp add: well_def)
qed

lemma well_reach:
  "sys_reach R L (in_contract R L) S T \<Longrightarrow> well L V P S \<Longrightarrow> well L V P T"
  by (induction rule: sys_reach.induct) (auto intro: well_step)

lemma well_start:
  "sel_inv L V s \<Longrightarrow> sel_pool L s \<noteq> {} \<Longrightarrow> well L V (sel_pool L s) (balancer_start a s)"
  by (simp add: well_def steady_def balancer_start_def)

text \<open>C4. What never happens, whichever algorithm is configured and however the threads interleave.
  For a configuration without clashing keys, as long as no handler has found that all backends are
  excluded, the pool is not empty and has configured backends only, and every connection attempt is
  to a configured backend; and the only exceptions that have left a handler by then are errors of
  the system: no handler selects from an empty pool, or runs into undefined behaviour otherwise.
  For least connections and least response time this is shown as long as every step calls
  \<^verbatim>\<open>increase\<close> and \<^verbatim>\<open>decrease\<close> of the heap under their documented preconditions; for the other
  four algorithms that condition always holds.\<close>

theorem balancer_safe:
  assumes "DetectSelector L Y node = Inr s" and "libs_ok L V"
    and "y_get Y node ''load_balancing'' = Inr balancing_node" and "clash_free (lib_env L) Y balancing_node"
    and "sel_pool L s \<noteq> {}" and "sys_reach R L (in_contract R L) (balancer_start a s) S"
  shows "(all_excluded \<notin> set (sys_thrown S) \<longrightarrow>
      sel_pool L (w_selector (sys_world S)) \<noteq> {} \<and> sel_pool L (w_selector (sys_world S)) \<subseteq> sel_pool L s \<and>
      (\<forall>x \<in> set (sys_attempts S). attempt_backend x \<in> sel_pool L s)) \<and>
    (\<forall>e \<in> set (takeWhile (\<lambda>e. e \<noteq> all_excluded) (sys_thrown S)). \<exists>m. e = SystemError m)"
  using well_reach [OF assms(6) well_start [OF configured_inv [OF assms(1-4)] assms(5)]]
  by (auto simp: well_def steady_def system_error_def)

theorem balancer_safe_witness:
  "\<exists>s S. DetectSelector sample_libs sample_yaml (sample_config ''least_connections'') = Inr s \<and>
    sys_reach appending sample_libs (in_contract appending sample_libs) (balancer_start sample_acceptor s :: sample_system) S \<and>
    sys_thrown S = [SystemError ''ENOTCONN''] \<and> sel_pool sample_libs (w_selector (sys_world S)) \<noteq> {}"
proof -
  obtain t where t: "kh_abs sample_lc_heap t = fresh_counters sample_env sample_bs"
    "DetectSelector sample_libs sample_yaml (sample_config ''least_connections'') = Inr (LeastConnectionsS t)"
    using sample_detect by blast
  have pool: "sel_pool sample_libs (LeastConnectionsS t) \<noteq> {}"
    using lc_pool_fresh [OF t(1) sample_distinct] by (simp add: sel_pool_def sample_libs_def sample_bs_def)
  define S0 :: sample_system where "S0 = balancer_start sample_acceptor (LeastConnectionsS t)"
  let ?ev = "AcceptDone Success (Inl (SystemError ''ENOTCONN'')) :: sample_addr sys_event"
  let ?S = "on_accept Success (Inl (SystemError ''ENOTCONN'')) S0"
  have "sys_step appending sample_libs S0 ?ev ?S"
    by (simp add: sys_step_accept S0_def balancer_start_def begins_def Acceptor_Run_def DoAccept_def)
  from sys_reach.after [OF sys_reach.here this, where I = "in_contract appending sample_libs"]
  have reach: "sys_reach appending sample_libs (in_contract appending sample_libs) (balancer_start sample_acceptor (LeastConnectionsS t)) ?S"
    unfolding S0_def by simp
  have thrown: "sys_thrown ?S = [SystemError ''ENOTCONN'']"
    by (simp add: on_accept_def HandleAccept_def settle_simps S0_def balancer_start_def)
  from balancer_safe [OF t(2) sample_libs_ok sample_balancing_fields(1) sample_libs_clash_free pool reach]
  have "sel_pool sample_libs (w_selector (sys_world ?S)) \<noteq> {}" by (simp add: thrown all_excluded_def)
  with t(2) reach thrown show ?thesis unfolding S0_def by blast
qed

subsection \<open>What happens when the last backend refuses\<close>

lemma refusal_excludes:
  assumes "sys_attempts S ! i = ConnectingIp ep b" and "ExcludeBackend L (w_selector (sys_world S)) b = (r, sel)"
  shows "on_attempt L i ConnectionRefused S =
    settle (case r of Inl e \<Rightarrow> Inl e | Inr u \<Rightarrow> Inr Selecting, (sys_world S)\<lparr>w_selector := sel\<rparr>)
      (S\<lparr>sys_attempts := erase_at i (sys_attempts S)\<rparr>)"
  using assms by (cases r) (simp_all add: on_attempt_def Let_def attempt_done_def HandleIpConnect_def exclude_and_retry_def)

lemma stopped_reach: "sys_reach R L I S T \<Longrightarrow> \<not> begins S \<Longrightarrow> \<not> begins T"
proof (induction rule: sys_reach.induct)
  case (after T ev U)
  from after.hyps(2) after.IH [OF after.prems] show ?case
    by cases (simp_all add: begins_def on_select_def on_destroy_def on_tick_def split: prod.splits)
qed

text \<open>C18. One backend left that refuses ends the balancer. The refusal excludes it, and the exception
  that all are excluded leaves the handler; when the thread it ends has stopped the event loop, no
  further client is accepted, no connection completes, and the sessions that run are never
  continued, although their own backends may be in order.\<close>

theorem last_refusal_ends_balancer:
  assumes "sys_step R L S (AttemptDone i ConnectionRefused) T" and "sys_attempts S ! i = ConnectingIp ep b"
    and "sel_inv L V (w_selector (sys_world S))" and "b \<in> sel_pool L (w_selector (sys_world S))"
    and "sel_entries L (w_selector (sys_world S)) = 1" and "sys_step R L T Stop U" and "sys_reach R L I U W"
  shows "sys_thrown T = sys_thrown S @ [all_excluded] \<and> sel_pool L (w_selector (sys_world T)) = {} \<and>
    sys_sessions T = sys_sessions S \<and>
    \<not> sys_step R L W (AcceptDone ec local) X \<and> \<not> sys_step R L W (AttemptDone j ec) X \<and> \<not> sys_step R L W (SessionDone j out c) X"
proof -
  let ?s = "w_selector (sys_world S)"
  obtain sel where ex: "ExcludeBackend L ?s b = (Inl all_excluded, sel)" "sel_pool L sel = {}"
    using assms(3,4)
  proof (cases rule: sel.exclude_cases)
    case (last s')
    with that show ?thesis by blast
  next
    case (more s')
    with assms(5) sel.entries_zero [OF more(2)] show ?thesis by simp
  qed
  from assms(1) have "T = on_attempt L i ConnectionRefused S" by (simp add: sys_step_attempt)
  then have T: "T = settle (Inl all_excluded, (sys_world S)\<lparr>w_selector := sel\<rparr>) (S\<lparr>sys_attempts := erase_at i (sys_attempts S)\<rparr>)"
    by (simp add: refusal_excludes [OF assms(2) ex(1)])
  from assms(6) have "\<not> begins U" by (simp add: sys_step_stop begins_def)
  from stopped_reach [OF assms(7) this] have "\<not> begins W" .
  with T ex(2) show ?thesis by (simp add: settle_simps sys_step_accept sys_step_attempt sys_step_session)
qed

text \<open>One client is accepted by a balancer with one backend.\<close>

definition sample_one :: sample_system where
  "sample_one = sample_accepted (balancer_start sample_acceptor (RoundRobinS \<lparr>rr_counter = 0, rr_backends = [sample_bs ! 0]\<rparr>))"

theorem last_refusal_ends_balancer_witness:
  "\<exists>T. sys_step appending sample_libs sample_one (AttemptDone 0 ConnectionRefused) T \<and> sys_thrown T = [all_excluded] \<and>
    sel_pool sample_libs (w_selector (sys_world T)) = {}"
proof -
  let ?b = "sample_bs ! 0"
  obtain ep where ep: "?b = EndpointB ep" by (simp add: sample_bs_def)
  have S: "sys_attempts sample_one = [ConnectingIp ep ?b]" "begins sample_one" "sys_thrown sample_one = []"
    "w_selector (sys_world sample_one) = RoundRobinS \<lparr>rr_counter = 0, rr_backends = [?b]\<rparr>"
    using ep by (simp_all add: sample_one_def sample_accepted_def balancer_start_def on_accept_def HandleAccept_def on_select_def
        settle_simps begins_def DoAccept_def Acceptor_Run_def seek_backend_def MakeAndRunSession_def SelectBackend_def rr_SelectBackend_def)
  define T where "T = on_attempt sample_libs 0 ConnectionRefused sample_one"
  have step: "sys_step appending sample_libs sample_one (AttemptDone 0 ConnectionRefused) T"
    using S by (simp add: sys_step_attempt T_def)
  have "\<not> sys_aborted T" using S(2) by (simp add: T_def on_attempt_def Let_def begins_def)
  then have stop: "sys_step appending sample_libs T Stop (T\<lparr>sys_stopped := True\<rparr>)" by (simp add: sys_step_stop)
  have "sys_attempts sample_one ! 0 = ConnectingIp ep ?b" "sel_inv sample_libs sample_views (w_selector (sys_world sample_one))"
    "?b \<in> sel_pool sample_libs (w_selector (sys_world sample_one))" "sel_entries sample_libs (w_selector (sys_world sample_one)) = 1"
    by (simp_all add: S sel_defs)
  from last_refusal_ends_balancer [OF step this stop sys_reach.here] S(3) step show ?thesis by auto
qed

text \<open>A balancer with two backends, each of which is chosen for the client that is accepted.\<close>

definition sample_rr2_start :: sample_system where
  "sample_rr2_start = balancer_start sample_acceptor (RoundRobinS \<lparr>rr_counter = 0, rr_backends = sample_bs\<rparr>)"

lemma sample_accepted_rr:
  assumes "w_selector (sys_world S) = RoundRobinS s" and "rr_backends s = sample_bs" and "begins S"
  shows "\<exists>ep t. sys_attempts (sample_accepted S) = sys_attempts S @ [ConnectingIp ep (sample_bs ! ((rr_counter s + 1) mod 2))] \<and>
    w_selector (sys_world (sample_accepted S)) = RoundRobinS t \<and> rr_backends t = sample_bs \<and>
    rr_counter t = (rr_counter s + 1) mod 2 \<and> begins (sample_accepted S) \<and> acc_waiting (sys_acceptor (sample_accepted S)) \<and>
    sys_thrown (sample_accepted S) = sys_thrown S \<and> sys_selecting (sample_accepted S) = sys_selecting S \<and>
    sys_closing (sample_accepted S) = sys_closing S"
proof -
  have len: "length sample_bs = 2" "sample_bs \<noteq> []" by (simp_all add: sample_bs_def)
  have "(rr_counter s + 1) mod 2 = 0 \<or> (rr_counter s + 1) mod 2 = 1" by auto
  then obtain ep where "sample_bs ! ((rr_counter s + 1) mod 2) = EndpointB ep" by (auto simp: sample_bs_def)
  with assms len show ?thesis
    by (simp add: sample_accepted_def on_accept_def HandleAccept_def on_select_def settle_simps begins_def DoAccept_def
        seek_backend_def MakeAndRunSession_def SelectBackend_def rr_SelectBackend_def Let_def)
qed

text \<open>The backend chosen refuses, and the client is given the other one.\<close>

definition sample_refused :: "sample_system \<Rightarrow> sample_system" where
  "sample_refused S = on_attempt sample_libs 0 ConnectionRefused (sample_accepted S)"

definition sample_retried :: "sample_system \<Rightarrow> sample_system" where
  "sample_retried S = on_select sample_libs (Inr (sample_ep ''::1'' 1)) (sample_refused S)"

lemma sample_failover:
  assumes "w_selector (sys_world S) = RoundRobinS \<lparr>rr_counter = 0, rr_backends = sample_bs\<rparr>" and "begins S" and "sys_attempts S = []"
  obtains ep ep' s t where "sys_attempts (sample_accepted S) = [ConnectingIp ep (sample_bs ! 1)]"
    and "sys_attempts (sample_refused S) = []" and "sys_selecting (sample_refused S) = Suc (sys_selecting S)"
    and "w_selector (sys_world (sample_refused S)) = RoundRobinS s" and "rr_backends s = [sample_bs ! 0]"
    and "sys_attempts (sample_retried S) = [ConnectingIp ep' (sample_bs ! 0)]" and "sys_selecting (sample_retried S) = sys_selecting S"
    and "w_selector (sys_world (sample_retried S)) = RoundRobinS t" and "rr_backends t = [sample_bs ! 0]"
    and "begins (sample_refused S)" and "begins (sample_retried S)"
    and "sys_thrown (sample_refused S) = sys_thrown S" and "sys_thrown (sample_retried S) = sys_thrown S"
    and "sys_closing (sample_refused S) = sys_closing S" and "sys_closing (sample_retried S) = sys_closing S"
    and "fst (seek_backend sample_libs (Inr (sample_ep ''::1'' 1)) (sys_world (sample_refused S))) = Inr (Trying (ConnectingIp ep' (sample_bs ! 0)))"
proof -
  from sample_accepted_rr [OF assms(1) _ assms(2)] assms(3) obtain ep s where
    T: "sys_attempts (sample_accepted S) = [ConnectingIp ep (sample_bs ! 1)]"
      "w_selector (sys_world (sample_accepted S)) = RoundRobinS s" "rr_backends s = sample_bs" "begins (sample_accepted S)"
      "sys_thrown (sample_accepted S) = sys_thrown S" "sys_selecting (sample_accepted S) = sys_selecting S"
      "sys_closing (sample_accepted S) = sys_closing S" by auto
  let ?s = "s\<lparr>rr_backends := [sample_bs ! 0]\<rparr>"
  have "ExcludeBackend sample_libs (w_selector (sys_world (sample_accepted S))) (sample_bs ! 1) = (Inr (), RoundRobinS ?s)"
    using T(2,3) by (simp add: ExcludeBackend_def rr_ExcludeBackend_def sample_bs_def sample_ep_def)
  note refused = refusal_excludes [where i = 0 and S = "sample_accepted S", OF _ this, of ep, simplified T(1), simplified]
  have U: "sys_attempts (sample_refused S) = []" "sys_selecting (sample_refused S) = Suc (sys_selecting S)"
    "w_selector (sys_world (sample_refused S)) = RoundRobinS ?s" "begins (sample_refused S)"
    "sys_thrown (sample_refused S) = sys_thrown S" "sys_closing (sample_refused S) = sys_closing S"
    using T unfolding sample_refused_def refused by (simp_all add: settle_simps begins_def erase_at_def)
  obtain ep' where ep': "sample_bs ! 0 = EndpointB ep'" by (simp add: sample_bs_def)
  have seek: "seek_backend sample_libs (Inr (sample_ep ''::1'' 1)) (sys_world (sample_refused S)) =
      (Inr (Trying (ConnectingIp ep' (sample_bs ! 0))), (sys_world (sample_refused S))\<lparr>w_selector := RoundRobinS (?s\<lparr>rr_counter := 0\<rparr>)\<rparr>)"
    using U(3) ep' by (simp add: seek_backend_def MakeAndRunSession_def SelectBackend_def rr_SelectBackend_def Let_def)
  show ?thesis
    by (rule that [where t = "?s\<lparr>rr_counter := 0\<rparr>", OF T(1) U(1-3) _ _ _ _ _ U(4) _ U(5) _ U(6)])
      (use U in \<open>simp_all add: sample_retried_def on_select_def seek settle_simps begins_def\<close>)
qed

text \<open>Two clients are accepted, and each is given one of two backends.\<close>

definition sample_two :: sample_system where
  "sample_two = sample_accepted (sample_accepted sample_rr2_start)"

lemma sample_two_state:
  "\<exists>s ep ep'. w_selector (sys_world sample_two) = RoundRobinS s \<and> rr_backends s = sample_bs \<and> begins sample_two \<and>
    sys_thrown sample_two = [] \<and> sys_selecting sample_two = 0 \<and> sys_closing sample_two = [] \<and>
    sys_attempts sample_two = [ConnectingIp ep (sample_bs ! 1), ConnectingIp ep' (sample_bs ! 0)]"
proof -
  let ?S0 = sample_rr2_start and ?S1 = "sample_accepted sample_rr2_start"
  have S0: "w_selector (sys_world ?S0) = RoundRobinS \<lparr>rr_counter = 0, rr_backends = sample_bs\<rparr>" "begins ?S0"
    "sys_attempts ?S0 = []" "sys_thrown ?S0 = []" "sys_selecting ?S0 = 0" "sys_closing ?S0 = []"
    by (simp_all add: sample_rr2_start_def balancer_start_def begins_def)
  from sample_accepted_rr [OF S0(1) _ S0(2)] S0 obtain ep t where
    S1: "sys_attempts ?S1 = [ConnectingIp ep (sample_bs ! 1)]" "w_selector (sys_world ?S1) = RoundRobinS t"
    "rr_backends t = sample_bs" "rr_counter t = 1" "begins ?S1" "sys_thrown ?S1 = []" "sys_selecting ?S1 = 0" "sys_closing ?S1 = []" by auto
  from sample_accepted_rr [OF S1(2,3,5)] S1 show ?thesis by (auto simp: sample_two_def)
qed

end
