(* ===== verification/Application.thy ===== *)
theory Application
  imports Balancer_Safety
begin

section \<open>The application: \<^verbatim>\<open>src/lb/application.hpp\<close> and \<^verbatim>\<open>application.cpp\<close>\<close>

text \<open>
  Reading the configuration, the log sinks it asks for, the number of threads, and how the program
  ends. Functions of other libraries that are used only here are the fields of a record:
  \<^verbatim>\<open>YAML::LoadFile\<close>, \<^verbatim>\<open>spdlog::level::from_str\<close>, the constructor of a file sink (which
  throws when it cannot open its file), \<^verbatim>\<open>thread::hardware_concurrency\<close>, binding the
  listening socket, the constructor of \<^verbatim>\<open>boost::barrier\<close>, and the parser of command lines, which
  gives the options of a description that are on the command line.
\<close>

record option_desc =
  opt_name :: string
  opt_default :: "string option"

record ('n, 'lvl) sys_libs =
  load_file :: "string \<Rightarrow> 'n result"
  level_from_str :: "string \<Rightarrow> 'lvl"
  level_trace :: 'lvl
  open_file_sink :: "string \<Rightarrow> bool \<Rightarrow> unit result"
  hardware_concurrency :: nat
  bind_acceptor :: "listen_endpoint \<Rightarrow> unit result"
  make_barrier :: "nat \<Rightarrow> unit result"
  parse_command_line :: "option_desc list \<Rightarrow> string list \<Rightarrow> (string \<times> string) list result"

subsection \<open>Logging\<close>

datatype 'lvl sink =
    ConsoleSink 'lvl string
  | FileSink string bool 'lvl string

record 'lvl logger =
  log_sinks :: "'lvl sink list"
  log_level :: 'lvl

text \<open>
  The logging macros log to \<^verbatim>\<open>spdlog::get("multi-sink")\<close>, a null pointer as long as no
  logger of that name is registered, and dereference it.
\<close>

definition log_macro :: "'lvl logger option \<Rightarrow> unit result" where
  "log_macro registered =
     (case registered of None \<Rightarrow> Inl (UndefinedBehaviour ''null logger'') | Some l \<Rightarrow> Inr ())"

definition default_pattern :: string where
  "default_pattern = ''[%H:%M:%S][%t][%^%l%$][%s:%#] %v''"

definition string_or :: "'n yaml \<Rightarrow> 'n \<Rightarrow> string \<Rightarrow> string \<Rightarrow> string result" where
  "string_or Y node key dflt =
     rbind (has_field Y node key) (\<lambda>has. if has then string_field Y node key else Inr dflt)"

definition console_sink :: "('n, 'lvl) sys_libs \<Rightarrow> 'n yaml \<Rightarrow> 'n \<Rightarrow> 'lvl sink result" where
  "console_sink P Y console_node =
     (if \<not> y_is_map Y console_node then Inl (RuntimeError ''console field must be a map'')
      else rbind (string_field Y console_node ''level'') (\<lambda>level.
        rbind (string_or Y console_node ''pattern'' default_pattern) (\<lambda>pattern.
          Inr (ConsoleSink (level_from_str P level) pattern))))"

definition file_sink :: "('n, 'lvl) sys_libs \<Rightarrow> 'n yaml \<Rightarrow> 'n \<Rightarrow> 'lvl sink result" where
  "file_sink P Y file_node =
     (if \<not> y_is_map Y file_node then Inl (RuntimeError ''file field must be a map'')
      else rbind (string_or Y file_node ''name'' ''logs.txt'') (\<lambda>name.
        rbind (has_field Y file_node ''trucncate'') (\<lambda>has_trucncate.
          rbind (if has_trucncate then rbind (y_get Y file_node ''truncate'') (y_bool Y) else Inr True) (\<lambda>truncate.
            rbind (open_file_sink P name truncate) (\<lambda>_.
              rbind (string_field Y file_node ''level'') (\<lambda>level.
                rbind (string_or Y file_node ''pattern'' default_pattern) (\<lambda>pattern.
                  Inr (FileSink name truncate (level_from_str P level) pattern))))))))"

definition optional_sink :: "'n yaml \<Rightarrow> 'n \<Rightarrow> string \<Rightarrow> ('n \<Rightarrow> 'lvl sink result) \<Rightarrow> 'lvl sink list result" where
  "optional_sink Y logging_node key mk =
     rbind (has_field Y logging_node key) (\<lambda>has.
       if has then rbind (y_get Y logging_node key) (\<lambda>node. rbind (mk node) (\<lambda>s. Inr [s])) else Inr [])"

definition ConfigureLogging :: "('n, 'lvl) sys_libs \<Rightarrow> 'n yaml \<Rightarrow> 'n \<Rightarrow> 'lvl logger result" where
  "ConfigureLogging P Y config =
     rbind (has_field Y config ''logging'') (\<lambda>has_logging.
       if \<not> has_logging then Inl (RuntimeError ''missed logging node!'')
       else rbind (y_get Y config ''logging'') (\<lambda>logging_node.
         if \<not> y_is_map Y logging_node then Inl (RuntimeError ''logging field must be a map!'')
         else rbind (optional_sink Y logging_node ''console'' (console_sink P Y)) (\<lambda>console.
           rbind (optional_sink Y logging_node ''file'' (file_sink P Y)) (\<lambda>file.
             Inr \<lparr>log_sinks = console @ file, log_level = level_trace P\<rparr>))))"

subsection \<open>Threads and the acceptor's configuration\<close>

definition ConfigureThreadPool :: "('n, 'lvl) sys_libs \<Rightarrow> 'n yaml \<Rightarrow> 'n \<Rightarrow> nat result" where
  "ConfigureThreadPool P Y config =
     (let threads_num = hardware_concurrency P + (if hardware_concurrency P = 0 then 1 else 0) in
      rbind (has_field Y config ''thread_pool'') (\<lambda>has_pool.
        if has_pool then
          rbind (y_get Y config ''thread_pool'') (\<lambda>tp_config.
            if \<not> y_is_map Y tp_config then Inl (RuntimeError ''thread_pool configuration must be a map'')
            else rbind (string_field Y tp_config ''threads_number'') (\<lambda>number.
              if number = ''auto'' then Inr threads_num
              else rbind (y_get Y tp_config ''threads_number'') (\<lambda>number_node.
                if y_is_scalar Y number_node then y_size_t Y number_node else Inr threads_num)))
        else Inr threads_num))"

definition ConfigFromYAML :: "'n yaml \<Rightarrow> 'n \<Rightarrow> acceptor_config result" where
  "ConfigFromYAML Y config =
     rbind (has_field Y config ''acceptor'') (\<lambda>has_acceptor.
       if \<not> has_acceptor then Inl (RuntimeError ''missed acceptor node!'')
       else rbind (y_get Y config ''acceptor'') (\<lambda>acceptor_node.
         if \<not> y_is_map Y acceptor_node then Inl (RuntimeError ''acceptor node must be a map'')
         else rbind (has_field Y acceptor_node ''ip_version'') (\<lambda>has_version.
           rbind (if \<not> has_version then
                    rbind (int_field Y acceptor_node ''ip_version'') (\<lambda>version.
                      if version \<noteq> 4 \<or> version \<noteq> 6 then Inl (RuntimeError ''Invalid ip_version {}'')
                      else Inr (version = 6))
                  else Inr False) (\<lambda>v6.
             rbind (rbind (y_get Y acceptor_node ''port'') (y_unsigned Y)) (\<lambda>port.
               Inr \<lparr>acc_port = port, useIpV6 = v6\<rparr>)))))"

subsection \<open>The application object\<close>

text \<open>
  The one instance of \<^verbatim>\<open>Application\<close>, threaded through what uses it. The pointer to the
  connector is not set until \<^verbatim>\<open>RegisterConnector\<close>; the connector itself is in the world of
  the balancer.
\<close>

record ('n, 'lvl) Application =
  app_config :: "'n option"
  app_logger :: "'lvl logger option"
  app_connector :: bool
  app_exit_code :: nat
  app_stopped :: bool

definition EXIT_SUCCESS :: nat where "EXIT_SUCCESS = 0"
definition EXIT_FAILURE :: nat where "EXIT_FAILURE = 1"

definition Application_ctor :: "('n, 'lvl) Application" where
  "Application_ctor = \<lparr>app_config = None, app_logger = None, app_connector = False, app_exit_code = EXIT_SUCCESS,
     app_stopped = False\<rparr>"

definition LoadConfig :: "('n, 'lvl) sys_libs \<Rightarrow> string \<Rightarrow> ('n, 'lvl) Application \<Rightarrow> ('n, 'lvl) Application result" where
  "LoadConfig P config_file app = rbind (load_file P config_file) (\<lambda>n. Inr (app\<lparr>app_config := Some n\<rparr>))"

definition Config :: "('n, 'lvl) Application \<Rightarrow> 'n" where
  "Config app = the (app_config app)"

definition RegisterConnector :: "('n, 'lvl) Application \<Rightarrow> ('n, 'lvl) Application" where
  "RegisterConnector app = app\<lparr>app_connector := True\<rparr>"

definition app_Connector :: "('n, 'lvl) Application \<Rightarrow> unit result" where
  "app_Connector app = (if app_connector app then Inr () else Inl (UndefinedBehaviour ''connector_ptr is not set''))"

definition Terminate :: "('n, 'lvl) Application \<Rightarrow> ('n, 'lvl) Application" where
  "Terminate app = app\<lparr>app_stopped := True\<rparr>"

definition SetExitCode :: "nat \<Rightarrow> ('n, 'lvl) Application \<Rightarrow> ('n, 'lvl) Application" where
  "SetExitCode code app = (if code \<noteq> EXIT_SUCCESS then app\<lparr>app_exit_code := code\<rparr> else app)"

definition GetExitCode :: "('n, 'lvl) Application \<Rightarrow> nat" where
  "GetExitCode app = app_exit_code app"

text \<open>How the event loop of one thread ends.\<close>

datatype run_end = RanOut | StdException exn | OtherException

definition ThreadRoutine :: "run_end \<Rightarrow> ('n, 'lvl) Application \<Rightarrow> ('n, 'lvl) Application" where
  "ThreadRoutine outcome app =
     SetExitCode EXIT_SUCCESS
       (case outcome of
          RanOut \<Rightarrow> app
        | StdException e \<Rightarrow> Terminate (SetExitCode EXIT_FAILURE app)
        | OtherException \<Rightarrow> SetExitCode EXIT_FAILURE (Terminate app))"

text \<open>
  The signal handler stops the acceptor and then the event loop, whatever the error code; its
  logging cannot fail once a logger is registered.
\<close>

definition HandleInterruptSignal :: "('n, 'lvl) Application \<Rightarrow> unit result \<times> ('n, 'lvl) Application" where
  "HandleInterruptSignal app =
     (case log_macro (app_logger app) of Inl e \<Rightarrow> (Inl e, app) | Inr _ \<Rightarrow> (Inr (), Terminate app))"

text \<open>How the process goes on or ends: \<^verbatim>\<open>std::abort\<close>, undefined behaviour, or a value.\<close>

datatype 'x outcome = Value 'x | Abort | Uncaught exn | Undefined

definition ConfigureApplication ::
    "('n, 'lvl) sys_libs \<Rightarrow> 'n yaml \<Rightarrow> string \<Rightarrow> ('n, 'lvl) Application \<Rightarrow> ('n, 'lvl) Application outcome" where
  "ConfigureApplication P Y config_path app =
     (case rbind (LoadConfig P config_path app) (\<lambda>app'.
             rbind (ConfigureLogging P Y (Config app')) (\<lambda>l. Inr (app'\<lparr>app_logger := Some l\<rparr>))) of
        Inr app' \<Rightarrow> Value app'
      | Inl e \<Rightarrow> (case log_macro (app_logger app) of Inl _ \<Rightarrow> Undefined | Inr _ \<Rightarrow> Abort))"

text \<open>
  \<^verbatim>\<open>Start\<close> builds the acceptor and arms it, then the selector, then the threads, one of
  which is its own, and returns when all have left their event loop. What the balancer has become
  by then is up to its clients, its backends and the threads, and an argument. Each exception that
  left a handler has ended the event loop of one thread, those of the others ran out; undefined
  behaviour and the exception of a destructor are the end of the process.
\<close>

definition prepare ::
    "('n, 'lvl) sys_libs \<Rightarrow> ('a, 'h, 'k, 'l, 'm) libs \<Rightarrow> 'n yaml \<Rightarrow> 'n \<Rightarrow>
     (nat \<times> ('a, 'h, 'k, 'l, 'm) system) result" where
  "prepare P L Y config =
     rbind (ConfigFromYAML Y config) (\<lambda>acceptor_config.
       rbind (Acceptor_ctor (bind_acceptor P) acceptor_config) (\<lambda>acceptor.
         rbind (DetectSelector L Y config) (\<lambda>selector.
           rbind (ConfigureThreadPool P Y config) (\<lambda>threads_num.
             rbind (make_barrier P threads_num) (\<lambda>_.
               Inr (threads_num, balancer_start acceptor selector))))))"

primrec undefined_behaviour :: "exn \<Rightarrow> bool" where
  "undefined_behaviour (RuntimeError m) = False"
| "undefined_behaviour (YamlError m) = False"
| "undefined_behaviour (SystemError m) = False"
| "undefined_behaviour LengthError = False"
| "undefined_behaviour BadVariantAccess = False"
| "undefined_behaviour (UndefinedBehaviour m) = True"

definition thread_ends :: "nat \<Rightarrow> ('a, 'h, 'k, 'l, 'm) system \<Rightarrow> run_end list" where
  "thread_ends threads_num S =
     map StdException (sys_thrown S) @ replicate (threads_num - length (sys_thrown S)) RanOut"

definition join_threads ::
    "nat \<Rightarrow> ('a, 'h, 'k, 'l, 'm) system \<Rightarrow> ('n, 'lvl) Application \<Rightarrow> ('n, 'lvl) Application outcome" where
  "join_threads threads_num S app =
     (if list_ex undefined_behaviour (sys_thrown S) then Undefined
      else if sys_aborted S then Abort
      else Value (fold ThreadRoutine (thread_ends threads_num S) app))"

definition Start ::
    "('n, 'lvl) sys_libs \<Rightarrow> ('a, 'h, 'k, 'l, 'm) libs \<Rightarrow> 'n yaml \<Rightarrow>
     (nat \<Rightarrow> ('a, 'h, 'k, 'l, 'm) system \<Rightarrow> ('a, 'h, 'k, 'l, 'm) system) \<Rightarrow> ('n, 'lvl) Application \<Rightarrow>
     ('n, 'lvl) Application outcome" where
  "Start P L Y serve app =
     (case prepare P L Y (Config app) of
        Inl e \<Rightarrow> Uncaught e
      | Inr (threads_num, S) \<Rightarrow> join_threads threads_num (serve threads_num S) (RegisterConnector app))"

subsection \<open>The command line\<close>

text \<open>The options the program takes, and those its usage message shows; the colours are left out.\<close>

definition run_description :: "option_desc list" where
  "run_description = [\<lparr>opt_name = ''help'', opt_default = None\<rparr>,
     \<lparr>opt_name = ''config'', opt_default = Some ''configs/config.yaml''\<rparr>]"

definition PrintPrettyUsageMessage :: "option_desc list" where
  "PrintPrettyUsageMessage = [\<lparr>opt_name = ''help'', opt_default = None\<rparr>,
     \<lparr>opt_name = ''config'', opt_default = Some ''config.yaml''\<rparr>]"

text \<open>\<^verbatim>\<open>opt::store\<close> keeps the value given, or else the default value of the description.\<close>

definition store_options :: "option_desc list \<Rightarrow> (string \<times> string) list \<Rightarrow> string \<Rightarrow> string option" where
  "store_options desc given name =
     (case map_of given name of
        Some v \<Rightarrow> Some v
      | None \<Rightarrow> (case find (\<lambda>d. opt_name d = name) desc of None \<Rightarrow> None | Some d \<Rightarrow> opt_default d))"

text \<open>What is printed, if the usage message is, and how the program ends.\<close>

definition run ::
    "('n, 'lvl) sys_libs \<Rightarrow> ('a, 'h, 'k, 'l, 'm) libs \<Rightarrow> 'n yaml \<Rightarrow>
     (nat \<Rightarrow> ('a, 'h, 'k, 'l, 'm) system \<Rightarrow> ('a, 'h, 'k, 'l, 'm) system) \<Rightarrow> string list \<Rightarrow>
     option_desc list option \<times> nat outcome" where
  "run P L Y serve argv =
     (case parse_command_line P run_description argv of
        Inl e \<Rightarrow> (None, Uncaught e)
      | Inr given \<Rightarrow>
          (let parsed_options = store_options run_description given in
           if parsed_options ''help'' \<noteq> None then (Some PrintPrettyUsageMessage, Value EXIT_FAILURE)
           else (case parsed_options ''config'' of
                   None \<Rightarrow> (Some PrintPrettyUsageMessage, Value EXIT_FAILURE)
                 | Some config_path \<Rightarrow>
                     (None, case ConfigureApplication P Y config_path Application_ctor of
                        Value app \<Rightarrow>
                          (case Start P L Y serve app of
                             Value app' \<Rightarrow> Value (GetExitCode app')
                           | Abort \<Rightarrow> Abort
                           | Uncaught e \<Rightarrow> Uncaught e
                           | Undefined \<Rightarrow> Undefined)
                      | Abort \<Rightarrow> Abort
                      | Uncaught e \<Rightarrow> Uncaught e
                      | Undefined \<Rightarrow> Undefined))))"

definition main ::
    "('n, 'lvl) sys_libs \<Rightarrow> ('a, 'h, 'k, 'l, 'm) libs \<Rightarrow> 'n yaml \<Rightarrow>
     (nat \<Rightarrow> ('a, 'h, 'k, 'l, 'm) system \<Rightarrow> ('a, 'h, 'k, 'l, 'm) system) \<Rightarrow> string list \<Rightarrow>
     option_desc list option \<times> nat outcome" where
  "main P L Y serve argv = run P L Y serve argv"

subsection \<open>The configuration that is read\<close>

text \<open>C37. The balancer listens on IPv4 only. A configuration of the acceptor is accepted only when it
  has an \<^verbatim>\<open>ip_version\<close>, whose value is not looked at, and then the socket is one of IPv4, at
  the configured port modulo \<^verbatim>\<open>65536\<close>; without an \<^verbatim>\<open>ip_version\<close> there is an exception.\<close>

theorem acceptor_listens_on_ipv4:
  assumes "ConfigFromYAML Y config = Inr c" and "Acceptor_ctor bind c = Inr a"
  shows "(\<exists>n. y_get Y config ''acceptor'' = Inr n \<and> has_field Y n ''ip_version'' = Inr True) \<and>
    le_family (acc_endpoint a) = V4 \<and> unat (le_port (acc_endpoint a)) = acc_port c mod 65536"
proof -
  have "\<not> useIpV6 c" and "\<exists>n. y_get Y config ''acceptor'' = Inr n \<and> has_field Y n ''ip_version'' = Inr True"
    using assms(1) by (auto simp: ConfigFromYAML_def split: if_splits)
  with assms(2) show ?thesis
    by (auto simp: Acceptor_ctor_def Let_def unat_of_nat)
qed

definition sample_acceptor_config :: "string \<Rightarrow> ynode" where
  "sample_acceptor_config version =
     YMap [(''acceptor'', YMap [(''port'', YScalar ''70000''), (''ip_version'', YScalar version)])]"

lemma sample_ConfigFromYAML:
  "ConfigFromYAML sample_yaml (sample_acceptor_config v) = Inr \<lparr>acc_port = 70000, useIpV6 = False\<rparr>"
  by (simp add: ConfigFromYAML_def sample_acceptor_config_def sample_yaml_simps)

theorem acceptor_listens_on_ipv4_witness:
  "\<exists>a. Acceptor_ctor (\<lambda>_. Inr ()) \<lparr>acc_port = 70000, useIpV6 = False\<rparr> = Inr a \<and> le_family (acc_endpoint a) = V4 \<and>
    unat (le_port (acc_endpoint a)) = 4464"
proof -
  obtain a where a: "Acceptor_ctor (\<lambda>_. Inr ()) \<lparr>acc_port = 70000, useIpV6 = False\<rparr> = Inr a"
    by (simp add: Acceptor_ctor_def Let_def)
  from acceptor_listens_on_ipv4 [OF sample_ConfigFromYAML [of "''6''"] a] a show ?thesis by simp
qed

text \<open>
  The option \<^verbatim>\<open>truncate\<close> of the log file is read only where the configuration also has a
  misspelt key; otherwise the file is truncated.
\<close>

lemma truncate_ignored:
  "has_field Y node ''trucncate'' = Inr False \<Longrightarrow> file_sink P Y node = Inr s \<Longrightarrow>
    \<exists>name level pattern. s = FileSink name True level pattern"
  by (auto simp: file_sink_def split: if_splits)

text \<open>A configuration that cannot be loaded, or whose logging part is wrong, does not end in the
  message and the abort that are written for it: the message goes to a logger that is not
  registered yet, through a null pointer.\<close>

theorem broken_configuration:
  "ConfigureApplication P Y path Application_ctor =
    (case load_file P path of
       Inl e \<Rightarrow> Undefined
     | Inr n \<Rightarrow> (case ConfigureLogging P Y n of
         Inl e \<Rightarrow> Undefined
       | Inr l \<Rightarrow> Value \<lparr>app_config = Some n, app_logger = Some l, app_connector = False, app_exit_code = EXIT_SUCCESS,
           app_stopped = False\<rparr>))"
  by (auto simp: ConfigureApplication_def Application_ctor_def LoadConfig_def Config_def log_macro_def rbind_def split: sum.splits)

subsection \<open>How the program ends\<close>

lemma ThreadRoutine_exit:
  "app_exit_code (ThreadRoutine o' app) = (if o' = RanOut then app_exit_code app else EXIT_FAILURE)"
  by (cases o') (simp_all add: ThreadRoutine_def SetExitCode_def Terminate_def EXIT_SUCCESS_def EXIT_FAILURE_def)

lemma ThreadRoutines_exit:
  "app_exit_code (fold ThreadRoutine os app) = (if list_all (\<lambda>o'. o' = RanOut) os then app_exit_code app else EXIT_FAILURE)"
  by (induction os arbitrary: app) (auto simp: ThreadRoutine_exit)

lemma thread_ends_RanOut: "list_all (\<lambda>o'. o' = RanOut) (thread_ends n S) \<longleftrightarrow> sys_thrown S = []"
  by (cases "sys_thrown S") (auto simp: thread_ends_def list_all_iff)

definition config_path :: "(string \<times> string) list \<Rightarrow> string" where
  "config_path given = (case map_of given ''config'' of Some path \<Rightarrow> path | None \<Rightarrow> ''configs/config.yaml'')"

lemma run_options:
  "store_options run_description given ''help'' = map_of given ''help''"
  "store_options run_description given ''config'' = Some (config_path given)"
  by (simp_all add: store_options_def run_description_def config_path_def split: option.split)

lemma run_outcome:
  fixes S :: "('a, 'h, 'k, 'l, 'm) system"
  assumes "parse_command_line P run_description argv = Inr given" and "map_of given ''help'' = None"
    and "load_file P (config_path given) = Inr config" and "ConfigureLogging P Y config = Inr l"
    and "prepare P L Y config = Inr (n, S)"
  shows "run P L Y serve argv = (None,
    if list_ex undefined_behaviour (sys_thrown (serve n S)) then Undefined
    else if sys_aborted (serve n S) then Abort
    else Value (if sys_thrown (serve n S) = [] then EXIT_SUCCESS else EXIT_FAILURE))"
proof -
  let ?app = "Application_ctor\<lparr>app_config := Some config, app_logger := Some l\<rparr>"
  have "ConfigureApplication P Y (config_path given) Application_ctor = Value ?app"
    by (simp add: ConfigureApplication_def LoadConfig_def Config_def assms(3,4))
  moreover have "GetExitCode (fold ThreadRoutine (thread_ends n T) (RegisterConnector ?app)) =
      (if sys_thrown T = [] then EXIT_SUCCESS else EXIT_FAILURE)" for T :: "('a, 'h, 'k, 'l, 'm) system"
    by (simp add: GetExitCode_def ThreadRoutines_exit thread_ends_RanOut)
      (simp add: RegisterConnector_def Application_ctor_def)
  ultimately show ?thesis
    using assms(5) by (simp add: run_def assms(1,2) run_options Start_def join_threads_def Config_def)
qed

text \<open>C21. How the program ends. Once the configuration, the one named or else
  \<^verbatim>\<open>configs/config.yaml\<close>, is read and the threads are running, the exit code is a success exactly
  when no exception has left a handler; the order in which the threads end does not matter, and the
  success that every thread reports last does not cover up a failure. Nothing but undefined
  behaviour of a handler or an exception in a destructor ends it otherwise.\<close>

theorem run_exit_code:
  assumes "parse_command_line P run_description argv = Inr given" and "map_of given ''help'' = None"
    and "load_file P (config_path given) = Inr config" and "ConfigureLogging P Y config = Inr l"
    and "prepare P L Y config = Inr (n, S)"
  shows "snd (run P L Y serve argv) =
    (if \<exists>m. UndefinedBehaviour m \<in> set (sys_thrown (serve n S)) then Undefined
     else if sys_aborted (serve n S) then Abort
     else Value (if sys_thrown (serve n S) = [] then EXIT_SUCCESS else EXIT_FAILURE))"
proof -
  have "undefined_behaviour e \<longleftrightarrow> (\<exists>m. e = UndefinedBehaviour m)" for e by (cases e) auto
  then have "list_ex undefined_behaviour es \<longleftrightarrow> (\<exists>m. UndefinedBehaviour m \<in> set es)" for es
    by (auto simp: list_ex_iff)
  with run_outcome [OF assms] show ?thesis by simp
qed

definition sample_full_config :: ynode where
  "sample_full_config = YMap [
     (''logging'', YMap [(''console'', YMap [(''level'', YScalar ''debug'')])]),
     (''acceptor'', YMap [(''port'', YScalar ''9090''), (''ip_version'', YScalar ''4'')]),
     (''load_balancing'', sample_balancing ''round_robin'')]"

definition sample_cores :: "nat \<Rightarrow> (ynode, string) sys_libs" where
  "sample_cores n = \<lparr>load_file = (\<lambda>_. Inr sample_full_config), level_from_str = (\<lambda>s. s), level_trace = ''trace'',
     open_file_sink = (\<lambda>_ _. Inr ()), hardware_concurrency = n, bind_acceptor = (\<lambda>_. Inr ()),
     make_barrier = (\<lambda>n. if n = 0 then Inl (SystemError ''barrier'') else Inr ()),
     parse_command_line = (\<lambda>desc argv. Inr [])\<rparr>"

abbreviation sample_sys_libs :: "(ynode, string) sys_libs" where
  "sample_sys_libs \<equiv> sample_cores 2"

lemma sample_round_robin:
  "DetectSelector sample_libs sample_yaml sample_full_config = Inr (RoundRobinS \<lparr>rr_counter = 0, rr_backends = sample_bs\<rparr>)"
  by (rule sample_detect_rr) (simp_all add: sample_full_config_def sample_balancing_def sample_yaml_simps)

definition sample_full_start :: sample_system where
  "sample_full_start = balancer_start \<lparr>acc_endpoint = AcceptorEndpoint 9090 False, acc_open = True, acc_waiting = False\<rparr>
     (RoundRobinS \<lparr>rr_counter = 0, rr_backends = sample_bs\<rparr>)"

lemma sample_cores_prepare:
  "0 < n \<Longrightarrow> prepare (sample_cores n) sample_libs sample_yaml sample_full_config = Inr (n, sample_full_start)"
proof -
  assume n: "0 < n"
  then have "ConfigFromYAML sample_yaml sample_full_config = Inr \<lparr>acc_port = 9090, useIpV6 = False\<rparr>"
    "ConfigureThreadPool (sample_cores n) sample_yaml sample_full_config = Inr n"
    by (simp_all add: ConfigFromYAML_def ConfigureThreadPool_def sample_full_config_def sample_yaml_simps sample_cores_def)
  with n show ?thesis
    by (simp add: prepare_def sample_round_robin Acceptor_ctor_def) (simp add: sample_cores_def sample_full_start_def)
qed

lemmas sample_prepare = sample_cores_prepare [of 2, simplified]

lemma sample_configured:
  "parse_command_line (sample_cores n) run_description [] = Inr []" "map_of [] ''help'' = None"
  "load_file (sample_cores n) (config_path given) = Inr sample_full_config"
  "\<exists>l. ConfigureLogging (sample_cores n) sample_yaml sample_full_config = Inr l"
  by (simp_all add: sample_cores_def)
    (simp add: ConfigureLogging_def optional_sink_def console_sink_def string_or_def sample_full_config_def sample_yaml_simps)

lemma sample_full_node: "y_get sample_yaml sample_full_config ''load_balancing'' = Inr (sample_balancing ''round_robin'')"
  by (simp add: sample_full_config_def sample_balancing_def sample_yaml_simps)

theorem run_exit_code_witness:
  "snd (run sample_sys_libs sample_libs sample_yaml (\<lambda>n S. throw all_excluded S) []) = Value EXIT_FAILURE"
proof -
  obtain lg where lg: "ConfigureLogging sample_sys_libs sample_yaml sample_full_config = Inr lg"
    using sample_configured(4) by blast
  from run_exit_code [OF sample_configured(1-3) lg sample_prepare, of "\<lambda>n S. throw all_excluded S"]
  show ?thesis by (simp add: sample_full_start_def balancer_start_def all_excluded_def)
qed

text \<open>C22. From the configuration file to the end: if the configuration has no clashing keys and at
  least one backend, and the network fails only with system errors, then the program, whatever its
  threads do, ends without undefined behaviour unless a handler has found that all backends are
  excluded; with least connections and least response time, unless the heap has been called outside
  of its documented contract, either.\<close>

theorem run_defined:
  assumes "parse_command_line P run_description argv = Inr given" and "map_of given ''help'' = None"
    and "load_file P (config_path given) = Inr config" and "ConfigureLogging P Y config = Inr l"
    and "prepare P L Y config = Inr (n, S)" and "libs_ok L V"
    and "y_get Y config ''load_balancing'' = Inr balancing_node" and "clash_free (lib_env L) Y balancing_node"
    and "sel_pool L (w_selector (sys_world S)) \<noteq> {}" and "sys_reach R L (in_contract R L) S (serve n S)"
    and "all_excluded \<notin> set (sys_thrown (serve n S))"
  shows "snd (run P L Y serve argv) \<in> {Value EXIT_SUCCESS, Value EXIT_FAILURE, Abort}"
proof -
  from assms(5) obtain a s where S: "S = balancer_start a s" "DetectSelector L Y config = Inr s"
    by (auto simp: prepare_def)
  then have pool: "sel_pool L s \<noteq> {}" using assms(9) by (simp add: balancer_start_def)
  have w: "well L V (sel_pool L s) (serve n S)"
    using well_reach [OF assms(10)] well_start [OF configured_inv [OF S(2) assms(6,7,8)] pool] S(1) by blast
  from assms(11) have "takeWhile (\<lambda>e. e \<noteq> all_excluded) (sys_thrown (serve n S)) = sys_thrown (serve n S)"
    by (auto simp: takeWhile_eq_all_conv)
  with w have "\<forall>e \<in> set (sys_thrown (serve n S)). system_error e" by (simp add: well_def)
  then have "\<not> list_ex undefined_behaviour (sys_thrown (serve n S))"
    by (auto simp: list_ex_iff system_error_def)
  with run_outcome [OF assms(1-5), of serve] show ?thesis by simp
qed

theorem run_defined_witness:
  "snd (run sample_sys_libs sample_libs sample_yaml (\<lambda>n S. on_accept Success (Inl (SystemError ''ENOTCONN'')) S) []) \<noteq> Undefined"
proof -
  let ?serve = "\<lambda>n. on_accept Success (Inl (SystemError ''ENOTCONN'')) :: sample_system \<Rightarrow> sample_system"
  obtain lg where lg: "ConfigureLogging sample_sys_libs sample_yaml sample_full_config = Inr lg"
    using sample_configured(4) by blast
  have pool: "sel_pool sample_libs (w_selector (sys_world sample_full_start)) \<noteq> {}"
    by (simp add: sample_full_start_def balancer_start_def sel_pool_def sample_bs_def)
  let ?ev = "AcceptDone Success (Inl (SystemError ''ENOTCONN'')) :: sample_addr sys_event"
  have "sys_step appending sample_libs sample_full_start ?ev (?serve 2 sample_full_start)"
    by (simp add: sys_step_accept sample_full_start_def balancer_start_def begins_def Acceptor_Run_def DoAccept_def)
  from sys_reach.after [OF sys_reach.here this, where I = "in_contract appending sample_libs"]
  have reach: "sys_reach appending sample_libs (in_contract appending sample_libs) sample_full_start (?serve 2 sample_full_start)" by simp
  have "all_excluded \<notin> set (sys_thrown (?serve 2 sample_full_start))"
    by (simp add: on_accept_def HandleAccept_def settle_simps sample_full_start_def balancer_start_def all_excluded_def)
  from run_defined [where serve = ?serve, OF sample_configured(1-3) lg sample_prepare sample_libs_ok sample_full_node sample_libs_clash_free pool reach this]
  show ?thesis by auto
qed

text \<open>The usage message shows another default for \<^verbatim>\<open>config\<close> than the program has.\<close>

lemma usage_default_differs:
  "store_options PrintPrettyUsageMessage [] ''config'' \<noteq> store_options run_description [] ''config''"
  by (simp add: store_options_def PrintPrettyUsageMessage_def run_description_def)

text \<open>The handler of a connection can ask for the connector: it is registered before the threads run.\<close>

lemma ThreadRoutines_connector: "app_connector (fold ThreadRoutine ends app) = app_connector app"
proof (induction ends arbitrary: app)
  case (Cons e ends)
  have "app_connector (ThreadRoutine e app) = app_connector app"
    by (cases e) (simp_all add: ThreadRoutine_def SetExitCode_def Terminate_def)
  with Cons show ?case by simp
qed simp

lemma connector_registered: "app_Connector (fold ThreadRoutine ends (RegisterConnector app)) = Inr ()"
  by (simp add: app_Connector_def ThreadRoutines_connector) (simp add: RegisterConnector_def)

end
