(* ===== verification/Thread_Pool.thy ===== *)
theory Thread_Pool
  imports Application
begin

section \<open>The threads of the event loop\<close>

text \<open>
  \<^verbatim>\<open>Start\<close> runs \<^verbatim>\<open>ThreadRoutine\<close> in a number of threads, its own included, and every handler
  takes one of them until it has returned: a handler that is about to select a backend, one whose
  session is not destroyed yet, and one whose exception is on its way to \<^verbatim>\<open>ThreadRoutine\<close>,
  which ends the thread. The steps of \<^verbatim>\<open>Balancer\<close> do not count the threads; those of this
  theory do. A session whose handler threw is destroyed by the thread the exception ends, hence the
  maximum.
\<close>

definition busy :: "('a, 'h, 'k, 'l, 'm) system \<Rightarrow> nat" where
  "busy S = sys_selecting S + max (length (sys_closing S)) (length (sys_thrown S))"

primrec starts :: "'a sys_event \<Rightarrow> bool" where
  "starts (AcceptDone ec local) = True"
| "starts (SelectNow peer) = False"
| "starts (AttemptDone i ec) = True"
| "starts (SessionDone i out c) = True"
| "starts (DestroySession j out) = False"
| "starts (Tick t) = False"
| "starts Stop = False"

inductive pool_step ::
    "nat \<Rightarrow> reuse \<Rightarrow> ('a, 'h, 'k, 'l, 'm) libs \<Rightarrow> ('a, 'h, 'k, 'l, 'm) system \<Rightarrow> 'a sys_event \<Rightarrow>
     ('a, 'h, 'k, 'l, 'm) system \<Rightarrow> bool"
  for threads_num R L where
  begin_handler: "sys_step R L S ev T \<Longrightarrow> starts ev \<Longrightarrow> busy S < threads_num \<Longrightarrow> pool_step threads_num R L S ev T"
| go_on: "sys_step R L S ev T \<Longrightarrow> \<not> starts ev \<Longrightarrow> pool_step threads_num R L S ev T"

inductive_simps pool_step_iff: "pool_step n R L S ev T"

inductive pool_reach ::
    "nat \<Rightarrow> reuse \<Rightarrow> ('a, 'h, 'k, 'l, 'm) libs \<Rightarrow>
     (('a, 'h, 'k, 'l, 'm) system \<Rightarrow> 'a sys_event \<Rightarrow> bool) \<Rightarrow> ('a, 'h, 'k, 'l, 'm) system \<Rightarrow>
     ('a, 'h, 'k, 'l, 'm) system \<Rightarrow> bool"
  for threads_num R L I S where
  at_start: "pool_reach threads_num R L I S S"
| onward: "pool_reach threads_num R L I S T \<Longrightarrow> pool_step threads_num R L T ev U \<Longrightarrow> I T ev \<Longrightarrow>
    pool_reach threads_num R L I S U"

lemma pool_reach_sys_reach: "pool_reach n R L I S T \<Longrightarrow> sys_reach R L I S T"
  by (induction rule: pool_reach.induct) (auto simp: pool_step_iff intro: sys_reach.intros)

lemma pool_reach_trans: "pool_reach n R L I T U \<Longrightarrow> pool_reach n R L I S T \<Longrightarrow> pool_reach n R L I S U"
  by (induction rule: pool_reach.induct) (auto intro: pool_reach.onward)

lemma pool_step_more: "pool_step n R L S ev T \<Longrightarrow> n \<le> m \<Longrightarrow> pool_step m R L S ev T"
  by (auto simp: pool_step_iff)

text \<open>A handler takes one thread, and a step that goes on with one takes none.\<close>

lemma busy_settle: "busy (settle x S) \<le> Suc (busy S)"
  by (auto simp: busy_def settle_simps split: sum.splits reaction.splits)

lemma busy_step:
  assumes "sys_step R L S ev T"
  shows "busy T \<le> (if starts ev then Suc (busy S) else busy S)"
  using assms
proof cases
  case (accept ec local)
  then show ?thesis
    using busy_settle by (auto simp: on_accept_def busy_def settle_simps split: prod.splits sum.splits reaction.splits)
next
  case (attempt i ec)
  then show ?thesis by (auto simp: on_attempt_def Let_def busy_def settle_simps split: sum.splits reaction.splits)
next
  case (session i c out)
  then show ?thesis by (auto simp: on_session_def Let_def busy_def split: prod.splits sum.splits)
next
  case (select peer)
  have "fst (seek_backend L peer (sys_world S)) \<noteq> Inr Selecting"
    by (auto simp: seek_backend_def MakeAndRunSession_def split: sum.splits prod.splits backend.splits)
  with select show ?thesis by (auto simp: on_select_def busy_def settle_simps split: sum.splits reaction.splits)
next
  case (destroy j out)
  then show ?thesis by (auto simp: on_destroy_def busy_def split: prod.splits)
qed (simp_all add: on_tick_def busy_def)

lemma busy_reach:
  "pool_reach n R L I S T \<Longrightarrow> busy S \<le> n \<Longrightarrow> busy T \<le> n"
proof (induction rule: pool_reach.induct)
  case (onward T ev U)
  from onward.hyps(2) onward.IH [OF onward.prems] busy_step [of R L T ev U] show ?case
    by (auto simp: pool_step_iff split: if_splits)
qed

lemma busy_start: "busy (balancer_start a s) = 0"
  by (simp add: busy_def balancer_start_def)

text \<open>Every thread ends once, and each exception that left a handler ends one.\<close>

lemma thread_ends_length:
  assumes "pool_reach n R L I (balancer_start a s) S"
  shows "length (sys_thrown S) \<le> n" "length (thread_ends n S) = n"
proof -
  from busy_reach [OF assms] have "busy S \<le> n" by (simp add: busy_start)
  then show "length (sys_thrown S) \<le> n" by (simp add: busy_def)
  then show "length (thread_ends n S) = n" by (simp add: thread_ends_def)
qed

subsection \<open>One thread\<close>

lemma single_thread_throws:
  assumes "pool_reach 1 R L (in_contract R L) (balancer_start a s) S" and "sel_inv L V s" and "sel_pool L s \<noteq> {}"
    and "e \<in> set (sys_thrown S)"
  shows "e = all_excluded \<or> system_error e"
proof -
  from thread_ends_length(1) [OF assms(1)] assms(4) have "sys_thrown S = [e]"
    by (cases "sys_thrown S") auto
  with well_reach [OF pool_reach_sys_reach [OF assms(1)] well_start [OF assms(2,3)]]
  show ?thesis by (auto simp: well_def split: if_splits)
qed

text \<open>C8. With one thread nothing goes wrong in the end either. If the program runs one thread,
  the configuration has no clashing keys and at least one backend, and the network fails only with system
  errors, then the program never ends in undefined behaviour, even when all backends are excluded:
  the exception ends the only thread, and nothing is selected after it. With least connections and
  least response time this is shown of the runs that call the heap as documented.\<close>

theorem single_thread_defined:
  assumes "parse_command_line P run_description argv = Inr given" and "map_of given ''help'' = None"
    and "load_file P (config_path given) = Inr config" and "ConfigureLogging P Y config = Inr l"
    and "prepare P L Y config = Inr (1, S)" and "libs_ok L V"
    and "y_get Y config ''load_balancing'' = Inr balancing_node" and "clash_free (lib_env L) Y balancing_node"
    and "sel_pool L (w_selector (sys_world S)) \<noteq> {}" and "pool_reach 1 R L (in_contract R L) S (serve 1 S)"
  shows "snd (run P L Y serve argv) \<in> {Value EXIT_SUCCESS, Value EXIT_FAILURE, Abort}"
proof -
  from assms(5) obtain a s where S: "S = balancer_start a s" "DetectSelector L Y config = Inr s"
    by (auto simp: prepare_def)
  then have pool: "sel_pool L s \<noteq> {}" using assms(9) by (simp add: balancer_start_def)
  note throws = single_thread_throws [OF assms(10) [unfolded S(1)] configured_inv [OF S(2) assms(6,7,8)] pool]
  have "\<not> list_ex undefined_behaviour (sys_thrown (serve 1 S))"
    using throws S(1) by (fastforce simp: list_ex_iff system_error_def all_excluded_def)
  with run_outcome [OF assms(1-5), of serve] show ?thesis by simp
qed

text \<open>One client is accepted, and both backends refuse it, one after the other, in the only thread.\<close>

definition sample_deserted :: "sample_system \<Rightarrow> sample_system" where
  "sample_deserted S = on_attempt sample_libs 0 ConnectionRefused (sample_retried S)"

lemma pool_accepted:
  assumes "begins S" and "acc_waiting (sys_acceptor S)" and "busy S < n"
  shows "pool_reach n appending sample_libs (in_contract appending sample_libs) S (sample_accepted S)"
proof -
  from sample_accepted_steps [OF assms(1,2)] obtain T where
    "sys_step appending sample_libs S (AcceptDone Success (Inr ())) T"
    "sys_step appending sample_libs T (SelectNow (Inr (sample_ep ''::1'' 1))) (sample_accepted S)" by blast
  with assms(3) have "pool_step n appending sample_libs S (AcceptDone Success (Inr ())) T"
    "pool_step n appending sample_libs T (SelectNow (Inr (sample_ep ''::1'' 1))) (sample_accepted S)"
    by (simp_all add: pool_step_iff)
  from pool_reach.onward [OF pool_reach.onward [OF pool_reach.at_start this(1)] this(2)] show ?thesis by simp
qed

lemma sample_deserted_reach:
  "pool_reach 1 appending sample_libs (in_contract appending sample_libs) sample_full_start (sample_deserted sample_full_start)"
  "sys_thrown (sample_deserted sample_full_start) = [all_excluded]"
proof -
  let ?S = sample_full_start
  have S: "w_selector (sys_world ?S) = RoundRobinS \<lparr>rr_counter = 0, rr_backends = sample_bs\<rparr>" "begins ?S"
    "acc_waiting (sys_acceptor ?S)" "sys_attempts ?S = []" "sys_thrown ?S = []" "sys_selecting ?S = 0" "sys_closing ?S = []"
    by (simp_all add: sample_full_start_def balancer_start_def begins_def Acceptor_Run_def DoAccept_def)
  have T: "begins (sample_accepted ?S)" "busy (sample_accepted ?S) = 0"
    using sample_accepted_rr [OF S(1) _ S(2)] S by (auto simp: busy_def)
  from sample_failover [OF S(1,2,4)] S obtain ep ep' t where
    U: "sys_attempts (sample_accepted ?S) = [ConnectingIp ep (sample_bs ! 1)]" "sys_selecting (sample_refused ?S) = 1"
      "begins (sample_refused ?S)" "sys_attempts (sample_retried ?S) = [ConnectingIp ep' (sample_bs ! 0)]" "begins (sample_retried ?S)"
      "w_selector (sys_world (sample_retried ?S)) = RoundRobinS t" "rr_backends t = [sample_bs ! 0]"
      "sys_thrown (sample_retried ?S) = []" "busy (sample_retried ?S) = 0"
    by (metis (no_types, lifting) One_nat_def add_0 busy_def list.size(3) max.idem)
  have "ExcludeBackend sample_libs (w_selector (sys_world (sample_retried ?S))) (sample_bs ! 0) =
      (Inl all_excluded, RoundRobinS (t\<lparr>rr_backends := []\<rparr>))"
    using U(6,7) by (simp add: ExcludeBackend_def rr_ExcludeBackend_def)
  from refusal_excludes [where i = 0, OF _ this, of ep'] U(4,8)
  show "sys_thrown (sample_deserted ?S) = [all_excluded]" by (simp add: sample_deserted_def settle_simps)
  have "pool_step 1 appending sample_libs (sample_accepted ?S) (AttemptDone 0 ConnectionRefused) (sample_refused ?S)"
    "pool_step 1 appending sample_libs (sample_refused ?S) (SelectNow (Inr (sample_ep ''::1'' 1))) (sample_retried ?S)"
    "pool_step 1 appending sample_libs (sample_retried ?S) (AttemptDone 0 ConnectionRefused) (sample_deserted ?S)"
    using T U by (simp_all add: pool_step_iff sys_step_attempt sys_step_select begins_def sample_refused_def sample_retried_def sample_deserted_def)
  from pool_reach.onward [OF pool_reach.onward [OF pool_reach.onward [OF pool_accepted [OF S(2,3)] this(1)] this(2)] this(3)]
  show "pool_reach 1 appending sample_libs (in_contract appending sample_libs) ?S (sample_deserted ?S)"
    using S by (simp add: busy_def)
qed

theorem single_thread_defined_witness:
  "sys_thrown (sample_deserted sample_full_start) = [all_excluded] \<and>
    snd (run (sample_cores 1) sample_libs sample_yaml (\<lambda>n. sample_deserted) []) \<noteq> Undefined"
proof -
  let ?serve = "\<lambda>n. sample_deserted"
  obtain lg where lg: "ConfigureLogging (sample_cores 1) sample_yaml sample_full_config = Inr lg"
    using sample_configured(4) by blast
  have prepare: "prepare (sample_cores 1) sample_libs sample_yaml sample_full_config = Inr (1, sample_full_start)"
    by (rule sample_cores_prepare) simp
  have pool: "sel_pool sample_libs (w_selector (sys_world sample_full_start)) \<noteq> {}"
    by (simp add: sample_full_start_def balancer_start_def sel_pool_def sample_bs_def)
  from single_thread_defined [where serve = ?serve, OF sample_configured(1-3) lg prepare sample_libs_ok
      sample_full_node sample_libs_clash_free pool sample_deserted_reach(1)] sample_deserted_reach(2)
  show ?thesis by auto
qed

subsection \<open>Two threads\<close>

text \<open>C19. The race on the selector. Excluding a refusing backend and selecting another are two calls,
  each under the lock of its own: when the last two backends refuse in two threads, the second
  thread excludes the last backend before the first selects again, and the first takes a remainder
  by the size of an empty vector. The exception that all backends are excluded does not prevent it;
  two free threads are all it takes.\<close>

theorem exclusion_race:
  fixes S :: "('a, 'h, 'k, 'l, 'm) system" and L :: "('a, 'h, 'k, 'l, 'm) libs"
  assumes "begins S" and "Suc (busy S) < n" and "w_selector (sys_world S) = RoundRobinS s" and "i < j" and "j < length (sys_attempts S)"
    and "sys_attempts S ! i = ConnectingIp ep b" and "sys_attempts S ! j = ConnectingIp ep' b'"
    and "\<forall>x \<in> set (rr_backends s). backend_eq x b \<or> backend_eq x b'" and "\<exists>x \<in> set (rr_backends s). \<not> backend_eq x b"
  shows "\<exists>T1 T2 T3. pool_step n R L S (AttemptDone i ConnectionRefused) T1 \<and>
    pool_step n R L T1 (AttemptDone (j - 1) ConnectionRefused) T2 \<and> pool_step n R L T2 (SelectNow (Inr client)) T3 \<and>
    sys_thrown T3 = sys_thrown S @ [all_excluded, UndefinedBehaviour ''remainder by zero'']"
proof -
  let ?w = "sys_world S"
  define s1 where "s1 = s\<lparr>rr_backends := filter (\<lambda>x. \<not> backend_eq x b) (rr_backends s)\<rparr>"
  define s2 where "s2 = s1\<lparr>rr_backends := []\<rparr>"
  have "filter (\<lambda>x. \<not> backend_eq x b) (rr_backends s) \<noteq> []" using assms(9) by (auto simp: filter_empty_conv)
  then have ex1: "ExcludeBackend L (w_selector ?w) b = (Inr (), RoundRobinS s1)"
    by (simp add: assms(3) ExcludeBackend_def rr_ExcludeBackend_def Let_def s1_def)
  define T1 where "T1 = on_attempt L i ConnectionRefused S"
  have T1: "sys_thrown T1 = sys_thrown S" "sys_attempts T1 = erase_at i (sys_attempts S)" "sys_selecting T1 > 0"
    "busy T1 = Suc (busy S)" "w_selector (sys_world T1) = RoundRobinS s1" "begins T1"
    using assms(1) unfolding T1_def refusal_excludes [OF assms(6) ex1] by (simp_all add: settle_simps begins_def busy_def)
  have at: "sys_attempts T1 ! (j - 1) = ConnectingIp ep' b'" "j - 1 < length (sys_attempts T1)"
    using assms(4,5,7) by (auto simp: T1(2) erase_at_def nth_append min_def)
  have "filter (\<lambda>x. \<not> backend_eq x b') (rr_backends s1) = []"
    using assms(8) by (auto simp: s1_def filter_empty_conv)
  then have ex2: "ExcludeBackend L (w_selector (sys_world T1)) b' = (Inl all_excluded, RoundRobinS s2)"
    by (simp add: T1(5) ExcludeBackend_def rr_ExcludeBackend_def Let_def s2_def)
  define T2 where "T2 = on_attempt L (j - 1) ConnectionRefused T1"
  have T2: "sys_thrown T2 = sys_thrown S @ [all_excluded]" "sys_selecting T2 > 0"
    "w_selector (sys_world T2) = RoundRobinS s2" "\<not> sys_aborted T2"
    using T1 unfolding T2_def refusal_excludes [OF at(1) ex2] by (simp_all add: settle_simps begins_def)
  define T3 where "T3 = on_select L (Inr client) T2"
  have T3: "sys_thrown T3 = sys_thrown S @ [all_excluded, UndefinedBehaviour ''remainder by zero'']"
    using T2 by (simp add: T3_def on_select_def settle_simps seek_backend_def MakeAndRunSession_def SelectBackend_def
        rr_SelectBackend_def s2_def)
  have "pool_step n R L S (AttemptDone i ConnectionRefused) T1"
    using assms(1,2,4,5) by (simp add: pool_step_iff sys_step_attempt T1_def)
  moreover have "pool_step n R L T1 (AttemptDone (j - 1) ConnectionRefused) T2"
    using assms(2) T1(4,6) at(2) by (simp add: pool_step_iff sys_step_attempt T2_def)
  moreover have "pool_step n R L T2 (SelectNow (Inr client)) T3"
    using T2(2,4) by (simp add: pool_step_iff sys_step_select T3_def)
  ultimately show ?thesis using T3 by blast
qed

text \<open>Two clients are accepted in two threads, and both backends refuse.\<close>

lemma sample_two_reach: "pool_reach 2 appending sample_libs (in_contract appending sample_libs) sample_rr2_start sample_two"
proof -
  let ?S = sample_rr2_start and ?T = "sample_accepted sample_rr2_start"
  have S: "begins ?S" "acc_waiting (sys_acceptor ?S)" "busy ?S = 0"
    "w_selector (sys_world ?S) = RoundRobinS \<lparr>rr_counter = 0, rr_backends = sample_bs\<rparr>"
    by (simp_all add: sample_rr2_start_def busy_start) (simp_all add: balancer_start_def begins_def Acceptor_Run_def DoAccept_def)
  from sample_accepted_rr [OF S(4) _ S(1)] S(3) have T: "begins ?T" "acc_waiting (sys_acceptor ?T)" "busy ?T = 0"
    by (auto simp: busy_def)
  from pool_accepted [OF S(1,2), of 2] pool_accepted [OF T(1,2), of 2] S(3) T(3) show ?thesis
    unfolding sample_two_def by (auto intro: pool_reach_trans)
qed

theorem exclusion_race_witness:
  "\<exists>T. pool_reach 2 appending sample_libs (in_contract appending sample_libs) sample_rr2_start T \<and>
    sys_thrown T = [all_excluded, UndefinedBehaviour ''remainder by zero'']"
proof -
  from sample_two_state obtain s ep ep' where S: "w_selector (sys_world sample_two) = RoundRobinS s" "rr_backends s = sample_bs"
    "begins sample_two" "sys_thrown sample_two = []" "Suc (busy sample_two) < 2"
    "sys_attempts sample_two = [ConnectingIp ep (sample_bs ! 1), ConnectingIp ep' (sample_bs ! 0)]" by (auto simp: busy_def)
  have "\<exists>T1 T2 T3. pool_step 2 appending sample_libs sample_two (AttemptDone 0 ConnectionRefused) T1 \<and>
    pool_step 2 appending sample_libs T1 (AttemptDone (1 - 1) ConnectionRefused) T2 \<and>
    pool_step 2 appending sample_libs T2 (SelectNow (Inr (sample_ep ''::1'' 1))) T3 \<and>
    sys_thrown T3 = sys_thrown sample_two @ [all_excluded, UndefinedBehaviour ''remainder by zero'']"
    by (rule exclusion_race [OF S(3,5,1), of 0 1 ep "sample_bs ! 1" ep' "sample_bs ! 0"])
      (use S in \<open>simp_all add: sample_bs_def sample_ep_def\<close>)
  then obtain T1 T2 T3 where st: "pool_step 2 appending sample_libs sample_two (AttemptDone 0 ConnectionRefused) T1"
    "pool_step 2 appending sample_libs T1 (AttemptDone (1 - 1) ConnectionRefused) T2"
    "pool_step 2 appending sample_libs T2 (SelectNow (Inr (sample_ep ''::1'' 1))) T3"
    "sys_thrown T3 = [all_excluded, UndefinedBehaviour ''remainder by zero'']" using S(4) by auto
  from pool_reach.onward [OF pool_reach.onward [OF pool_reach.onward [OF sample_two_reach st(1)] st(2)] st(3)] st(4)
  show ?thesis by auto
qed

end
