(* ===== verification/Refinement_Map.thy ===== *)
theory Refinement_Map
  imports LB_Prelude
begin

section \<open>Refinement mappings\<close>

text \<open>
  A concrete step relation implements an abstract one when a function takes its states to abstract
  states, and each of its steps to the abstract actions that are observed of it, possibly none. The
  condition is one on single steps; that all traces of the one are traces of the other is proved
  here once. \<open>ok\<close> says how far the implementation is claimed: it holds of all states before one in
  which it holds.
\<close>

inductive run_of :: "('t \<Rightarrow> 'o \<Rightarrow> 't \<Rightarrow> bool) \<Rightarrow> 't \<Rightarrow> 'o list \<Rightarrow> 't \<Rightarrow> bool"
  for step A where
  stay: "run_of step A [] A"
| act: "run_of step A os B \<Longrightarrow> step B a C \<Longrightarrow> run_of step A (os @ [a]) C"

lemma run_of_one: "step A a B \<Longrightarrow> run_of step A [a] B"
  using run_of.act [OF run_of.stay] by fastforce

lemma run_of_trans: "run_of step B ps C \<Longrightarrow> run_of step A os B \<Longrightarrow> run_of step A (os @ ps) C"
proof (induction rule: run_of.induct)
  case (act ps C a D)
  from run_of.act [OF act.IH [OF act.prems] act.hyps(2)] show ?case by simp
qed simp

text \<open>The steps of the implementation, with what is observed of them.\<close>

inductive traced ::
    "('s \<Rightarrow> 'e \<Rightarrow> 's \<Rightarrow> bool) \<Rightarrow> ('s \<Rightarrow> 'e \<Rightarrow> 'o list) \<Rightarrow> 's \<Rightarrow> 'o list \<Rightarrow> 's \<Rightarrow> bool"
  for step watch S where
  begun: "traced step watch S [] S"
| further: "traced step watch S os T \<Longrightarrow> step T ev U \<Longrightarrow> traced step watch S (os @ watch T ev) U"

lemma traced_after: "traced step watch S os T \<Longrightarrow> step T ev U \<Longrightarrow> watch T ev = ps \<Longrightarrow> traced step watch S (os @ ps) U"
  using traced.further by metis

lemma traced_first: "step S ev T \<Longrightarrow> watch S ev = ps \<Longrightarrow> traced step watch S ps T"
  using traced.further [of step watch S "[]" S ev T] by (simp add: traced.begun)

locale refinement_map =
  fixes cstep :: "'s \<Rightarrow> 'e \<Rightarrow> 's \<Rightarrow> bool"
    and astep :: "'t \<Rightarrow> 'o \<Rightarrow> 't \<Rightarrow> bool"
    and abs :: "'s \<Rightarrow> 't"
    and watch :: "'s \<Rightarrow> 'e \<Rightarrow> 'o list"
    and inv :: "'s \<Rightarrow> bool"
    and ok :: "'s \<Rightarrow> bool"
  assumes ok_before: "cstep S ev T \<Longrightarrow> ok T \<Longrightarrow> ok S"
    and inv_step: "inv S \<Longrightarrow> cstep S ev T \<Longrightarrow> ok T \<Longrightarrow> inv T"
    and simulates: "inv S \<Longrightarrow> cstep S ev T \<Longrightarrow> ok T \<Longrightarrow> run_of astep (abs S) (watch S ev) (abs T)"
begin

lemma traces_refine:
  assumes "traced cstep watch S os T" and "inv S" and "ok T"
  shows "inv T \<and> run_of astep (abs S) os (abs T)"
  using assms(1,3)
proof induction
  case begun
  show ?case using assms(2) by (simp add: run_of.stay)
next
  case (further os T ev U)
  from further.IH ok_before [OF further.hyps(2) further.prems] have T: "inv T" "run_of astep (abs S) os (abs T)" by auto
  from inv_step [OF T(1) further.hyps(2) further.prems]
    run_of_trans [OF simulates [OF T(1) further.hyps(2) further.prems] T(2)] show ?case ..
qed

text \<open>A property of all runs of the specification is one of the implementation.\<close>

lemma transfers:
  assumes "traced cstep watch S os T" and "inv S" and "ok T" and "\<And>B. run_of astep (abs S) os B \<Longrightarrow> Q os B"
  shows "Q os (abs T)"
  using traces_refine [OF assms(1-3)] assms(4) by blast

end

end
