(* ===== verification/Balancer_Spec.thy ===== *)
theory Balancer_Spec
  imports Balancer_Safety Refinement_Map
begin

section \<open>What a load balancer is\<close>

text \<open>
  The balancer without selectors, handlers and threads: a pool of backends, clients that wait for
  one, attempts to connect, and connections. It may choose any backend of the pool; a refusal takes
  nothing but the refusing backends out of it, and all of them where the specification is exact. This theory shows that the running balancer
  implements this specification, for every algorithm, until a handler finds that all backends are
  excluded or a heap is called outside of its contract, and what follows of it.
\<close>

subsection \<open>The specification\<close>

record 'a lb_spec =
  spec_pool :: "'a backend set"
  spec_waiting :: nat
  spec_trying :: "'a backend multiset"
  spec_serving :: nat
  spec_ending :: nat

datatype 'a lb_action =
    Arrive
  | Leave
  | Choose "'a backend"
  | Refuse "'a backend"
  | Fail "'a backend"
  | Connect "'a backend"
  | Hang_up
  | Finish

inductive spec_step :: "bool \<Rightarrow> 'a lb_spec \<Rightarrow> 'a lb_action \<Rightarrow> 'a lb_spec \<Rightarrow> bool"
  for exact where
  arrive: "spec_step exact A Arrive (A\<lparr>spec_waiting := Suc (spec_waiting A)\<rparr>)"
| leave: "spec_waiting A = Suc n \<Longrightarrow> spec_step exact A Leave (A\<lparr>spec_waiting := n\<rparr>)"
| choose: "spec_waiting A = Suc n \<Longrightarrow> b \<in> spec_pool A \<Longrightarrow>
    spec_step exact A (Choose b) (A\<lparr>spec_waiting := n, spec_trying := add_mset b (spec_trying A)\<rparr>)"
| refuse: "spec_trying A = add_mset b M \<Longrightarrow> P \<subseteq> spec_pool A \<Longrightarrow> P \<noteq> {} \<Longrightarrow>
    (\<And>x. x \<in> spec_pool A \<Longrightarrow> \<not> backend_eq x b \<Longrightarrow> x \<in> P) \<Longrightarrow>
    (\<And>x. exact \<Longrightarrow> x \<in> P \<Longrightarrow> \<not> backend_eq x b) \<Longrightarrow>
    spec_step exact A (Refuse b) (A\<lparr>spec_pool := P, spec_waiting := Suc (spec_waiting A), spec_trying := M\<rparr>)"
| fail: "spec_trying A = add_mset b M \<Longrightarrow> spec_step exact A (Fail b) (A\<lparr>spec_trying := M\<rparr>)"
| connect: "spec_trying A = add_mset b M \<Longrightarrow>
    spec_step exact A (Connect b) (A\<lparr>spec_trying := M, spec_serving := Suc (spec_serving A)\<rparr>)"
| hang_up: "spec_serving A = Suc n \<Longrightarrow>
    spec_step exact A Hang_up (A\<lparr>spec_serving := n, spec_ending := Suc (spec_ending A)\<rparr>)"
| finish: "spec_ending A = Suc n \<Longrightarrow> spec_step exact A Finish (A\<lparr>spec_ending := n\<rparr>)"

inductive_cases spec_step_cases: "spec_step exact A a B"

abbreviation spec_run :: "bool \<Rightarrow> 'a lb_spec \<Rightarrow> 'a lb_action list \<Rightarrow> 'a lb_spec \<Rightarrow> bool" where
  "spec_run exact \<equiv> run_of (spec_step exact)"

subsection \<open>What it promises\<close>

lemma spec_healthy:
  assumes "spec_run exact A os B" and "x \<in> spec_pool A" and "\<And>b. Refuse b \<in> set os \<Longrightarrow> \<not> backend_eq x b"
  shows "x \<in> spec_pool B"
  using assms
proof (induction rule: run_of.induct)
  case (act os B a C)
  from act have "x \<in> spec_pool B" by auto
  with act.hyps(2) act.prems(2) show ?case by cases auto
qed

lemma spec_pool_shrinks: "spec_run exact A os B \<Longrightarrow> spec_pool B \<subseteq> spec_pool A"
  by (induction rule: run_of.induct) (auto elim!: spec_step_cases)

definition spec_clients :: "'a lb_spec \<Rightarrow> nat" where
  "spec_clients A = spec_waiting A + size (spec_trying A) + spec_serving A + spec_ending A"

primrec departs :: "'a lb_action \<Rightarrow> bool" where
  "departs Arrive = False"
| "departs Leave = True"
| "departs (Choose b) = False"
| "departs (Refuse b) = False"
| "departs (Fail b) = True"
| "departs (Connect b) = False"
| "departs Hang_up = False"
| "departs Finish = True"

lemma spec_conserves:
  "spec_run exact A os B \<Longrightarrow> spec_clients A + tally (\<lambda>a. a = Arrive) os = spec_clients B + tally departs os"
proof (induction rule: run_of.induct)
  case (act os B a C)
  from act.hyps(2) act.IH show ?case by cases (auto simp: spec_clients_def)
qed simp

text \<open>When no two entries of the pool are equal, a backend that refused is never chosen again.\<close>

lemma spec_gone:
  assumes "spec_run True A os B" and "Refuse b \<in> set os" and "x \<in> spec_pool B"
  shows "\<not> backend_eq x b"
  using assms
proof (induction arbitrary: x rule: run_of.induct)
  case (act os B a C)
  show ?case
  proof (cases "a = Refuse b")
    case True
    with act.hyps(2) act.prems(2) show ?thesis by cases auto
  next
    case False
    with act.prems(1) have old: "Refuse b \<in> set os" by simp
    from spec_pool_shrinks [OF run_of_one [where step = "spec_step True", OF act.hyps(2)]] act.prems(2) have "x \<in> spec_pool B" by blast
    from act.IH [OF old this] show ?thesis .
  qed
qed simp

lemma spec_not_again:
  assumes "spec_run True A os B" and "i < j" and "j < length os" and "os ! i = Refuse b" and "os ! j = Choose x"
  shows "\<not> backend_eq x b"
  using assms
proof (induction rule: run_of.induct)
  case (act os B a C)
  show ?case
  proof (cases "j = length os")
    case True
    with act.prems have "Refuse b \<in> set os" "a = Choose x" by (auto simp: nth_append dest: nth_mem)
    with act.hyps(2) have "x \<in> spec_pool B" by (auto elim: spec_step_cases)
    from spec_gone [OF act.hyps(1) \<open>Refuse b \<in> set os\<close> this] show ?thesis .
  next
    case False
    with act.prems act.IH show ?thesis by (simp add: nth_append)
  qed
qed simp

text \<open>Every connection is with a backend that was chosen for it, and chosen from the pool.\<close>

lemma spec_chosen:
  assumes "spec_run exact A os B" and "spec_trying A = {#}"
  shows "tally (\<lambda>a. a = Choose b) os = count (spec_trying B) b +
    tally (\<lambda>a. a = Connect b) os + tally (\<lambda>a. a = Refuse b) os + tally (\<lambda>a. a = Fail b) os"
  using assms
proof (induction rule: run_of.induct)
  case (act os B a C)
  from act.hyps(2) act.IH [OF act.prems] show ?case by cases auto
qed simp

subsection \<open>The implementation\<close>

definition abs_lb :: "('a, 'h, 'k, 'l, 'm) libs \<Rightarrow> ('a, 'h, 'k, 'l, 'm) system \<Rightarrow> 'a lb_spec" where
  "abs_lb L S = \<lparr>spec_pool = sel_pool L (w_selector (sys_world S)), spec_waiting = sys_selecting S,
     spec_trying = mset (map attempt_backend (sys_attempts S)), spec_serving = length (sys_sessions S),
     spec_ending = length (sys_closing S)\<rparr>"

primrec resolving :: "'a attempt \<Rightarrow> bool" where
  "resolving (ConnectingIp ep b) = False"
| "resolving (Resolving host port b) = True"
| "resolving (ConnectingUrl b) = False"

primrec excludable :: "'a attempt \<Rightarrow> bool" where
  "excludable (ConnectingIp ep b) = True"
| "excludable (Resolving host port b) = True"
| "excludable (ConnectingUrl b) = False"

text \<open>What is observed of a step; a refusal is one of which the connector is told.\<close>

fun observed :: "('a, 'h, 'k, 'l, 'm) libs \<Rightarrow> ('a, 'h, 'k, 'l, 'm) system \<Rightarrow> 'a sys_event \<Rightarrow> 'a lb_action list" where
  "observed L S (AcceptDone ec local) = (if ec = Success \<and> local = Inr () then [Arrive] else [])"
| "observed L S (SelectNow peer) =
     (case fst (seek_backend L peer (sys_world S)) of
        Inr (Trying a) \<Rightarrow> [Choose (attempt_backend a)]
      | _ \<Rightarrow> [Leave])"
| "observed L S (AttemptDone i ec) =
     (let a = sys_attempts S ! i in
      if ec = Success then if resolving a then [] else [Connect (attempt_backend a)]
      else if ec = ConnectionRefused \<and> excludable a then [Refuse (attempt_backend a)]
      else [Fail (attempt_backend a)])"
| "observed L S (SessionDone i out c) = (if completion_ec c = Success then [] else [Hang_up])"
| "observed L S (DestroySession j out) = [Finish]"
| "observed L S (Tick t) = []"
| "observed L S Stop = []"

definition running :: "('a, 'h, 'k, 'l, 'm) libs \<Rightarrow> ('a, 'h, 'k, 'l, 'm) views \<Rightarrow> bool \<Rightarrow> 'a backend set \<Rightarrow>
     ('a, 'h, 'k, 'l, 'm) system \<Rightarrow> bool" where
  "running L V exact P S \<longleftrightarrow> steady L V P S \<and> (exact \<longrightarrow> sel_single (w_selector (sys_world S)))"

definition going :: "('a, 'h, 'k, 'l, 'm) system \<Rightarrow> bool" where
  "going S \<longleftrightarrow> all_excluded \<notin> set (sys_thrown S)"

text \<open>
  A step of the balancer in its contract: the network fails well, and least connections and least
  response time call their heap as documented.
\<close>

definition lb_step ::
    "reuse \<Rightarrow> ('a, 'h, 'k, 'l, 'm) libs \<Rightarrow> ('a, 'h, 'k, 'l, 'm) system \<Rightarrow> 'a sys_event \<Rightarrow>
     ('a, 'h, 'k, 'l, 'm) system \<Rightarrow> bool" where
  "lb_step R L S ev T \<longleftrightarrow> sys_step R L S ev T \<and> in_contract R L S ev"

lemma going_before: "sys_step R L S ev T \<Longrightarrow> going T \<Longrightarrow> going S"
  using thrown_step [of R L S ev T] by (auto simp: going_def)

lemma running_step:
  assumes "running L V exact P S" and "lb_step R L S ev T" and "going T"
  shows "running L V exact P T"
  using continues_step [of R L S ev T V P] assms by (auto simp: running_def lb_step_def continues_def steady_after_def going_def)

lemma mset_attempt:
  "i < length as \<Longrightarrow> mset (map attempt_backend as) =
    add_mset (attempt_backend (as ! i)) (mset (map attempt_backend (erase_at i as)))"
proof -
  assume "i < length as"
  then have "mset (map attempt_backend as) = mset (map attempt_backend (take i as @ as ! i # drop (Suc i) as))"
    by (simp only: id_take_nth_drop [symmetric])
  then show ?thesis by (simp add: erase_at_def)
qed

lemma handler_pending:
  assumes "run_handler R call out c x = (r, y)"
  shows "pending (fst y) = None \<longleftrightarrow> completion_ec c \<noteq> Success"
proof (cases "completion_ec c = Success")
  case True
  with run_handler_success [OF True, of R call out x] assms show ?thesis by auto
next
  case False
  obtain s w where x: "x = (s, w)" by fastforce
  have "pending (fst (snd (run_handler R call out c x))) = None"
    unfolding x run_handler_error [OF False] Cancel_pending log_effects by simp
  with assms False show ?thesis by simp
qed

lemma attempt_simulates:
  assumes "running L V exact P S" and "i < length (sys_attempts S)" and "going (on_attempt L i ec S)"
  shows "spec_run exact (abs_lb L S) (observed L S (AttemptDone i ec)) (abs_lb L (on_attempt L i ec S))"
proof -
  let ?a = "sys_attempts S ! i" and ?w = "sys_world S" and ?b = "attempt_backend (sys_attempts S ! i)"
  let ?x = "attempt_done L ec ?a ?w" and ?M = "mset (map attempt_backend (erase_at i (sys_attempts S)))"
  from assms(1,2) have S: "sel_inv L V (w_selector ?w)" "sel_pool L (w_selector ?w) \<noteq> {}"
    "sel_known L (w_selector ?w) ?b"
    by (auto simp: running_def steady_def)
  have M: "spec_trying (abs_lb L S) = add_mset ?b ?M" using mset_attempt [OF assms(2)] by (simp add: abs_lb_def)
  consider (resolved) "ec = Success" "resolving ?a" | (connected) "ec = Success" "\<not> resolving ?a"
    | (refused) "ec = ConnectionRefused" "excludable ?a" | (failed) "ec \<noteq> Success" "\<not> (ec = ConnectionRefused \<and> excludable ?a)"
    by blast
  then show ?thesis
  proof cases
    case resolved
    then have "?x = (Inr (Trying (ConnectingUrl ?b)), ?w)" by (cases ?a) (simp_all add: attempt_done_def HandleResolve_def)
    then have "abs_lb L (on_attempt L i ec S) = abs_lb L S"
      using M by (simp add: abs_lb_def on_attempt_def Let_def settle_simps)
    with resolved show ?thesis by (simp add: Let_def run_of.stay)
  next
    case connected
    then have x: "?x = run_session L ?b ?w"
      by (cases ?a) (simp_all add: attempt_done_def HandleIpConnect_def HandleUrlConnect_def)
    obtain s where s: "fst (run_session L ?b ?w) = Inr (Running s)" using run_session_Running by blast
    have "sel_pool L (w_selector (snd (run_session L ?b ?w))) = sel_pool L (w_selector ?w)"
      using kept_run_session [OF S(1)] by (simp add: kept_def)
    with s have "abs_lb L (on_attempt L i ec S) = (abs_lb L S)\<lparr>spec_trying := ?M, spec_serving := Suc (spec_serving (abs_lb L S))\<rparr>"
      by (simp add: abs_lb_def on_attempt_def Let_def settle_simps x)
    with spec_step.connect [OF M] connected show ?thesis by (simp add: Let_def run_of_one)
  next
    case refused
    then have x: "?x = exclude_and_retry L ?b ?w"
      by (cases ?a) (simp_all add: attempt_done_def HandleIpConnect_def HandleResolve_def)
    from S(1,2,3) show ?thesis
    proof (cases rule: sel.exclude_known_cases)
      case (last t)
      with assms(3) show ?thesis
        by (simp add: going_def on_attempt_def Let_def settle_simps x exclude_and_retry_def)
    next
      case (more t)
      have gone: "\<not> backend_eq x ?b" if "exact" "x \<in> sel_pool L t" for x
        using sel.known_gone [OF S(1,2,3), of x] assms(1) that more(1) by (simp add: running_def)
      from more have "abs_lb L (on_attempt L i ec S) =
          (abs_lb L S)\<lparr>spec_pool := sel_pool L t, spec_waiting := Suc (spec_waiting (abs_lb L S)), spec_trying := ?M\<rparr>"
        by (simp add: abs_lb_def on_attempt_def Let_def settle_simps x exclude_and_retry_def)
      moreover have "spec_step exact (abs_lb L S) (Refuse ?b)
          ((abs_lb L S)\<lparr>spec_pool := sel_pool L t, spec_waiting := Suc (spec_waiting (abs_lb L S)), spec_trying := ?M\<rparr>)"
        using more gone by (intro spec_step.refuse M) (simp_all add: abs_lb_def)
      ultimately show ?thesis using refused by (simp add: Let_def run_of_one)
    qed
  next
    case failed
    then have "?x = (Inr Dropped, ?w)"
      by (cases ?a) (auto simp: attempt_done_def HandleIpConnect_def HandleResolve_def HandleUrlConnect_def)
    then have "abs_lb L (on_attempt L i ec S) = (abs_lb L S)\<lparr>spec_trying := ?M\<rparr>"
      by (simp add: abs_lb_def on_attempt_def Let_def settle_simps)
    with spec_step.fail [OF M] failed show ?thesis by (auto simp: Let_def intro: run_of_one)
  qed
qed

lemma select_simulates:
  assumes "running L V exact P S" and "sys_selecting S > 0"
  shows "spec_run exact (abs_lb L S) (observed L S (SelectNow peer)) (abs_lb L (on_select L peer S))"
proof -
  let ?w = "sys_world S"
  from assms(1) have S: "sel_inv L V (w_selector ?w)" "sel_pool L (w_selector ?w) \<noteq> {}"
    by (auto simp: running_def steady_def)
  from assms(2) obtain n where n: "sys_selecting S = Suc n" by (cases "sys_selecting S") auto
  then have wait: "spec_waiting (abs_lb L S) = Suc n" by (simp add: abs_lb_def)
  show ?thesis
  proof (cases peer)
    case (Inl e)
    then have "abs_lb L (on_select L peer S) = (abs_lb L S)\<lparr>spec_waiting := n\<rparr>"
      by (simp add: abs_lb_def on_select_def settle_simps seek_backend_def MakeAndRunSession_def n)
    with spec_step.leave [OF wait] Inl show ?thesis
      by (simp add: seek_backend_def MakeAndRunSession_def run_of_one)
  next
    case (Inr client)
    obtain b t where b: "SelectBackend L (w_selector ?w) client = (Inr b, t)" "b \<in> sel_pool L (w_selector ?w)"
      "sel_pool L t = sel_pool L (w_selector ?w)"
      using sel.select_cases [OF S] by metis
    obtain a where a: "seek_backend L peer ?w = (Inr (Trying a), ?w\<lparr>w_selector := t\<rparr>)" "attempt_backend a = b"
      using b(1) Inr by (cases b) (simp_all add: seek_backend_def MakeAndRunSession_def)
    have "abs_lb L (on_select L peer S) = (abs_lb L S)\<lparr>spec_waiting := n, spec_trying := add_mset b (spec_trying (abs_lb L S))\<rparr>"
      using a b(3) by (simp add: abs_lb_def on_select_def settle_simps n)
    moreover have "b \<in> spec_pool (abs_lb L S)" using b(2) by (simp add: abs_lb_def)
    ultimately show ?thesis using spec_step.choose [OF wait] a by (simp add: run_of_one)
  qed
qed

lemma session_simulates:
  assumes "running L V exact P S" and "i < length (sys_sessions S)" and "heap_calls_documented R L S (SessionDone i out c)"
  shows "spec_run exact (abs_lb L S) (observed L S (SessionDone i out c)) (abs_lb L (on_session R L i out c S))"
proof -
  let ?s = "sys_sessions S ! i" and ?w = "sys_world S"
  from assms(1) have S: "sel_inv L V (w_selector ?w)" by (auto simp: running_def steady_def)
  obtain r x w where h: "run_handler R (visitor_call L) out c (?s, ?w) = (r, x, w)" by (metis prod.collapse)
  from kept_session [OF h S assms(3)] have pool: "sel_pool L (w_selector w) = sel_pool L (w_selector ?w)" by (simp add: kept_def)
  from handler_pending [OF h] have gone: "pending x = None \<longleftrightarrow> completion_ec c \<noteq> Success" by simp
  have T: "sys_world (on_session R L i out c S) = w" "sys_attempts (on_session R L i out c S) = sys_attempts S"
    "sys_selecting (on_session R L i out c S) = sys_selecting S"
    "length (sys_sessions (on_session R L i out c S)) = (if pending x = None then length (sys_sessions S) - 1 else length (sys_sessions S))"
    "length (sys_closing (on_session R L i out c S)) = (if pending x = None then Suc (length (sys_closing S)) else length (sys_closing S))"
    using assms(2) by (auto simp: on_session_def h Let_def split: sum.splits)
  show ?thesis
  proof (cases "completion_ec c = Success")
    case True
    with T pool gone have "abs_lb L (on_session R L i out c S) = abs_lb L S" by (simp add: abs_lb_def)
    with True show ?thesis by (simp add: run_of.stay)
  next
    case False
    from assms(2) have n: "spec_serving (abs_lb L S) = Suc (length (sys_sessions S) - 1)" by (simp add: abs_lb_def)
    from False T pool gone have "abs_lb L (on_session R L i out c S) =
        (abs_lb L S)\<lparr>spec_serving := length (sys_sessions S) - 1, spec_ending := Suc (spec_ending (abs_lb L S))\<rparr>"
      by (simp add: abs_lb_def)
    with spec_step.hang_up [OF n] False show ?thesis by (simp add: run_of_one)
  qed
qed

lemma destroy_simulates:
  assumes "running L V exact P S" and "j < length (sys_closing S)" and "heap_calls_documented R L S (DestroySession j out)"
  shows "spec_run exact (abs_lb L S) (observed L S (DestroySession j out)) (abs_lb L (on_destroy L j out S))"
proof -
  from assms(1) have S: "sel_inv L V (w_selector (sys_world S))" by (auto simp: running_def steady_def)
  obtain f x w where h: "HttpSession_dtor (visitor_call L) out (sys_closing S ! j, sys_world S) = (f, x, w)" by (metis prod.collapse)
  from kept_destroy [OF h S assms(3)] assms(2) have
    "abs_lb L (on_destroy L j out S) = (abs_lb L S)\<lparr>spec_ending := length (sys_closing S) - 1\<rparr>"
    by (simp add: abs_lb_def on_destroy_def h kept_def)
  moreover from assms(2) have "spec_ending (abs_lb L S) = Suc (length (sys_closing S) - 1)" by (simp add: abs_lb_def)
  note spec_step.finish [OF this]
  ultimately show ?thesis by (simp add: run_of_one)
qed

lemma accept_simulates:
  fixes L :: "('a, 'h, 'k, 'l, 'm) libs"
  shows "spec_run exact (abs_lb L S) (observed L S (AcceptDone ec local)) (abs_lb L (on_accept ec local S))"
proof -
  obtain r :: "'a reaction result" and a where h: "HandleAccept ec local ((sys_acceptor S)\<lparr>acc_waiting := False\<rparr>) = (r, a)"
    by fastforce
  show ?thesis
  proof (cases "ec = Success \<and> local = Inr ()")
    case True
    with h have "abs_lb L (on_accept ec local S) = (abs_lb L S)\<lparr>spec_waiting := Suc (spec_waiting (abs_lb L S))\<rparr>"
      by (auto simp: abs_lb_def on_accept_def HandleAccept_def settle_simps)
    with True spec_step.arrive [of exact "abs_lb L S"] show ?thesis by (simp add: run_of_one)
  next
    case False
    with h have "abs_lb L (on_accept ec local S) = abs_lb L S"
      by (auto simp: abs_lb_def on_accept_def HandleAccept_def settle_simps Let_def split: if_splits sum.splits)
    with False show ?thesis by (auto simp: run_of.stay)
  qed
qed

lemma step_simulates:
  assumes "running L V exact P S" and "sys_step R L S ev T" and "going T" and "heap_calls_documented R L S ev"
  shows "spec_run exact (abs_lb L S) (observed L S ev) (abs_lb L T)"
  using assms(2)
proof cases
  case (accept ec local)
  then show ?thesis by (simp only: accept_simulates)
next
  case (attempt i ec)
  with attempt_simulates [OF assms(1)] assms(3) show ?thesis by simp
next
  case (select peer)
  with select_simulates [OF assms(1)] show ?thesis by simp
next
  case (session i c out)
  with session_simulates [OF assms(1)] assms(4) show ?thesis by simp
next
  case (destroy j out)
  with destroy_simulates [OF assms(1)] assms(4) show ?thesis by simp
next
  case (tick t)
  then have "abs_lb L T = abs_lb L S" by (simp add: abs_lb_def on_tick_def)
  then show ?thesis by (simp add: tick(1) run_of.stay)
next
  case stop
  then have "abs_lb L T = abs_lb L S" by (simp add: abs_lb_def)
  then show ?thesis by (simp add: stop(1) run_of.stay)
qed

interpretation lb: refinement_map "lb_step R L" "spec_step exact" "abs_lb L" "observed L" "running L V exact P" going
proof
  fix S T ev
  assume st: "lb_step R L S ev T" and ok: "going T"
  show "going S" using going_before st ok unfolding lb_step_def by blast
  { assume "running L V exact P S"
    then show "running L V exact P T" using running_step st ok by blast
    show "spec_run exact (abs_lb L S) (observed L S ev) (abs_lb L T)"
      using step_simulates \<open>running L V exact P S\<close> st ok unfolding lb_step_def in_contract_iff by blast }
qed

lemma running_start:
  assumes "DetectSelector L Y node = Inr s" and "libs_ok L V"
    and "y_get Y node ''load_balancing'' = Inr balancing_node" and "clash_free (lib_env L) Y balancing_node"
    and "sel_pool L s \<noteq> {}"
  shows "running L V (sel_single s) (sel_pool L s) (balancer_start a s)"
  using well_start [OF configured_inv [OF assms(1-4)] assms(5)]
  by (simp add: running_def well_def balancer_start_def)

lemma going_start: "going (balancer_start a s)"
  by (simp add: going_def balancer_start_def)

lemma lb_reach: "traced (lb_step R L) (observed L) S os T \<Longrightarrow> sys_reach R L (in_contract R L) S T"
  by (induction rule: traced.induct) (auto simp: lb_step_def intro: sys_reach.intros)

subsection \<open>What the specification gives of the balancer\<close>

text \<open>C2. The balancer is a load balancer. Whichever algorithm is configured and however the handlers of
  the threads interleave, as long as no handler has found that all backends are excluded the run is
  one of the specification, action by action: a client that arrives waits; a backend of the pool is
  chosen for it, or it leaves; the attempt ends in a connection, in a failure that drops the client,
  or in a refusal, after which the client waits again and the refusing backends, but never all, are
  out of the pool, except that a weighted selector with equal entries may keep some of them; a
  connection hangs up once, and is then destroyed once. With least connections and least response
  time this holds of the runs, or the beginnings of runs, whose steps call the heap as documented;
  the other four algorithms have no heap, and all their runs are covered.\<close>

theorem balancer_refines_spec:
  assumes "DetectSelector L Y node = Inr s" and "libs_ok L V"
    and "y_get Y node ''load_balancing'' = Inr balancing_node" and "clash_free (lib_env L) Y balancing_node"
    and "sel_pool L s \<noteq> {}" and "traced (lb_step R L) (observed L) (balancer_start a s) os S"
    and "all_excluded \<notin> set (sys_thrown S)"
  shows "spec_run (sel_single s) (abs_lb L (balancer_start a s)) os (abs_lb L S)"
  using lb.traces_refine [OF assms(6) running_start [OF assms(1-5)]] assms(7) by (simp add: going_def)

text \<open>One client is accepted by a balancer with two backends; the one chosen refuses, and the other is chosen.\<close>

abbreviation sample_refusal :: "sample_addr lb_action list" where
  "sample_refusal \<equiv> [Arrive, Choose (sample_bs ! 1), Refuse (sample_bs ! 1), Choose (sample_bs ! 0)]"

lemma sample_config_rr:
  "DetectSelector sample_libs sample_yaml (sample_config ''round_robin'') = Inr (RoundRobinS \<lparr>rr_counter = 0, rr_backends = sample_bs\<rparr>)"
  "sel_pool sample_libs (RoundRobinS \<lparr>rr_counter = 0, rr_backends = sample_bs\<rparr>) = set sample_bs" "set sample_bs \<noteq> {}"
proof -
  show "DetectSelector sample_libs sample_yaml (sample_config ''round_robin'') = Inr (RoundRobinS \<lparr>rr_counter = 0, rr_backends = sample_bs\<rparr>)"
    by (rule sample_detect_rr) (simp_all add: sample_config_def sample_balancing_def sample_yaml_simps)
qed (simp_all add: sel_pool_def sample_bs_def)

lemma sample_refusal_traced:
  "\<exists>T. traced (lb_step appending sample_libs) (observed sample_libs) sample_rr2_start sample_refusal T \<and> sys_thrown T = []"
proof -
  let ?S = sample_rr2_start and ?T = "on_accept Success (Inr ()) sample_rr2_start" and ?c = "sample_ep ''::1'' 1"
  have S: "begins ?S" "acc_waiting (sys_acceptor ?S)" "sys_attempts ?S = []" "sys_thrown ?S = []"
    "w_selector (sys_world ?S) = RoundRobinS \<lparr>rr_counter = 0, rr_backends = sample_bs\<rparr>"
    by (simp_all add: sample_rr2_start_def balancer_start_def begins_def Acceptor_Run_def DoAccept_def)
  have "begins (sample_accepted ?S)" using sample_accepted_rr [OF S(5) _ S(1)] by auto
  with sample_failover [OF S(5,1,3)] S(4) obtain ep ep' where
    U: "sys_attempts (sample_accepted ?S) = [ConnectingIp ep (sample_bs ! 1)]" "begins (sample_accepted ?S)"
    "sys_selecting (sample_refused ?S) > 0" "begins (sample_refused ?S)" "sys_thrown (sample_retried ?S) = []"
    "fst (seek_backend sample_libs (Inr ?c) (sys_world (sample_refused ?S))) = Inr (Trying (ConnectingIp ep' (sample_bs ! 0)))"
    by (metis zero_less_Suc)
  have "sys_step appending sample_libs ?S (AcceptDone Success (Inr ())) ?T"
    "sys_step appending sample_libs ?T (SelectNow (Inr ?c)) (sample_accepted ?S)"
    using sample_accepted_steps [OF S(1,2)] by (auto simp: sys_step_accept)
  moreover have "sys_step appending sample_libs (sample_accepted ?S) (AttemptDone 0 ConnectionRefused) (sample_refused ?S)"
    "sys_step appending sample_libs (sample_refused ?S) (SelectNow (Inr ?c)) (sample_retried ?S)"
    using U by (simp_all add: sys_step_attempt sys_step_select sample_refused_def sample_retried_def begins_def)
  ultimately have lb: "lb_step appending sample_libs ?S (AcceptDone Success (Inr ())) ?T"
    "lb_step appending sample_libs ?T (SelectNow (Inr ?c)) (sample_accepted ?S)"
    "lb_step appending sample_libs (sample_accepted ?S) (AttemptDone 0 ConnectionRefused) (sample_refused ?S)"
    "lb_step appending sample_libs (sample_refused ?S) (SelectNow (Inr ?c)) (sample_retried ?S)"
    by (simp_all add: lb_step_def)
  have "fst (seek_backend sample_libs (Inr ?c) (sys_world ?T)) = Inr (Trying (ConnectingIp (sample_ep ''127.0.0.1'' 8081) (sample_bs ! 1)))"
    using S(5) by (simp add: on_accept_def HandleAccept_def seek_backend_def MakeAndRunSession_def SelectBackend_def rr_SelectBackend_def
        sample_bs_def sample_ep_def)
  with U(1,6) have watch: "observed sample_libs ?S (AcceptDone Success (Inr ())) = [Arrive]"
    "observed sample_libs ?T (SelectNow (Inr ?c)) = [Choose (sample_bs ! 1)]"
    "observed sample_libs (sample_accepted ?S) (AttemptDone 0 ConnectionRefused) = [Refuse (sample_bs ! 1)]"
    "observed sample_libs (sample_refused ?S) (SelectNow (Inr ?c)) = [Choose (sample_bs ! 0)]" by simp_all
  note after = traced_after [where step = "lb_step appending sample_libs" and watch = "observed sample_libs"]
    and first = traced_first [where step = "lb_step appending sample_libs" and watch = "observed sample_libs"]
  from after [OF after [OF after [OF first [OF lb(1) watch(1)] lb(2) watch(2)] lb(3) watch(3)] lb(4) watch(4)]
  have "traced (lb_step appending sample_libs) (observed sample_libs) ?S sample_refusal (sample_retried ?S)" by simp
  with U(5) show ?thesis by blast
qed

theorem balancer_refines_spec_witness:
  "\<exists>S. spec_run True (abs_lb sample_libs sample_rr2_start) sample_refusal (abs_lb sample_libs S)"
proof -
  from sample_refusal_traced obtain T where "traced (lb_step appending sample_libs) (observed sample_libs)
      (balancer_start sample_acceptor (RoundRobinS \<lparr>rr_counter = 0, rr_backends = sample_bs\<rparr>)) sample_refusal T" "sys_thrown T = []"
    unfolding sample_rr2_start_def by blast
  from balancer_refines_spec [OF sample_config_rr(1) sample_libs_ok sample_balancing_fields(1) sample_libs_clash_free _ this(1)]
    this(2) sample_config_rr show ?thesis by (auto simp: sample_rr2_start_def sel_single_def)
qed

text \<open>C5. A backend that answers is never lost. Whatever the other backends, the clients and the threads
  do, a configured backend that is not equal to one that refused is still in the pool, and thus can
  be chosen, as long as no handler has found that all backends are excluded and the heap, where the
  algorithm has one, has been called as documented.\<close>

theorem healthy_backends_stay:
  assumes "DetectSelector L Y node = Inr s" and "libs_ok L V"
    and "y_get Y node ''load_balancing'' = Inr balancing_node" and "clash_free (lib_env L) Y balancing_node"
    and "sel_pool L s \<noteq> {}" and "traced (lb_step R L) (observed L) (balancer_start a s) os S"
    and "all_excluded \<notin> set (sys_thrown S)"
    and "x \<in> sel_pool L s" and "\<And>b. Refuse b \<in> set os \<Longrightarrow> \<not> backend_eq x b"
  shows "x \<in> sel_pool L (w_selector (sys_world S))"
proof -
  have "x \<in> spec_pool (abs_lb L S)"
  proof (rule lb.transfers [where Q = "\<lambda>os B. x \<in> spec_pool B", OF assms(6) running_start [OF assms(1-5)]])
    show "going S" using assms(7) by (simp add: going_def)
    show "x \<in> spec_pool B" if "spec_run (sel_single s) (abs_lb L (balancer_start a s)) os B" for B
      using spec_healthy [OF that _ assms(9)] assms(8) by (simp add: abs_lb_def balancer_start_def)
  qed
  then show ?thesis by (simp add: abs_lb_def)
qed

theorem healthy_backends_stay_witness:
  "\<exists>S. traced (lb_step appending sample_libs) (observed sample_libs) sample_rr2_start sample_refusal S \<and>
    sample_bs ! 0 \<in> sel_pool sample_libs (w_selector (sys_world S))"
proof -
  from sample_refusal_traced obtain T where T: "traced (lb_step appending sample_libs) (observed sample_libs)
      (balancer_start sample_acceptor (RoundRobinS \<lparr>rr_counter = 0, rr_backends = sample_bs\<rparr>)) sample_refusal T"
    "all_excluded \<notin> set (sys_thrown T)"
    unfolding sample_rr2_start_def by auto
  have pool: "sel_pool sample_libs (RoundRobinS \<lparr>rr_counter = 0, rr_backends = sample_bs\<rparr>) \<noteq> {}"
    and x: "sample_bs ! 0 \<in> sel_pool sample_libs (RoundRobinS \<lparr>rr_counter = 0, rr_backends = sample_bs\<rparr>)"
    unfolding sample_config_rr(2) by (simp_all add: sample_bs_def)
  have "\<not> backend_eq (sample_bs ! 0) b" if "Refuse b \<in> set sample_refusal" for b
    using that by (auto simp: sample_bs_def sample_ep_def)
  from healthy_backends_stay [OF sample_config_rr(1) sample_libs_ok sample_balancing_fields(1)
      sample_libs_clash_free pool T x this] T(1)
  show ?thesis unfolding sample_rr2_start_def by blast
qed

text \<open>C6. A backend that refused is not tried again. Whichever algorithm is configured, and whatever the
  handlers of the other threads have in hand, once the connector has been refused by a backend no
  client is given a backend equal to it; only with the weighted algorithm, which removes one entry
  at a time, the entries have to be different for that, and with the two algorithms on a heap its
  calls have to be as documented.\<close>

theorem refused_never_chosen:
  assumes "DetectSelector L Y node = Inr s" and "libs_ok L V"
    and "y_get Y node ''load_balancing'' = Inr balancing_node" and "clash_free (lib_env L) Y balancing_node"
    and "sel_pool L s \<noteq> {}" and "traced (lb_step R L) (observed L) (balancer_start a s) os S"
    and "all_excluded \<notin> set (sys_thrown S)" and "\<And>t. s = WeightedRoundRobinS t \<Longrightarrow> wrr_distinct t"
    and "i < j" and "j < length os" and "os ! i = Refuse b" and "os ! j = Choose x"
  shows "\<not> backend_eq x b"
proof -
  have "sel_single s" using assms(8) by (cases s) (simp_all add: sel_single_def)
  with lb.traces_refine [OF assms(6) running_start [OF assms(1-5)]] assms(7)
  have "spec_run True (abs_lb L (balancer_start a s)) os (abs_lb L S)" by (simp add: going_def)
  from spec_not_again [OF this assms(9-12)] show ?thesis .
qed

theorem refused_never_chosen_witness:
  "\<exists>S. traced (lb_step appending sample_libs) (observed sample_libs) sample_rr2_start sample_refusal S \<and>
    \<not> backend_eq (sample_bs ! 0) (sample_bs ! 1)"
proof -
  from sample_refusal_traced obtain T where T: "traced (lb_step appending sample_libs) (observed sample_libs)
      (balancer_start sample_acceptor (RoundRobinS \<lparr>rr_counter = 0, rr_backends = sample_bs\<rparr>)) sample_refusal T"
    "all_excluded \<notin> set (sys_thrown T)"
    unfolding sample_rr2_start_def by auto
  have pool: "sel_pool sample_libs (RoundRobinS \<lparr>rr_counter = 0, rr_backends = sample_bs\<rparr>) \<noteq> {}"
    unfolding sample_config_rr(2) by (simp add: sample_bs_def)
  have "\<not> backend_eq (sample_bs ! 0) (sample_bs ! 1)"
    by (rule refused_never_chosen [OF sample_config_rr(1) sample_libs_ok sample_balancing_fields(1)
        sample_libs_clash_free pool T, of 2 3]) simp_all
  with T(1) show ?thesis unfolding sample_rr2_start_def by blast
qed

text \<open>C7. No client is lost and none served twice. At every moment the clients accepted so far are those
  that wait for a backend, those with an attempt in flight, the running sessions, the sessions being
  closed, and those that have left; and each time a backend was chosen is an attempt in flight, or
  ended in exactly one connection, refusal or failure of that backend; until all backends are
  excluded, and for the two algorithms on a heap as long as its calls are as documented.\<close>

theorem clients_accounted:
  assumes "DetectSelector L Y node = Inr s" and "libs_ok L V"
    and "y_get Y node ''load_balancing'' = Inr balancing_node" and "clash_free (lib_env L) Y balancing_node"
    and "sel_pool L s \<noteq> {}" and "traced (lb_step R L) (observed L) (balancer_start a s) os S"
    and "all_excluded \<notin> set (sys_thrown S)"
  shows "tally (\<lambda>x. x = Arrive) os = sys_selecting S + length (sys_attempts S) + length (sys_sessions S) +
      length (sys_closing S) + tally departs os \<and>
    tally (\<lambda>x. x = Choose b) os = tally (\<lambda>x. attempt_backend x = b) (sys_attempts S) +
      tally (\<lambda>x. x = Connect b) os + tally (\<lambda>x. x = Refuse b) os + tally (\<lambda>x. x = Fail b) os"
proof -
  have run: "spec_run (sel_single s) (abs_lb L (balancer_start a s)) os (abs_lb L S)"
    using lb.traces_refine [OF assms(6) running_start [OF assms(1-5)]] assms(7) by (simp add: going_def)
  have "count (mset (map f xs)) y = tally (\<lambda>x. f x = y) xs" for f :: "'x \<Rightarrow> 'y" and xs y
    by (induction xs) auto
  with spec_conserves [OF run] spec_chosen [OF run, of b] show ?thesis
    by (simp add: abs_lb_def balancer_start_def spec_clients_def)
qed

theorem clients_accounted_witness:
  "\<exists>S. sys_selecting S + length (sys_attempts S) + length (sys_sessions S) + length (sys_closing S) = 1 \<and>
    traced (lb_step appending sample_libs) (observed sample_libs) sample_rr2_start sample_refusal S"
proof -
  from sample_refusal_traced obtain T where T: "traced (lb_step appending sample_libs) (observed sample_libs)
      (balancer_start sample_acceptor (RoundRobinS \<lparr>rr_counter = 0, rr_backends = sample_bs\<rparr>)) sample_refusal T"
    "all_excluded \<notin> set (sys_thrown T)"
    unfolding sample_rr2_start_def by auto
  have pool: "sel_pool sample_libs (RoundRobinS \<lparr>rr_counter = 0, rr_backends = sample_bs\<rparr>) \<noteq> {}"
    unfolding sample_config_rr(2) by (simp add: sample_bs_def)
  from clients_accounted [OF sample_config_rr(1) sample_libs_ok sample_balancing_fields(1)
      sample_libs_clash_free pool T] T(1)
  show ?thesis unfolding sample_rr2_start_def by auto
qed

end
