(* ===== verification/Connection_Accounting.thy ===== *)
theory Connection_Accounting
  imports Balancer
begin

section \<open>What the connection counters count\<close>

text \<open>
  The selector for least connections counts a connection when a backend is selected and again when
  the session starts. It discounts one each time the session announces its end, which it does
  twice; but it does so by a call of the heap outside of its contract, whenever the backend is still
  in the pool. This theory shows what the counters are in every state a running balancer reaches
  within the contract, and which step leaves it.
\<close>

subsection \<open>Counters against a demand\<close>

definition charged :: "'a env \<Rightarrow> nat \<Rightarrow> 'a backend \<Rightarrow> (string \<Rightarrow> nat) \<Rightarrow> string \<Rightarrow> nat" where
  "charged E n b d = (\<lambda>key. d key + (if key = Backend_ToString E b then n else 0))"

definition counters_are ::
    "('a, 'h, 'k, 'l, 'm) libs \<Rightarrow> ('h, 'k) LeastConnectionsSelector \<Rightarrow> (string \<Rightarrow> nat) \<Rightarrow> bool" where
  "counters_are L s d \<longleftrightarrow> (\<forall>key w. kh_abs (lib_lc L) s key = Some w \<longrightarrow> cw_counter w = d key)"

definition lc_world ::
    "('a, 'h, 'k, 'l, 'm) libs \<Rightarrow> ('a, 'h, 'k, 'l, 'm) views \<Rightarrow> ('a, 'h, 'k, 'l, 'm) world \<Rightarrow>
     (string \<Rightarrow> nat) \<Rightarrow> bool" where
  "lc_world L V w d \<longleftrightarrow> (\<exists>s. w_selector w = LeastConnectionsS s \<and> lc_ok (lib_lc L) (view_lc V) (lib_env L) s \<and>
     counters_are L s d)"

lemma charged_more: "charged E (Suc 0) b (charged E (Suc 0) b d) = charged E 2 b d"
  by (simp add: charged_def fun_eq_iff)

lemma counters_upd:
  assumes "counters_are L s d" and "kh_abs (lib_lc L) s (Backend_ToString (lib_env L) b) = Some w"
    and "kh_abs (lib_lc L) t = (kh_abs (lib_lc L) s)(Backend_ToString (lib_env L) b \<mapsto> counted w)"
  shows "counters_are L t (charged (lib_env L) 1 b d)"
  using assms by (auto simp: counters_are_def charged_def)

lemma charge_Increase:
  assumes "lc_world L V w d" and "w_selector w = LeastConnectionsS s"
  shows "lc_world L V (w\<lparr>w_selector := LeastConnectionsS (IncreaseConnectionCount (lib_lc L) (lib_env L) b s)\<rparr>)
    (charged (lib_env L) 1 b d)"
proof -
  let ?key = "Backend_ToString (lib_env L) b" and ?t = "IncreaseConnectionCount (lib_lc L) (lib_env L) b s"
  from assms have s: "lc_ok (lib_lc L) (view_lc V) (lib_env L) s" "counters_are L s d"
    by (auto simp: lc_world_def)
  note abs = lc_Increase_abs [OF s(1), of b]
  have "counters_are L ?t (charged (lib_env L) 1 b d)"
  proof (cases "kh_abs (lib_lc L) s ?key")
    case None
    with abs(2) s show ?thesis by (auto simp: counters_are_def charged_def)
  next
    case (Some v)
    with abs(2) have t: "kh_abs (lib_lc L) ?t = (kh_abs (lib_lc L) s)(?key \<mapsto> counted v)" by simp
    with counters_upd [OF s(2) Some t] show ?thesis by simp
  qed
  with abs(1) show ?thesis by (auto simp: lc_world_def)
qed

text \<open>
  The end of a connection that is called as documented changes no counter, and is that of a
  connection to a backend that has left the pool.
\<close>

lemma disconnect_unchanged:
  assumes "w_selector w = LeastConnectionsS s" and "told_documented L OnDisconnect (Some (LeastConnectionsCallbacks b)) w"
  shows "told (visitor_call L) OnDisconnect (Some (LeastConnectionsCallbacks b), w) = (Some (LeastConnectionsCallbacks b), w)"
proof -
  have "DecreaseConnectionCount (lib_lc L) (lib_env L) b s = s"
    using assms(2) unfolding told_documented_lc [OF assms(1)]
    by (intro lc_Decrease_documented) (simp add: lc_Decrease_audit)
  with assms(1) show ?thesis by (simp add: told_def visitor_call_def on_least_connections_def)
qed

lemma disconnect_gone:
  assumes "lc_world L V w (charged (lib_env L) (Suc n) b d)" and "w_selector w = LeastConnectionsS s"
    and "told_documented L OnDisconnect (Some (LeastConnectionsCallbacks b)) w"
  shows "kh_abs (lib_lc L) s (Backend_ToString (lib_env L) b) = None"
proof (rule ccontr)
  assume "kh_abs (lib_lc L) s (Backend_ToString (lib_env L) b) \<noteq> None"
  then obtain c where c: "kh_abs (lib_lc L) s (Backend_ToString (lib_env L) b) = Some c" by blast
  with assms(1,2) have "cw_counter c = d (Backend_ToString (lib_env L) b) + Suc n"
    by (auto simp: lc_world_def counters_are_def charged_def)
  moreover from assms(3) c have "cw_counter c = 0" unfolding told_documented_lc [OF assms(2)] by blast
  ultimately show False by simp
qed

lemma discharge:
  assumes "lc_world L V w (charged (lib_env L) (Suc n) b d)"
    and "told_documented L OnDisconnect (Some (LeastConnectionsCallbacks b)) w"
  shows "lc_world L V w d"
proof -
  from assms(1) obtain s where s: "w_selector w = LeastConnectionsS s" "lc_ok (lib_lc L) (view_lc V) (lib_env L) s"
    "counters_are L s (charged (lib_env L) (Suc n) b d)" by (auto simp: lc_world_def)
  with disconnect_gone [OF assms(1) s(1) assms(2)] show ?thesis
    by (auto simp: lc_world_def counters_are_def charged_def)
qed

subsection \<open>The connector\<close>

text \<open>A reaction accounts for its world: what it leaves in flight is charged, or nothing is.\<close>

definition accounts ::
    "('a, 'h, 'k, 'l, 'm) libs \<Rightarrow> ('a, 'h, 'k, 'l, 'm) views \<Rightarrow> (string \<Rightarrow> nat) \<Rightarrow>
     'a reaction result \<times> ('a, 'h, 'k, 'l, 'm) world \<Rightarrow> bool" where
  "accounts L V d x \<longleftrightarrow>
     (case fst x of
        Inl e \<Rightarrow> True
      | Inr (Trying a) \<Rightarrow> lc_world L V (snd x) (charged (lib_env L) 1 (attempt_backend a) d)
      | Inr (Running s) \<Rightarrow> \<exists>b. session_visitor s = Some (LeastConnectionsCallbacks b) \<and>
          lc_world L V (snd x) (charged (lib_env L) 2 b d)
      | Inr _ \<Rightarrow> lc_world L V (snd x) d)"

lemma accounts_simps [simp]:
  "accounts L V d (Inl e, w)"
  "accounts L V d (Inr Dropped, w) \<longleftrightarrow> lc_world L V w d"
  "accounts L V d (Inr Selecting, w) \<longleftrightarrow> lc_world L V w d"
  "accounts L V d (Inr (Trying a), w) \<longleftrightarrow> lc_world L V w (charged (lib_env L) 1 (attempt_backend a) d)"
  "accounts L V d (Inr (Running s), w) \<longleftrightarrow> (\<exists>b. session_visitor s = Some (LeastConnectionsCallbacks b) \<and>
     lc_world L V w (charged (lib_env L) 2 b d))"
  by (simp_all add: accounts_def)

lemma charge_seek:
  assumes "lc_world L V w d"
  shows "accounts L V d (seek_backend L peer w)"
proof (cases peer)
  case (Inr client)
  from assms obtain s where s: "w_selector w = LeastConnectionsS s" "lc_ok (lib_lc L) (view_lc V) (lib_env L) s"
    "counters_are L s d" by (auto simp: lc_world_def)
  show ?thesis
  proof (cases "kh_abs (lib_lc L) s = Map.empty")
    case True
    then have "h_empty (lib_lc L) (backends_heap s)" using kh_abs_empty [OF s(2)] by simp
    with s(1) Inr show ?thesis
      by (simp add: seek_backend_def MakeAndRunSession_def SelectBackend_def lc_SelectBackend_def)
  next
    case False
    from lc_Select_abs [OF s(2) False, of client] obtain v where v:
      "kh_abs (lib_lc L) s (Backend_ToString (lib_env L) (cw_b v)) = Some v"
      "fst (lc_SelectBackend (lib_lc L) (lib_env L) s client) = Inr (cw_b v)"
      "kh_abs (lib_lc L) (snd (lc_SelectBackend (lib_lc L) (lib_env L) s client)) =
        (kh_abs (lib_lc L) s)(Backend_ToString (lib_env L) (cw_b v) \<mapsto> counted v)"
      "lc_ok (lib_lc L) (view_lc V) (lib_env L) (snd (lc_SelectBackend (lib_lc L) (lib_env L) s client))" by metis
    then obtain t where t: "lc_SelectBackend (lib_lc L) (lib_env L) s client = (Inr (cw_b v), t)"
      by (metis prod.collapse)
    with v have "lc_world L V (w\<lparr>w_selector := LeastConnectionsS t\<rparr>) (charged (lib_env L) 1 (cw_b v) d)"
      using counters_upd [OF s(3) v(1)] by (auto simp: lc_world_def)
    with t s(1) Inr show ?thesis
      by (cases "cw_b v") (simp_all add: seek_backend_def MakeAndRunSession_def SelectBackend_def)
  qed
qed (simp add: seek_backend_def MakeAndRunSession_def)

lemma charge_exclude:
  assumes "lc_world L V w (charged (lib_env L) 1 b d)"
  shows "accounts L V d (exclude_and_retry L b w)"
proof -
  let ?key = "Backend_ToString (lib_env L) b"
  from assms obtain s where s: "w_selector w = LeastConnectionsS s" "lc_ok (lib_lc L) (view_lc V) (lib_env L) s"
    "counters_are L s (charged (lib_env L) 1 b d)" by (auto simp: lc_world_def)
  obtain r t where t: "kh_exclude (lib_lc L) (lib_env L) s b = (r, t)" by fastforce
  have "lc_ok (lib_lc L) (view_lc V) (lib_env L) t \<and> counters_are L t d"
  proof (cases "kh_abs (lib_lc L) s ?key")
    case None
    with t s kh_exclude_gone [OF this] show ?thesis by (auto simp: counters_are_def charged_def)
  next
    case (Some v)
    then have "kh_abs (lib_lc L) s ?key \<noteq> None" by simp
    from kh_exclude_abs [OF s(2) this] t s(3) show ?thesis
      by (auto simp: counters_are_def charged_def split: if_splits)
  qed
  then have "lc_world L V (w\<lparr>w_selector := LeastConnectionsS t\<rparr>) d" by (auto simp: lc_world_def)
  then show ?thesis
    by (cases r) (simp_all add: exclude_and_retry_def s(1) ExcludeBackend_def lc_ExcludeBackend_def t)
qed

lemma charge_run_session:
  assumes "lc_world L V w (charged (lib_env L) 1 b d)"
  shows "\<exists>x. fst (run_session L b w) = Inr (Running x) \<and> session_visitor x = Some (LeastConnectionsCallbacks b) \<and>
    lc_world L V (snd (run_session L b w)) (charged (lib_env L) 2 b d)"
proof -
  from assms obtain s where s: "w_selector w = LeastConnectionsS s" by (auto simp: lc_world_def)
  define w1 where "w1 = w\<lparr>w_next_id := snd (generateId (w_next_id w))\<rparr>"
  have w1: "w_selector w1 = LeastConnectionsS s" "lc_world L V w1 (charged (lib_env L) 1 b d)"
    using assms s by (auto simp: w1_def lc_world_def)
  let ?w2 = "w1\<lparr>w_selector := LeastConnectionsS (IncreaseConnectionCount (lib_lc L) (lib_env L) b s)\<rparr>"
  have m: "MakeSession b w = (HttpSession_ctor (fst (generateId (w_next_id w))) (Some (LeastConnectionsCallbacks b)), w1)"
    by (simp add: MakeSession_def s selector_Type_def lc_Type_def w1_def case_prod_unfold Let_def)
  let ?x = "session_Run (visitor_call L) (MakeSession b w)"
  have "view (snd ?x) = (Some (LeastConnectionsCallbacks b), ?w2)"
    unfolding session_Run_effects(3) m
    by (simp add: told_def visitor_call_def on_least_connections_def w1(1) HttpSession_ctor_def)
  with charge_Increase [OF w1(2,1), of b] session_Run_effects(1) [of "visitor_call L" "MakeSession b w"] show ?thesis
    by (simp add: run_session_def case_prod_unfold charged_more)
qed

lemma charge_attempt:
  assumes "lc_world L V w (charged (lib_env L) 1 (attempt_backend a) d)"
  shows "accounts L V (if fst (attempt_done L ec a w) = Inr Dropped then charged (lib_env L) 1 (attempt_backend a) d else d)
    (attempt_done L ec a w)"
proof (cases "ec = Success")
  case True
  obtain x where x: "fst (run_session L (attempt_backend a) w) = Inr (Running x)"
    "session_visitor x = Some (LeastConnectionsCallbacks (attempt_backend a))"
    "lc_world L V (snd (run_session L (attempt_backend a) w)) (charged (lib_env L) 2 (attempt_backend a) d)"
    using charge_run_session [OF assms] by blast
  then have "accounts L V d (run_session L (attempt_backend a) w)" by (auto simp: accounts_def)
  with x(1) assms True show ?thesis
    by (cases a) (auto simp: attempt_done_def HandleIpConnect_def HandleResolve_def HandleUrlConnect_def)
next
  case False
  show ?thesis
  proof (cases "ec = ConnectionRefused \<and> (\<forall>b. a \<noteq> ConnectingUrl b)")
    case True
    then have "attempt_done L ec a w = exclude_and_retry L (attempt_backend a) w"
      by (cases a) (auto simp: attempt_done_def HandleIpConnect_def HandleResolve_def)
    moreover have "fst (exclude_and_retry L (attempt_backend a) w) \<noteq> Inr Dropped"
      by (auto simp: exclude_and_retry_def split: prod.splits sum.splits)
    ultimately show ?thesis using charge_exclude [OF assms] by simp
  next
    case False
    with \<open>ec \<noteq> Success\<close> have "attempt_done L ec a w = (Inr Dropped, w)"
      by (cases a) (auto simp: attempt_done_def HandleIpConnect_def HandleResolve_def HandleUrlConnect_def)
    with assms show ?thesis by simp
  qed
qed

subsection \<open>The sessions\<close>

lemma told_lc_other:
  "n \<noteq> OnConnect \<Longrightarrow> n \<noteq> OnDisconnect \<Longrightarrow>
    told (visitor_call L) n (Some (LeastConnectionsCallbacks b), w) = (Some (LeastConnectionsCallbacks b), w)"
  by (cases n) (simp_all add: told_def visitor_call_def)

lemma charge_handler:
  assumes "run_handler R (visitor_call L) out c (x, w) = (Inr u, x', w')"
    and "session_visitor x = Some (LeastConnectionsCallbacks b)"
    and "pending x' = None \<Longrightarrow> told_documented L OnDisconnect (Some (LeastConnectionsCallbacks b)) w"
    and "lc_world L V w (charged (lib_env L) 2 b d)"
  shows "session_visitor x' = Some (LeastConnectionsCallbacks b) \<and>
    lc_world L V w' (if pending x' = None then d else charged (lib_env L) 2 b d)"
proof (cases "pending x' = None")
  case False
  from run_handler_alive [OF assms(1)] False assms(2) have
    "(session_visitor x', w') = told (visitor_call L) (announcement c) (Some (LeastConnectionsCallbacks b), w)" by simp
  moreover have "announcement c \<noteq> OnConnect" "announcement c \<noteq> OnDisconnect"
    by (cases c; simp add: announcement_def)+
  ultimately show ?thesis using False assms(4) by (auto simp: told_lc_other)
next
  case True
  from assms(4) obtain s where s: "w_selector w = LeastConnectionsS s" by (auto simp: lc_world_def)
  from run_handler_cancelled [OF assms(1)] True assms(2) disconnect_unchanged [OF s assms(3)]
  have "session_visitor x' = Some (LeastConnectionsCallbacks b)" "w' = w" by simp_all
  moreover from assms(4) have "lc_world L V w (charged (lib_env L) (Suc 1) b d)" by (simp add: numeral_2_eq_2)
  ultimately show ?thesis using discharge assms(3) True by fastforce
qed

subsection \<open>The demand of a state\<close>

fun visitor_backend :: "'a visitor \<Rightarrow> 'a backend" where
  "visitor_backend (LeastConnectionsCallbacks b) = b"
| "visitor_backend (LeastResponseTimeCallbacks b t u) = b"

definition prints :: "'a env \<Rightarrow> string \<Rightarrow> 'a backend \<Rightarrow> bool" where
  "prints E key b \<longleftrightarrow> Backend_ToString E b = key"

definition visited :: "'a env \<Rightarrow> string \<Rightarrow> 'a visitor HttpSession \<Rightarrow> bool" where
  "visited E key x \<longleftrightarrow> (case session_visitor x of None \<Rightarrow> False | Some v \<Rightarrow> prints E key (visitor_backend v))"

definition demand :: "'a env \<Rightarrow> ('a, 'h, 'k, 'l, 'm) system \<Rightarrow> string \<Rightarrow> nat" where
  "demand E S key = tally (\<lambda>a. prints E key (attempt_backend a)) (sys_attempts S) +
     2 * tally (visited E key) (sys_sessions S) + tally (prints E key) (sys_lost S)"

definition lc_visited :: "'a visitor HttpSession \<Rightarrow> bool" where
  "lc_visited x \<longleftrightarrow> (\<exists>b. session_visitor x = Some (LeastConnectionsCallbacks b))"

definition lc_sys ::
    "('a, 'h, 'k, 'l, 'm) libs \<Rightarrow> ('a, 'h, 'k, 'l, 'm) views \<Rightarrow> ('a, 'h, 'k, 'l, 'm) system \<Rightarrow> bool" where
  "lc_sys L V S \<longleftrightarrow> lc_world L V (sys_world S) (demand (lib_env L) S) \<and>
     (\<forall>x \<in> set (sys_sessions S). lc_visited x) \<and> (\<forall>x \<in> set (sys_closing S). lc_visited x)"

lemma demand_cong:
  "sys_attempts S = sys_attempts T \<Longrightarrow> sys_sessions S = sys_sessions T \<Longrightarrow>
    sys_lost S = sys_lost T \<Longrightarrow> demand E S = demand E T"
  by (simp add: demand_def fun_eq_iff)

lemma demand_attempt:
  "i < length (sys_attempts S) \<Longrightarrow> demand E S =
    charged E 1 (attempt_backend (sys_attempts S ! i)) (demand E (S\<lparr>sys_attempts := erase_at i (sys_attempts S)\<rparr>))"
  by (auto simp: demand_def charged_def prints_def fun_eq_iff tally_erase_at)

lemma demand_session:
  "i < length (sys_sessions S) \<Longrightarrow> session_visitor (sys_sessions S ! i) = Some v \<Longrightarrow> demand E S =
    charged E 2 (visitor_backend v) (demand E (S\<lparr>sys_sessions := erase_at i (sys_sessions S)\<rparr>))"
  by (auto simp: demand_def charged_def prints_def visited_def fun_eq_iff tally_erase_at)

subsection \<open>Every step keeps the account\<close>

lemma lc_sys_settle:
  assumes "accounts L V (demand (lib_env L) S) x" and "\<forall>x \<in> set (sys_sessions S). lc_visited x"
    and "\<forall>x \<in> set (sys_closing S). lc_visited x" and "unharmed (settle x S)"
  shows "lc_sys L V (settle x S)"
proof -
  obtain r w where x: "x = (r, w)" by fastforce
  with assms(4) obtain v where r: "r = Inr v" by (cases r) (auto simp: unharmed_def settle_simps)
  have "demand (lib_env L) (settle (Inr v, w) S) =
    (case v of Trying a \<Rightarrow> charged (lib_env L) 1 (attempt_backend a) (demand (lib_env L) S)
     | Running s \<Rightarrow> (\<lambda>key. demand (lib_env L) S key + (if visited (lib_env L) key s then 2 else 0))
     | _ \<Rightarrow> demand (lib_env L) S)"
    by (auto simp: demand_def settle_simps charged_def prints_def fun_eq_iff split: reaction.splits)
  with assms(1-3) show ?thesis
    unfolding x r
    by (cases v) (auto simp: lc_sys_def settle_simps charged_def visited_def prints_def lc_visited_def eq_commute)
qed

lemma lc_sys_fields:
  assumes "lc_sys L V S"
  shows "lc_world L V (sys_world S) (demand (lib_env L) S)" and "\<forall>x \<in> set (sys_sessions S). lc_visited x"
    and "\<forall>x \<in> set (sys_closing S). lc_visited x"
  using assms by (simp_all add: lc_sys_def)

lemma lc_sys_accept:
  fixes L :: "('a, 'h, 'k, 'l, 'm) libs"
  assumes "lc_sys L V S" and "unharmed (on_accept ec local S)"
  shows "lc_sys L V (on_accept ec local S)"
proof -
  obtain r :: "'a reaction result" and a
    where h: "HandleAccept ec local ((sys_acceptor S)\<lparr>acc_waiting := False\<rparr>) = (r, a)" by fastforce
  let ?S = "S\<lparr>sys_acceptor := a\<rparr>"
  have "demand (lib_env L) ?S = demand (lib_env L) S" by (rule demand_cong) simp_all
  with h lc_sys_fields(1) [OF assms(1)] have "accounts L V (demand (lib_env L) ?S) (r, sys_world S)"
    by (auto simp: HandleAccept_def Let_def split: if_splits sum.splits)
  from lc_sys_settle [OF this] lc_sys_fields [OF assms(1)] assms(2) h show ?thesis by (simp add: on_accept_def)
qed

lemma lc_sys_select:
  assumes "lc_sys L V S" and "unharmed (on_select L peer S)"
  shows "lc_sys L V (on_select L peer S)"
proof -
  let ?S = "S\<lparr>sys_selecting := sys_selecting S - 1\<rparr>"
  have "demand (lib_env L) ?S = demand (lib_env L) S" by (rule demand_cong) simp_all
  with charge_seek [OF lc_sys_fields(1) [OF assms(1)], of peer]
  have "accounts L V (demand (lib_env L) ?S) (seek_backend L peer (sys_world S))" by simp
  from lc_sys_settle [OF this] lc_sys_fields [OF assms(1)] assms(2) show ?thesis by (simp add: on_select_def)
qed

lemma lc_sys_attempt:
  assumes "lc_sys L V S" and "i < length (sys_attempts S)" and "unharmed (on_attempt L i ec S)"
  shows "lc_sys L V (on_attempt L i ec S)"
proof -
  let ?a = "sys_attempts S ! i" and ?E = "lib_env L"
  define x where "x = attempt_done L ec ?a (sys_world S)"
  let ?lost = "case fst x of Inr Dropped \<Rightarrow> [attempt_backend ?a] | _ \<Rightarrow> []"
  let ?S = "S\<lparr>sys_attempts := erase_at i (sys_attempts S), sys_lost := sys_lost S @ ?lost\<rparr>"
  let ?d = "demand ?E (S\<lparr>sys_attempts := erase_at i (sys_attempts S)\<rparr>)"
  have "demand ?E ?S = (if fst x = Inr Dropped then charged ?E 1 (attempt_backend ?a) ?d else ?d)"
    by (auto simp: demand_def charged_def prints_def fun_eq_iff split: sum.splits reaction.splits)
  moreover from lc_sys_fields(1) [OF assms(1)] demand_attempt [OF assms(2), of ?E]
  have "lc_world L V (sys_world S) (charged ?E 1 (attempt_backend ?a) ?d)" by simp
  note charge_attempt [OF this, of ec, folded x_def]
  ultimately have "accounts L V (demand ?E ?S) x" by simp
  from lc_sys_settle [OF this] lc_sys_fields [OF assms(1)] assms(3) show ?thesis
    by (simp add: on_attempt_def Let_def x_def)
qed

lemma lc_sys_session:
  assumes "lc_sys L V S" and "i < length (sys_sessions S)" and "heap_calls_documented R L S (SessionDone i out c)"
    and "unharmed (on_session R L i out c S)"
  shows "lc_sys L V (on_session R L i out c S)"
proof -
  let ?x = "sys_sessions S ! i" and ?E = "lib_env L"
  let ?d = "demand ?E (S\<lparr>sys_sessions := erase_at i (sys_sessions S)\<rparr>)"
  from lc_sys_fields(2) [OF assms(1)] assms(2) obtain b where b: "session_visitor ?x = Some (LeastConnectionsCallbacks b)"
    unfolding lc_visited_def using nth_mem by blast
  obtain r x w where h: "run_handler R (visitor_call L) out c (?x, sys_world S) = (r, x, w)" by (metis prod.collapse)
  with assms(4) obtain u where r: "r = Inr u" by (cases r) (auto simp: on_session_def Let_def unharmed_def split: if_splits)
  have doc: "told_documented L OnDisconnect (Some (LeastConnectionsCallbacks b)) (sys_world S)" if "pending x = None"
  proof -
    from run_handler_success [of c R "visitor_call L" out "(?x, sys_world S)"] h that have "completion_ec c \<noteq> Success" by auto
    with assms(3) show ?thesis unfolding documented_session h b by (simp add: r)
  qed
  have "demand ?E S = charged ?E 2 b ?d" using demand_session [OF assms(2) b] by simp
  with lc_sys_fields(1) [OF assms(1)] have "lc_world L V (sys_world S) (charged ?E 2 b ?d)" by simp
  from charge_handler [OF h [unfolded r] b doc this]
  have x: "session_visitor x = Some (LeastConnectionsCallbacks b)"
    and w: "lc_world L V w (if pending x = None then ?d else charged ?E 2 b ?d)" by auto
  have dem: "demand ?E (on_session R L i out c S) = (if pending x = None then ?d else charged ?E 2 b ?d)"
  proof (cases "pending x = None")
    case True
    then show ?thesis
      by (auto simp: on_session_def h r Let_def demand_def fun_eq_iff)
  next
    case False
    have "visited ?E key x = visited ?E key ?x" for key by (simp add: visited_def x b)
    then have "demand ?E (on_session R L i out c S) = demand ?E S"
      using False assms(2) by (auto simp: on_session_def h r Let_def demand_def fun_eq_iff tally_update)
    with False demand_session [OF assms(2) b, of ?E] show ?thesis by auto
  qed
  have "lc_visited x" using x by (simp add: lc_visited_def)
  with w lc_sys_fields [OF assms(1)] set_erase_at_subset [of i "sys_sessions S"] show ?thesis
    unfolding lc_sys_def dem
    by (auto simp: on_session_def h r Let_def dest!: set_update_subset_insert [THEN subsetD])
qed

lemma lc_sys_destroy:
  assumes "lc_sys L V S" and "j < length (sys_closing S)" and "heap_calls_documented R L S (DestroySession j out)"
    and "unharmed (on_destroy L j out S)"
  shows "lc_sys L V (on_destroy L j out S)"
proof -
  let ?x = "sys_closing S ! j" and ?E = "lib_env L"
  from lc_sys_fields(3) [OF assms(1)] assms(2) obtain b where b: "session_visitor ?x = Some (LeastConnectionsCallbacks b)"
    unfolding lc_visited_def using nth_mem by blast
  obtain f x w where h: "HttpSession_dtor (visitor_call L) out (?x, sys_world S) = (f, x, w)" by (metis prod.collapse)
  with assms(4) have f: "f = Destroyed"
    by (auto simp: on_destroy_def unharmed_def HttpSession_dtor_def split: prod.splits sum.splits)
  from assms(3) have "told_documented L OnDisconnect (Some (LeastConnectionsCallbacks b)) (sys_world S)"
    unfolding documented_destroy h b by (simp add: f)
  moreover obtain s where "w_selector (sys_world S) = LeastConnectionsS s"
    using lc_sys_fields(1) [OF assms(1)] by (auto simp: lc_world_def)
  ultimately have w: "w = sys_world S"
    using dtor_destroyed [OF h [unfolded f]] b disconnect_unchanged by (metis fst_conv snd_conv)
  have "demand ?E (on_destroy L j out S) = demand ?E S" by (rule demand_cong) (simp_all add: on_destroy_def h)
  with w lc_sys_fields [OF assms(1)] set_erase_at_subset [of j "sys_closing S"] show ?thesis
    by (auto simp: lc_sys_def on_destroy_def h)
qed

lemma lc_sys_idle:
  assumes "lc_sys L V S"
  shows "lc_sys L V (on_tick t S)" and "lc_sys L V (S\<lparr>sys_stopped := True\<rparr>)"
proof -
  have "demand (lib_env L) (on_tick t S) = demand (lib_env L) S" "demand (lib_env L) (S\<lparr>sys_stopped := True\<rparr>) = demand (lib_env L) S"
    by (rule demand_cong; simp add: on_tick_def)+
  with lc_sys_fields [OF assms] show "lc_sys L V (on_tick t S)" "lc_sys L V (S\<lparr>sys_stopped := True\<rparr>)"
    by (auto simp: lc_sys_def on_tick_def lc_world_def)
qed

lemma lc_sys_step:
  assumes "sys_step R L S ev T" and "lc_sys L V S" and "unharmed T" and "heap_calls_documented R L S ev"
  shows "lc_sys L V T"
  using assms
  by cases (auto intro: lc_sys_accept lc_sys_select lc_sys_attempt lc_sys_session lc_sys_destroy lc_sys_idle)

lemma lc_sys_reach:
  assumes "sys_reach R L (heap_calls_documented R L) S T" and "lc_sys L V S" and "unharmed T"
  shows "lc_sys L V T"
  using assms(1,3)
proof induction
  case (after T ev U)
  from unharmed_step [OF after.hyps(2) after.prems] after lc_sys_step show ?case by metis
qed (use assms in simp)

text \<open>Ending a session whose backend is in the pool is outside of the contract.\<close>

lemma session_end_undocumented:
  assumes "lc_sys L V S" and "i < length (sys_sessions S)"
    and "session_visitor (sys_sessions S ! i) = Some (LeastConnectionsCallbacks b)"
    and "w_selector (sys_world S) = LeastConnectionsS t" and "kh_abs (lib_lc L) t (Backend_ToString (lib_env L) b) \<noteq> None"
    and "completion_ec c \<noteq> Success" and "closes out"
  shows "\<not> heap_calls_documented R L S (SessionDone i out c)"
proof
  let ?x = "sys_sessions S ! i"
  let ?d = "demand (lib_env L) (S\<lparr>sys_sessions := erase_at i (sys_sessions S)\<rparr>)"
  assume doc: "heap_calls_documented R L S (SessionDone i out c)"
  have "fst (run_handler R (visitor_call L) out c (?x, sys_world S)) = Inr ()"
    unfolding run_handler_error [OF assms(6)] by (rule Cancel_effects(1) [OF assms(7)])
  with doc assms(3,6) have "told_documented L OnDisconnect (Some (LeastConnectionsCallbacks b)) (sys_world S)"
    unfolding documented_session by simp
  moreover have "lc_world L V (sys_world S) (charged (lib_env L) (Suc 1) b ?d)"
    using lc_sys_fields(1) [OF assms(1)] demand_session [OF assms(2,3), of "lib_env L"] by (simp add: numeral_2_eq_2)
  note disconnect_gone [OF this assms(4)]
  ultimately show False using assms(5) by blast
qed

subsection \<open>The account\<close>

lemma lc_sys_start:
  assumes "lc_ok (lib_lc L) (view_lc V) (lib_env L) s" and "kh_abs (lib_lc L) s = fresh_counters (lib_env L) bs"
  shows "lc_sys L V (balancer_start a (LeastConnectionsS s))"
proof -
  have "cw_counter w = 0" if "fresh_counters (lib_env L) bs key = Some w" for key w
    using map_of_SomeD [OF that [unfolded fresh_elems_def]] by auto
  with assms show ?thesis
    by (auto simp: lc_sys_def lc_world_def balancer_start_def counters_are_def demand_def)
qed

text \<open>C9. What the counters of least connections count, and where they stop to count. In every state a
  balancer reaches with all calls of its heap as documented, before an exception leaves a handler,
  whatever clients, backends and threads do and in whatever order, the counter of a backend still in
  the pool is the number of connection attempts to it in flight, plus twice the number of its
  running sessions, plus one for every attempt to it that ever failed otherwise than by a refusal.
  And the first session with a backend of the pool that ends leaves the contract of the heap: the
  step that cancels it calls \<^verbatim>\<open>decrease\<close> for an element whose priority has risen.\<close>

theorem lc_counters_account:
  fixes L :: "('a, 'h, 'k, 'l, 'm) libs" and V :: "('a, 'h, 'k, 'l, 'm) views"
  assumes "heap_laws ConnectionsCompare (lib_lc L) (view_lc V)"
    and "endpoints_of Y ''Least connections endpoints node is missed'' node = Inr eps"
    and "denotes (lib_env L) Y eps bs" and "distinct (map (Backend_ToString (lib_env L)) bs)"
    and "lc_Configure (lib_lc L) (lib_env L) Y node (kh_new (lib_lc L)) = Inr s"
    and "sys_reach R L (heap_calls_documented R L) (balancer_start a (LeastConnectionsS s)) S"
    and "sys_thrown S = []" and "\<not> sys_aborted S"
  shows "\<exists>t. w_selector (sys_world S) = LeastConnectionsS t \<and>
    (\<forall>key w. kh_abs (lib_lc L) t key = Some w \<longrightarrow>
      cw_counter w = tally (\<lambda>a. prints (lib_env L) key (attempt_backend a)) (sys_attempts S) +
        2 * tally (visited (lib_env L) key) (sys_sessions S) + tally (prints (lib_env L) key) (sys_lost S)) \<and>
    (\<forall>i b out c. i < length (sys_sessions S) \<and> session_visitor (sys_sessions S ! i) = Some (LeastConnectionsCallbacks b) \<and>
      kh_abs (lib_lc L) t (Backend_ToString (lib_env L) b) \<noteq> None \<and> completion_ec c \<noteq> Success \<and> closes out \<longrightarrow>
      \<not> heap_calls_documented R L S (SessionDone i out c))"
proof -
  from lc_Configure_abs [OF assms(1-4)] assms(5)
  have "lc_ok (lib_lc L) (view_lc V) (lib_env L) s" "kh_abs (lib_lc L) s = fresh_counters (lib_env L) bs" by auto
  moreover have "unharmed S" using assms(7,8) by (simp add: unharmed_def)
  ultimately have sys: "lc_sys L V S" using lc_sys_reach [OF assms(6) lc_sys_start] by blast
  then obtain t where t: "w_selector (sys_world S) = LeastConnectionsS t" "counters_are L t (demand (lib_env L) S)"
    by (auto simp: lc_sys_def lc_world_def)
  with session_end_undocumented [OF sys _ _ t(1)] show ?thesis
    unfolding counters_are_def demand_def by blast
qed

definition sample_start :: sample_system where
  "sample_start = balancer_start sample_acceptor (LeastConnectionsS sample_lc)"

lemma sample_lib_lc: "lib_lc sample_libs = sample_lc_heap" "view_lc sample_views = sample_lc_view" "lib_env sample_libs = sample_env"
  by (simp_all add: sample_libs_def sample_views_def)

text \<open>One client is accepted by a balancer with two backends, and connected to the one chosen.\<close>

definition sample_connected :: "sample_system \<Rightarrow> sample_system" where
  "sample_connected S = on_attempt sample_libs 0 Success (sample_accepted S)"

lemma sample_selects:
  "\<exists>ep t. EndpointB ep \<in> set sample_bs \<and> sel_inv sample_libs sample_views (LeastConnectionsS t) \<and>
    sel_pool sample_libs (LeastConnectionsS t) = set sample_bs \<and>
    SelectBackend sample_libs (LeastConnectionsS sample_lc) (sample_ep ''::1'' 1) = (Inr (EndpointB ep), LeastConnectionsS t)"
proof -
  have "sel_inv sample_libs sample_views (LeastConnectionsS sample_lc)" "sel_pool sample_libs (LeastConnectionsS sample_lc) \<noteq> {}"
    and pool: "sel_pool sample_libs (LeastConnectionsS sample_lc) = set sample_bs"
    using sample_lc_configured(2) sample_lc_pool
    by (simp_all add: sel_inv_def sel_pool_def sample_lib_lc sample_bs_def)
  from sel.select_cases [OF this(1,2), of "sample_ep ''::1'' 1"] obtain b s where
    b: "SelectBackend sample_libs (LeastConnectionsS sample_lc) (sample_ep ''::1'' 1) = (Inr b, s)" "b \<in> set sample_bs"
    "sel_inv sample_libs sample_views s" "sel_pool sample_libs s = set sample_bs"
    unfolding pool by metis
  from b(1) obtain t where "s = LeastConnectionsS t" by (auto simp: SelectBackend_def apsnd_def map_prod_def split: prod.splits)
  with b show ?thesis by (auto simp: sample_bs_def)
qed

lemma sample_connection:
  "sys_reach appending sample_libs (heap_calls_documented appending sample_libs) sample_start (sample_connected sample_start)"
  "sys_thrown (sample_connected sample_start) = []" "\<not> sys_aborted (sample_connected sample_start)"
  "\<exists>x b. sys_sessions (sample_connected sample_start) = [x] \<and> session_visitor x = Some (LeastConnectionsCallbacks b) \<and>
    b \<in> set sample_bs"
  "sys_attempts (sample_connected sample_start) = []" "sys_lost (sample_connected sample_start) = []"
  "sel_inv sample_libs sample_views (w_selector (sys_world (sample_connected sample_start)))"
  "sel_pool sample_libs (w_selector (sys_world (sample_connected sample_start))) = set sample_bs"
proof -
  let ?S = sample_start and ?T = "sample_accepted sample_start"
  have S: "begins ?S" "acc_waiting (sys_acceptor ?S)"
    by (simp_all add: sample_start_def balancer_start_def begins_def Acceptor_Run_def DoAccept_def)
  obtain ep t where b: "SelectBackend sample_libs (LeastConnectionsS sample_lc) (sample_ep ''::1'' 1) = (Inr (EndpointB ep), LeastConnectionsS t)"
    "EndpointB ep \<in> set sample_bs" and sel: "sel_inv sample_libs sample_views (LeastConnectionsS t)"
    "sel_pool sample_libs (LeastConnectionsS t) = set sample_bs"
    using sample_selects by blast
  have T: "sys_thrown ?T = []" "begins ?T" "sys_attempts ?T = [ConnectingIp ep (EndpointB ep)]" "sys_sessions ?T = []" "sys_lost ?T = []"
    "sys_world ?T = \<lparr>w_selector = LeastConnectionsS t, w_clock = 0, w_next_id = 0\<rparr>"
    by (simp_all add: sample_accepted_def sample_start_def balancer_start_def on_accept_def on_select_def begins_def
        HandleAccept_def settle_simps seek_backend_def MakeAndRunSession_def b(1))
  from sample_accepted_steps [OF S] obtain U where U: "sys_step appending sample_libs ?S (AcceptDone Success (Inr ())) U"
    "sys_step appending sample_libs U (SelectNow (Inr (sample_ep ''::1'' 1))) ?T" by blast
  have "sys_step appending sample_libs ?T (AttemptDone 0 Success) (sample_connected ?S)"
    using T(2,3) by (simp add: sys_step_attempt sample_connected_def)
  note steps = U this and after = sys_reach.after [where I = "heap_calls_documented appending sample_libs"]
  from after [OF after [OF after [OF sys_reach.here steps(1) documented_simps(1)] steps(2) documented_simps(2)] steps(3) documented_simps(3)]
  show "sys_reach appending sample_libs (heap_calls_documented appending sample_libs) ?S (sample_connected ?S)" .
  let ?w = "sys_world ?T"
  obtain x where x: "fst (run_session sample_libs (EndpointB ep) ?w) = Inr (Running x)" using run_session_Running by blast
  have at: "attempt_done sample_libs Success (ConnectingIp ep (EndpointB ep)) w = run_session sample_libs (EndpointB ep) w" for w
    by (simp add: attempt_done_def HandleIpConnect_def)
  have C: "sample_connected ?S = settle (run_session sample_libs (EndpointB ep) ?w)
      (?T\<lparr>sys_attempts := [], sys_lost := []\<rparr>)"
    using x T(3,5) by (simp add: sample_connected_def on_attempt_def Let_def at erase_at_def)
  have "session_visitor x = Some (LeastConnectionsCallbacks (EndpointB ep))"
    using x T(6) by (auto simp: run_session_def MakeSession_def selector_Type_def lc_Type_def session_defs HttpSession_ctor_def
        visitor_call_def Let_def split: prod.splits)
  with b(2) x T show "\<exists>x b. sys_sessions (sample_connected ?S) = [x] \<and> session_visitor x = Some (LeastConnectionsCallbacks b) \<and>
      b \<in> set sample_bs"
    unfolding C by (auto simp: settle_simps)
  show "sys_thrown (sample_connected ?S) = []" "\<not> sys_aborted (sample_connected ?S)"
    "sys_attempts (sample_connected ?S) = []" "sys_lost (sample_connected ?S) = []"
    using x T unfolding C by (simp_all add: settle_simps begins_def)
  have "sel_inv sample_libs sample_views (w_selector (snd (MakeSession (EndpointB ep) ?w)))" using sel(1) T(6) by simp
  from kept_told [OF this told_documented_connect] sel(2) T(6)
  show "sel_inv sample_libs sample_views (w_selector (sys_world (sample_connected ?S)))"
    "sel_pool sample_libs (w_selector (sys_world (sample_connected ?S))) = set sample_bs"
    unfolding C by (simp_all add: run_session_tells kept_def)
qed

theorem lc_counters_account_witness:
  "\<exists>S t b. sys_reach appending sample_libs (heap_calls_documented appending sample_libs) sample_start S \<and>
    w_selector (sys_world S) = LeastConnectionsS t \<and>
    (\<exists>w. kh_abs sample_lc_heap t (Backend_ToString sample_env b) = Some w \<and> cw_counter w = 2) \<and>
    \<not> heap_calls_documented appending sample_libs S (SessionDone 0 all_well (ClientReadDone EndOfStream empty_message []))"
proof -
  let ?S = "sample_connected sample_start"
  have "distinct (map (Backend_ToString (lib_env sample_libs)) sample_bs)"
    using sample_distinct by (simp add: sample_lib_lc)
  from lc_counters_account [where L = sample_libs and V = sample_views and R = appending, unfolded sample_lib_lc, OF sample_lc_laws
      sample_endpoints sample_denotes this [unfolded sample_lib_lc] sample_lc_configured(1)
      sample_connection(1-3) [unfolded sample_start_def]]
  obtain t where t: "w_selector (sys_world ?S) = LeastConnectionsS t"
    "\<And>key w. kh_abs sample_lc_heap t key = Some w \<Longrightarrow>
      cw_counter w = tally (\<lambda>a. prints sample_env key (attempt_backend a)) (sys_attempts ?S) +
        2 * tally (visited sample_env key) (sys_sessions ?S) + tally (prints sample_env key) (sys_lost ?S)"
    "\<And>i b out c. i < length (sys_sessions ?S) \<Longrightarrow> session_visitor (sys_sessions ?S ! i) = Some (LeastConnectionsCallbacks b) \<Longrightarrow>
      kh_abs sample_lc_heap t (Backend_ToString sample_env b) \<noteq> None \<Longrightarrow> completion_ec c \<noteq> Success \<Longrightarrow> closes out \<Longrightarrow>
      \<not> heap_calls_documented appending sample_libs ?S (SessionDone i out c)"
    unfolding sample_start_def by blast
  obtain x b where x: "sys_sessions ?S = [x]" "session_visitor x = Some (LeastConnectionsCallbacks b)" "b \<in> set sample_bs"
    using sample_connection(4) by blast
  have "lc_ok sample_lc_heap sample_lc_view sample_env t" "b \<in> kh_pool cw_b sample_lc_heap t"
    using sample_connection(7,8) x(3) unfolding t(1) by (simp_all add: sel_inv_def sel_pool_def sample_lib_lc)
  then obtain w where w: "kh_abs sample_lc_heap t (Backend_ToString sample_env b) = Some w"
    using kh_member_key by blast
  have "cw_counter w = 2"
    using t(2) [OF w] by (simp add: x sample_connection(5,6) visited_def prints_def)
  moreover have "\<not> heap_calls_documented appending sample_libs ?S (SessionDone 0 all_well (ClientReadDone EndOfStream empty_message []))"
    by (rule t(3) [of 0 b]) (simp_all add: x w completion_ec_def closes_def all_well_def)
  ultimately show ?thesis using sample_connection(1) t(1) w by blast
qed

end
