(* ===== verification/Response_Accounting.thy ===== *)
theory Response_Accounting
  imports Balancer
begin

section \<open>The response times and the heap's contract\<close>

text \<open>
  The selector for least response time calls \<^verbatim>\<open>increase\<close> when an average grows, which lowers the
  element's priority, and \<^verbatim>\<open>decrease\<close> when it falls, which raises it. This theory shows how far a
  running balancer comes within the contract of the heap: as far as the first response of a backend
  of the pool that takes time, however the sessions and the handlers are interleaved and whatever
  exceptions leave them. Until then all averages are zero.
\<close>

text \<open>What is true of the world within the contract, \<open>rs\<close> being the response times measured so far.\<close>

definition lrt_world ::
    "('a, 'h, 'k, 'l, 'm) libs \<Rightarrow> ('a, 'h, 'k, 'l, 'm) views \<Rightarrow> 'a backend list \<Rightarrow>
     ('a, 'h, 'k, 'l, 'm) world \<Rightarrow> ('a backend \<times> 64 word) list \<Rightarrow> bool" where
  "lrt_world L V bs w rs \<longleftrightarrow> (\<exists>s. w_selector w = LeastResponseTimeS s \<and>
     lrt_ok (lib_lrt L) (view_lrt V) (lib_env L) s \<and>
     kh_abs (lib_lrt L) s \<subseteq>\<^sub>m fresh_elems (lib_env L) new_average bs \<and>
     (\<forall>(b, t) \<in> set rs. kh_abs (lib_lrt L) s (Backend_ToString (lib_env L) b) \<noteq> None \<longrightarrow> sint t < 1))"

lemma lrt_world_cong: "w_selector w = w_selector w' \<Longrightarrow> lrt_world L V bs w rs = lrt_world L V bs w' rs"
  by (simp add: lrt_world_def)

lemma fresh_average: "fresh_elems E new_average bs key = Some a \<Longrightarrow> atw_alpha a = rnd (9 / 10) \<and> response_time_ema a = 0"
  by (auto simp: fresh_elems_def new_average_def dest!: map_of_SomeD)

lemma fresh_world:
  assumes "kh_abs H s \<subseteq>\<^sub>m fresh_elems E new_average bs" and "kh_abs H s key = Some a"
  shows "atw_alpha a = rnd (9 / 10)" and "response_time_ema a = 0"
  using assms fresh_average [of E bs key a] by (force simp: map_le_def)+

lemma documented_no_time:
  assumes "lrt_world L V bs w rs" and "w_selector w = LeastResponseTimeS s"
    and "told_documented L OnResponseReceive (Some (LeastResponseTimeCallbacks b response_begin response_end)) w"
    and "kh_abs (lib_lrt L) s (Backend_ToString (lib_env L) b) \<noteq> None"
  shows "sint (w_clock w - response_begin) < 1"
proof (rule ccontr)
  assume "\<not> sint (w_clock w - response_begin) < 1"
  then have "0 < next_ema (rnd (9 / 10)) 0 (w_clock w - response_begin)" by (intro next_ema_pos) simp
  moreover obtain a where a: "kh_abs (lib_lrt L) s (Backend_ToString (lib_env L) b) = Some a" using assms(4) by blast
  moreover have "next_ema (atw_alpha a) (response_time_ema a) (w_clock w - response_begin) = response_time_ema a"
    using assms(3) a unfolding told_documented_lrt [OF assms(2)] by blast
  moreover have "atw_alpha a = rnd (9 / 10)" "response_time_ema a = 0"
    using assms(1,2) fresh_world [OF _ a, of "lib_env L" bs] by (auto simp: lrt_world_def)
  ultimately show False by simp
qed

lemma lrt_world_add:
  assumes "lrt_world L V bs w rs"
    and "told_documented L OnResponseReceive (Some (LeastResponseTimeCallbacks b response_begin response_end)) w"
  shows "lrt_world L V bs (on_least_response_time (AddResponseTime (lib_lrt L) (lib_env L) b (w_clock w - response_begin)) w)
    (rs @ [(b, w_clock w - response_begin)])"
proof -
  from assms(1) obtain s where s: "w_selector w = LeastResponseTimeS s" "lrt_ok (lib_lrt L) (view_lrt V) (lib_env L) s"
    by (auto simp: lrt_world_def)
  have "audit_kept (backends_heap (AddResponseTime (audited ResponseTimeEMACompare (lib_lrt L)) (lib_env L) b (w_clock w - response_begin) (kh_audit s)))"
    using assms(2) unfolding told_documented_lrt [OF s(1)] lrt_Add_audit by blast
  from lrt_Add_documented [OF s(2) this] assms(1) documented_no_time [OF assms(1) s(1) assms(2)] show ?thesis
    by (auto simp: lrt_world_def on_least_response_time_def s(1))
qed

subsection \<open>Every step keeps the account\<close>

lemma lrt_seek:
  assumes "lrt_world L V bs w rs"
  shows "lrt_world L V bs (snd (seek_backend L peer w)) rs"
proof (cases peer)
  case (Inr client)
  from assms obtain s where s: "w_selector w = LeastResponseTimeS s" by (auto simp: lrt_world_def)
  obtain r where "lrt_SelectBackend (lib_lrt L) s client = (r, s)"
    by (cases "h_empty (lib_lrt L) (backends_heap s)") (simp_all add: lrt_SelectBackend_def)
  then have "SelectBackend L (w_selector w) client = (r, w_selector w)" by (simp add: SelectBackend_def s)
  then have "w_selector (snd (seek_backend L peer w)) = w_selector w"
    by (auto simp: seek_backend_def MakeAndRunSession_def Inr split: sum.splits backend.splits)
  with assms show ?thesis using lrt_world_cong by blast
qed (use assms in \<open>simp add: seek_backend_def MakeAndRunSession_def\<close>)

lemma lrt_exclude:
  assumes "lrt_world L V bs w rs"
  shows "lrt_world L V bs (snd (exclude_and_retry L b w)) rs"
proof -
  let ?key = "Backend_ToString (lib_env L) b"
  from assms obtain s where s: "w_selector w = LeastResponseTimeS s" "lrt_ok (lib_lrt L) (view_lrt V) (lib_env L) s"
    "kh_abs (lib_lrt L) s \<subseteq>\<^sub>m fresh_elems (lib_env L) new_average bs"
    "\<forall>(b, t) \<in> set rs. kh_abs (lib_lrt L) s (Backend_ToString (lib_env L) b) \<noteq> None \<longrightarrow> sint t < 1" by (auto simp: lrt_world_def)
  obtain r t where t: "kh_exclude (lib_lrt L) (lib_env L) s b = (r, t)" by fastforce
  have "lrt_ok (lib_lrt L) (view_lrt V) (lib_env L) t \<and> kh_abs (lib_lrt L) t \<subseteq>\<^sub>m kh_abs (lib_lrt L) s"
  proof (cases "kh_abs (lib_lrt L) s ?key")
    case None
    with t s kh_exclude_gone [OF this] show ?thesis by simp
  next
    case (Some v)
    then have "kh_abs (lib_lrt L) s ?key \<noteq> None" by simp
    from kh_exclude_abs [OF s(2) this] t show ?thesis by (auto simp: map_le_def)
  qed
  note t_ok = this [THEN conjunct1] and le = this [THEN conjunct2]
  have "kh_abs (lib_lrt L) s key \<noteq> None" if "kh_abs (lib_lrt L) t key \<noteq> None" for key
    using le that by (force simp: map_le_def)
  with s(4) have "\<forall>(b, x) \<in> set rs. kh_abs (lib_lrt L) t (Backend_ToString (lib_env L) b) \<noteq> None \<longrightarrow> sint x < 1" by blast
  with t_ok map_le_trans [OF le s(3)] have "lrt_world L V bs (w\<lparr>w_selector := LeastResponseTimeS t\<rparr>) rs" by (auto simp: lrt_world_def)
  then show ?thesis
    by (cases r) (simp_all add: exclude_and_retry_def s(1) ExcludeBackend_def lrt_ExcludeBackend_def t)
qed

lemma lrt_told_other:
  assumes "lrt_world L V bs w rs" and "n \<noteq> OnResponseReceive \<or> v = None \<or> (\<exists>b. v = Some (LeastConnectionsCallbacks b))"
  shows "lrt_world L V bs (snd (told (visitor_call L) n (v, w))) rs"
proof (cases v)
  case (Some u)
  from assms(1) obtain s where s: "w_selector w = LeastResponseTimeS s" by (auto simp: lrt_world_def)
  with assms Some have "w_selector (snd (visitor_call L n u w)) = w_selector w"
    by (cases u; cases n) (auto simp: visitor_call_def on_least_connections_def)
  with assms(1) Some show ?thesis using lrt_world_cong by (simp add: told_def) blast
qed (use assms in \<open>simp add: told_def\<close>)

lemma lrt_run_session:
  assumes "lrt_world L V bs w rs"
  shows "lrt_world L V bs (snd (run_session L b w)) rs"
proof -
  have "w_selector (snd (MakeSession b w)) = w_selector w"
    by (simp add: MakeSession_def Let_def case_prod_unfold)
  with assms have m: "lrt_world L V bs (snd (MakeSession b w)) rs" using lrt_world_cong by blast
  have "snd (run_session L b w) = snd (view (snd (session_Run (visitor_call L) (MakeSession b w))))"
    by (auto simp: run_session_def split: prod.splits sum.splits)
  with lrt_told_other [OF m, of OnConnect] show ?thesis unfolding session_Run_effects(3) by simp
qed

lemma lrt_attempt:
  assumes "lrt_world L V bs w rs"
  shows "lrt_world L V bs (snd (attempt_done L ec a w)) rs"
  using assms lrt_run_session [OF assms] lrt_exclude [OF assms]
  by (cases a) (auto simp: attempt_done_def HandleIpConnect_def HandleResolve_def HandleUrlConnect_def)

lemma lrt_handler:
  assumes "run_handler R (visitor_call L) out c (x, w) = (r, x', w')" and "lrt_world L V bs w rs"
    and "completion_ec c = Success \<Longrightarrow> told_documented L (announcement c) (session_visitor x) w"
  shows "lrt_world L V bs w' (rs @ response_times (w_clock w) x c)"
  using assms(1)
proof (cases rule: handler_view)
  case succeeded
  then have w': "w' = snd (told (visitor_call L) (announcement c) (session_visitor x, w))" by (metis snd_conv fst_conv)
  show ?thesis
  proof (cases "\<exists>m rest b t u. c = ServerReadDone Success m rest \<and> session_visitor x = Some (LeastResponseTimeCallbacks b t u)")
    case True
    then obtain m rest b t u where c: "c = ServerReadDone Success m rest" "session_visitor x = Some (LeastResponseTimeCallbacks b t u)"
      by blast
    with assms(3) have "told_documented L OnResponseReceive (Some (LeastResponseTimeCallbacks b t u)) w"
      by (simp add: completion_ec_def announcement_def)
    from lrt_world_add [OF assms(2) this] c show ?thesis by (simp add: w' announcement_def told_def visitor_call_def)
  next
    case False
    then have none: "response_times (w_clock w) x c = []"
      by (cases "(w_clock w, x, c)" rule: response_times.cases) (auto split: option.splits visitor.splits)
    have "announcement c \<noteq> OnResponseReceive \<or> session_visitor x = None \<or>
        (\<exists>b. session_visitor x = Some (LeastConnectionsCallbacks b))"
      using False succeeded(1)
      by (cases c; cases "session_visitor x") (auto simp: announcement_def completion_ec_def intro: visitor.exhaust)
    from lrt_told_other [OF assms(2) this] show ?thesis by (simp add: w' none)
  qed
next
  case failed
  then have none: "response_times (w_clock w) x c = []"
    by (cases "(w_clock w, x, c)" rule: response_times.cases) (auto simp: completion_ec_def)
  from failed(2) have "w' = w \<or> w' = snd (told (visitor_call L) OnDisconnect (session_visitor x, w))"
    by (metis snd_conv fst_conv)
  with lrt_told_other [OF assms(2), of OnDisconnect "session_visitor x"] assms(2) show ?thesis by (auto simp: none)
qed

text \<open>The time measured is the one between the completion of writing the request to the backend and
  the completion of reading its response, whatever happened in the world in between.\<close>

lemma response_time_measured:
  assumes "run_handler R (visitor_call L) out (ServerWriteDone Success) (x, w) = (r, y, w')"
    and "session_visitor x = Some (LeastResponseTimeCallbacks b t u)"
  shows "response_times now y (ServerReadDone Success m rest) = [(b, now - w_clock w)]"
  using assms(1)
proof (cases rule: handler_view)
  case succeeded
  from succeeded(4) assms(2) have "session_visitor y = Some (LeastResponseTimeCallbacks b (w_clock w) u)"
    by (simp add: announcement_def told_def visitor_call_def)
  then show ?thesis by simp
qed (simp add: completion_ec_def)

lemma lrt_step:
  assumes "sys_step R L S ev T" and "lrt_world L V bs (sys_world S) (sys_times S)" and "heap_calls_documented R L S ev"
  shows "lrt_world L V bs (sys_world T) (sys_times T)"
  using assms(1)
proof cases
  case (accept ec local)
  with assms(2) show ?thesis by (simp add: on_accept_def split: prod.splits)
next
  case (attempt i ec)
  with lrt_attempt [OF assms(2)] show ?thesis by (simp add: on_attempt_def Let_def)
next
  case (select peer)
  with lrt_seek [OF assms(2)] show ?thesis by (simp add: on_select_def)
next
  case (session i c out)
  obtain r x w where h: "run_handler R (visitor_call L) out c (sys_sessions S ! i, sys_world S) = (r, x, w)" by (metis prod.collapse)
  have "told_documented L (announcement c) (session_visitor (sys_sessions S ! i)) (sys_world S)" if "completion_ec c = Success"
    using assms(3) run_handler_success [OF that, of R "visitor_call L" out "(sys_sessions S ! i, sys_world S)"] that
    unfolding session(1) documented_session by auto
  from lrt_handler [OF h assms(2) this] show ?thesis
    unfolding session(2) by (auto simp: on_session_def h Let_def split: sum.splits)
next
  case (destroy j out)
  let ?x = "sys_closing S ! j"
  obtain f x w where h: "HttpSession_dtor (visitor_call L) out (?x, sys_world S) = (f, x, w)" by (metis prod.collapse)
  from dtor_view [OF h] have "w = sys_world S \<or> w = snd (told (visitor_call L) OnDisconnect (session_visitor ?x, sys_world S))"
    by (metis snd_conv fst_conv)
  with lrt_told_other [OF assms(2), of OnDisconnect "session_visitor ?x"] assms(2) show ?thesis
    unfolding destroy(2) by (auto simp: on_destroy_def h)
next
  case (tick t)
  with assms(2) show ?thesis by (simp add: on_tick_def lrt_world_def)
next
  case stop
  with assms(2) show ?thesis by simp
qed

lemma lrt_reach:
  "sys_reach R L (heap_calls_documented R L) S T \<Longrightarrow> lrt_world L V bs (sys_world S) (sys_times S) \<Longrightarrow>
    lrt_world L V bs (sys_world T) (sys_times T)"
  by (induction rule: sys_reach.induct) (auto intro: lrt_step)

subsection \<open>The first response that takes time\<close>

text \<open>C10. Least response time leaves the contract of its heap with the first response that takes time.
  In every state the balancer reaches with all calls of the heap as documented, every average of the
  pool is still zero, and no response of a backend still in the pool was measured to take a
  nanosecond or more; and the step in which a session of a backend of the pool has read a response
  that took that long calls \<^verbatim>\<open>increase\<close> for an element whose priority has fallen.\<close>

theorem lrt_first_response_leaves_contract:
  fixes L :: "('a, 'h, 'k, 'l, 'm) libs" and V :: "('a, 'h, 'k, 'l, 'm) views"
  assumes "heap_laws ResponseTimeEMACompare (lib_lrt L) (view_lrt V)"
    and "endpoints_of Y ''Least response time endpoints node is missed'' node = Inr eps"
    and "denotes (lib_env L) Y eps bs" and "distinct (map (Backend_ToString (lib_env L)) bs)"
    and "lrt_Configure (lib_lrt L) (lib_env L) Y node (kh_new (lib_lrt L)) = Inr s"
    and "sys_reach R L (heap_calls_documented R L) (balancer_start a (LeastResponseTimeS s)) S"
  shows "\<exists>t. w_selector (sys_world S) = LeastResponseTimeS t \<and>
    (\<forall>v \<in> ran (kh_abs (lib_lrt L) t). response_time_ema v = 0) \<and>
    (\<forall>(b, time) \<in> set (sys_times S). kh_abs (lib_lrt L) t (Backend_ToString (lib_env L) b) \<noteq> None \<longrightarrow> sint time < 1) \<and>
    (\<forall>i b response_begin response_end m rest out. i < length (sys_sessions S) \<and>
      session_visitor (sys_sessions S ! i) = Some (LeastResponseTimeCallbacks b response_begin response_end) \<and>
      kh_abs (lib_lrt L) t (Backend_ToString (lib_env L) b) \<noteq> None \<and> 1 \<le> sint (w_clock (sys_world S) - response_begin) \<longrightarrow>
      \<not> heap_calls_documented R L S (SessionDone i out (ServerReadDone Success m rest)))"
proof -
  from lrt_Configure_abs [OF assms(1-4)] assms(5)
  have "lrt_ok (lib_lrt L) (view_lrt V) (lib_env L) s" "kh_abs (lib_lrt L) s = fresh_elems (lib_env L) new_average bs" by auto
  then have "lrt_world L V bs (sys_world (balancer_start a (LeastResponseTimeS s))) (sys_times (balancer_start a (LeastResponseTimeS s)))"
    by (simp add: lrt_world_def balancer_start_def)
  from lrt_reach [OF assms(6) this] have world: "lrt_world L V bs (sys_world S) (sys_times S)" .
  then obtain t where t: "w_selector (sys_world S) = LeastResponseTimeS t"
    "kh_abs (lib_lrt L) t \<subseteq>\<^sub>m fresh_elems (lib_env L) new_average bs"
    "\<forall>(b, time) \<in> set (sys_times S). kh_abs (lib_lrt L) t (Backend_ToString (lib_env L) b) \<noteq> None \<longrightarrow> sint time < 1"
    by (auto simp: lrt_world_def)
  have "\<not> heap_calls_documented R L S (SessionDone i out (ServerReadDone Success m rest))"
    if i: "session_visitor (sys_sessions S ! i) = Some (LeastResponseTimeCallbacks b response_begin response_end)"
      "kh_abs (lib_lrt L) t (Backend_ToString (lib_env L) b) \<noteq> None" "1 \<le> sint (w_clock (sys_world S) - response_begin)"
    for i b response_begin response_end m rest out
  proof
    let ?c = "ServerReadDone Success m rest"
    assume "heap_calls_documented R L S (SessionDone i out ?c)"
    moreover have "completion_ec ?c = Success" by (simp add: completion_ec_def)
    note run_handler_success [OF this, of R "visitor_call L" out "(sys_sessions S ! i, sys_world S)"]
    ultimately have "told_documented L OnResponseReceive (Some (LeastResponseTimeCallbacks b response_begin response_end)) (sys_world S)"
      unfolding documented_session i(1) by (auto simp: completion_ec_def announcement_def)
    from documented_no_time [OF world t(1) this i(2)] i(3) show False by simp
  qed
  moreover have "\<forall>v \<in> ran (kh_abs (lib_lrt L) t). response_time_ema v = 0"
    using fresh_world(2) [OF t(2)] by (auto simp: ran_def)
  ultimately show ?thesis using t(1,3) by blast
qed

text \<open>One client accepted and its request sent; the response takes 1000 nanoseconds.\<close>

definition sample_awaiting :: "sample_system \<Rightarrow> sample_system" where
  "sample_awaiting S =
     on_tick 1000
       (on_session appending sample_libs 0 all_well (ServerWriteDone Success)
         (on_session appending sample_libs 0 all_well (ClientReadDone Success (sample_message ''GET /'' []) [])
           (on_attempt sample_libs 0 Success
             (on_select sample_libs (Inr (sample_ep ''::1'' 1)) (on_accept Success (Inr ()) S)))))"

abbreviation sample_lrt_start :: "(sample_addr AverageTimeWrapper lheap, nat) LeastResponseTimeSelector \<Rightarrow> sample_system" where
  "sample_lrt_start s \<equiv> balancer_start sample_acceptor (LeastResponseTimeS s)"

lemma sample_awaiting_reach:
  assumes "lrt_SelectBackend sample_lrt_heap s (sample_ep ''::1'' 1) = (Inr (EndpointB ep), s)"
  shows "sys_reach appending sample_libs (heap_calls_documented appending sample_libs) (sample_lrt_start s) (sample_awaiting (sample_lrt_start s))"
    and "w_selector (sys_world (sample_awaiting (sample_lrt_start s))) = LeastResponseTimeS s"
    and "w_clock (sys_world (sample_awaiting (sample_lrt_start s))) = 1000"
    and "\<exists>z. sys_sessions (sample_awaiting (sample_lrt_start s)) = [z] \<and>
      session_visitor z = Some (LeastResponseTimeCallbacks (EndpointB ep) 0 0)"
proof -
  let ?b = "EndpointB ep" and ?m = "sample_message ''GET /'' []" and ?doc = "heap_calls_documented appending sample_libs"
  have lrt: "lib_lrt sample_libs = sample_lrt_heap" by (simp add: sample_libs_def)
  define T0 where "T0 = sample_lrt_start s"
  define T1 where "T1 = on_accept Success (Inr ()) T0"
  define T2 where "T2 = on_select sample_libs (Inr (sample_ep ''::1'' 1)) T1"
  define T3 where "T3 = on_attempt sample_libs 0 Success T2"
  define T4 where "T4 = on_session appending sample_libs 0 all_well (ClientReadDone Success ?m []) T3"
  define T5 where "T5 = on_session appending sample_libs 0 all_well (ServerWriteDone Success) T4"
  define T6 where "T6 = on_tick 1000 T5"
  have T1: "begins T0" "acc_waiting (sys_acceptor T0)" "begins T1" "sys_selecting T1 > 0" "sys_attempts T1 = []" "sys_sessions T1 = []"
    "sys_world T1 = \<lparr>w_selector = LeastResponseTimeS s, w_clock = 0, w_next_id = 0\<rparr>"
    by (simp_all add: T1_def T0_def on_accept_def HandleAccept_def settle_simps begins_def balancer_start_def Acceptor_Run_def DoAccept_def)
  have T2: "begins T2" "sys_attempts T2 = [ConnectingIp ep ?b]" "sys_sessions T2 = []" "sys_world T2 = sys_world T1"
    using T1 assms
    by (simp_all add: T2_def on_select_def settle_simps begins_def seek_backend_def MakeAndRunSession_def SelectBackend_def lrt)
  define x where "x = HttpSession_ctor 0 (Some (LeastResponseTimeCallbacks ?b 0 0))"
  have T3: "begins T3" "sys_sessions T3 = [x\<lparr>pending := Some ReadClient\<rparr>]" "w_clock (sys_world T3) = 0"
    "w_selector (sys_world T3) = LeastResponseTimeS s"
    using T1 T2
    by (simp_all add: T3_def on_attempt_def Let_def attempt_done_def HandleIpConnect_def run_session_def settle_simps begins_def
        MakeSession_def generateId_def selector_Type_def lrt_Type_def x_def session_defs HttpSession_ctor_def visitor_call_def
        clear_fields_def empty_message_def)
  have T4: "begins T4" "\<exists>y. sys_sessions T4 = [y] \<and> pending y = Some (WriteServer ?m) \<and>
      session_visitor y = Some (LeastResponseTimeCallbacks ?b 0 0)" "w_clock (sys_world T4) = 0"
    "w_selector (sys_world T4) = LeastResponseTimeS s"
    using T3
    by (simp_all add: T4_def on_session_def Let_def x_def session_defs HttpSession_ctor_def visitor_call_def begins_def)
  obtain y where y: "sys_sessions T4 = [y]" "pending y = Some (WriteServer ?m)"
    "session_visitor y = Some (LeastResponseTimeCallbacks ?b 0 0)" using T4(2) by blast
  have T5: "begins T5" "\<exists>z. sys_sessions T5 = [z] \<and> session_visitor z = Some (LeastResponseTimeCallbacks ?b 0 0)"
    "w_clock (sys_world T5) = 0" "w_selector (sys_world T5) = LeastResponseTimeS s"
    using T4 y by (simp_all add: T5_def on_session_def Let_def session_defs visitor_call_def begins_def)
  have st: "sys_step appending sample_libs T0 (AcceptDone Success (Inr ())) T1"
    "sys_step appending sample_libs T1 (SelectNow (Inr (sample_ep ''::1'' 1))) T2"
    "sys_step appending sample_libs T2 (AttemptDone 0 Success) T3"
    "sys_step appending sample_libs T3 (SessionDone 0 all_well (ClientReadDone Success ?m [])) T4"
    "sys_step appending sample_libs T4 (SessionDone 0 all_well (ServerWriteDone Success)) T5"
    "sys_step appending sample_libs T5 (Tick 1000) T6"
    using T1 T2 T3 T4 T5 y unfolding T6_def
    by (simp_all add: sys_step_accept sys_step_select sys_step_attempt sys_step_session sys_step.tick begins_def
        T1_def [symmetric] T2_def [symmetric] T3_def [symmetric] T4_def [symmetric] T5_def [symmetric])
  have doc: "?doc T3 (SessionDone 0 all_well (ClientReadDone Success ?m []))" "?doc T4 (SessionDone 0 all_well (ServerWriteDone Success))"
    by (simp_all add: documented_session told_documented_lrt [OF T3(4)] told_documented_lrt [OF T4(4)] completion_ec_def announcement_def)
  note after = sys_reach.after [where I = ?doc]
  from after [OF after [OF after [OF sys_reach.here st(1) documented_simps(1)] st(2) documented_simps(2)] st(3) documented_simps(3)]
  have "sys_reach appending sample_libs ?doc T0 T3" .
  from after [OF after [OF after [OF this st(4) doc(1)] st(5) doc(2)] st(6) documented_simps(4)]
  have "sys_reach appending sample_libs ?doc T0 T6" .
  moreover have T6: "sample_awaiting T0 = T6"
    unfolding sample_awaiting_def T6_def T5_def T4_def T3_def T2_def T1_def ..
  ultimately show "sys_reach appending sample_libs ?doc (sample_lrt_start s) (sample_awaiting (sample_lrt_start s))"
    unfolding T0_def by simp
  show "w_selector (sys_world (sample_awaiting (sample_lrt_start s))) = LeastResponseTimeS s"
    "w_clock (sys_world (sample_awaiting (sample_lrt_start s))) = 1000"
    "\<exists>z. sys_sessions (sample_awaiting (sample_lrt_start s)) = [z] \<and> session_visitor z = Some (LeastResponseTimeCallbacks ?b 0 0)"
    using T5 unfolding T0_def [symmetric] T6 by (simp_all add: T6_def on_tick_def)
qed

theorem lrt_first_response_leaves_contract_witness:
  "\<exists>s. lrt_Configure sample_lrt_heap sample_env sample_yaml sample_node (kh_new sample_lrt_heap) = Inr s \<and>
    sys_reach appending sample_libs (heap_calls_documented appending sample_libs) (sample_lrt_start s) (sample_awaiting (sample_lrt_start s)) \<and>
    \<not> heap_calls_documented appending sample_libs (sample_awaiting (sample_lrt_start s))
      (SessionDone 0 all_well (ServerReadDone Success (sample_message ''GET /'' []) []))"
proof -
  have libs: "lib_lrt sample_libs = sample_lrt_heap" "view_lrt sample_views = sample_lrt_view" "lib_env sample_libs = sample_env"
    by (simp_all add: sample_libs_def sample_views_def)
  from lrt_Configure_abs [OF sample_lrt_laws sample_endpoints sample_denotes sample_distinct] obtain s
    where s: "lrt_Configure sample_lrt_heap sample_env sample_yaml sample_node (kh_new sample_lrt_heap) = Inr s"
    and ok: "lrt_ok sample_lrt_heap sample_lrt_view sample_env s" "kh_abs sample_lrt_heap s = fresh_elems sample_env new_average sample_bs"
    by blast
  from lrt_pool_fresh [OF ok(2) sample_distinct] have pool: "kh_pool atw_backend sample_lrt_heap s = set sample_bs" .
  then have "kh_abs sample_lrt_heap s \<noteq> Map.empty" using sample_bs_not_Nil by auto
  from lrt_Select_abs [OF ok(1) this, of "sample_ep ''::1'' 1"] obtain w where
    w: "kh_abs sample_lrt_heap s (Backend_ToString sample_env (atw_backend w)) = Some w"
      "lrt_SelectBackend sample_lrt_heap s (sample_ep ''::1'' 1) = (Inr (atw_backend w), s)" by metis
  from w(1) pool have "atw_backend w \<in> set sample_bs" by (auto intro: ranI)
  then obtain ep where ep: "atw_backend w = EndpointB ep" by (auto simp: sample_bs_def)
  with w(2) have "lrt_SelectBackend sample_lrt_heap s (sample_ep ''::1'' 1) = (Inr (EndpointB ep), s)" by simp
  note reach = sample_awaiting_reach [OF this]
  define S where "S = sample_awaiting (sample_lrt_start s)"
  have dist: "distinct (map (Backend_ToString (lib_env sample_libs)) sample_bs)" using sample_distinct by (simp add: libs)
  from lrt_first_response_leaves_contract [where L = sample_libs and V = sample_views and R = appending, unfolded libs, OF sample_lrt_laws
      sample_endpoints sample_denotes dist [unfolded libs] s reach(1), folded S_def]
  obtain t where t: "w_selector (sys_world S) = LeastResponseTimeS t"
    and undoc: "\<forall>i b response_begin response_end m rest out. i < length (sys_sessions S) \<and>
      session_visitor (sys_sessions S ! i) = Some (LeastResponseTimeCallbacks b response_begin response_end) \<and>
      kh_abs sample_lrt_heap t (Backend_ToString sample_env b) \<noteq> None \<and> 1 \<le> sint (w_clock (sys_world S) - response_begin) \<longrightarrow>
      \<not> heap_calls_documented appending sample_libs S (SessionDone i out (ServerReadDone Success m rest))"
    by (elim exE conjE) (rule that)
  from t reach(2,3) have ts: "t = s" "w_clock (sys_world S) = 1000" unfolding S_def by simp_all
  obtain z where z: "sys_sessions S = [z]" "session_visitor z = Some (LeastResponseTimeCallbacks (EndpointB ep) 0 0)"
    using reach(4) unfolding S_def by blast
  have "\<not> heap_calls_documented appending sample_libs S (SessionDone 0 all_well (ServerReadDone Success (sample_message ''GET /'' []) []))"
    by (rule undoc [rule_format, of _ "EndpointB ep" 0 0]) (use z w(1) ep ts in simp_all)
  with s reach(1) show ?thesis unfolding S_def by blast
qed

end
