(* ===== verification/Session_Numbers.thy ===== *)
theory Session_Numbers
  imports Balancer_Safety
begin

section \<open>The numbers of the sessions\<close>

text \<open>
  \<^verbatim>\<open>generateId\<close> draws session numbers from one counter of 64 bits that wraps. This theory
  shows that the sessions of a running balancer never share a number, up to a bound on the length of
  the run: nothing but \<^verbatim>\<open>MakeSession\<close> draws a number, and nothing changes that of a session.
\<close>

subsection \<open>What keeps the number of a session and the counter\<close>

lemma action_ids:
  "session_id (fst (snd (notify call n x))) = session_id (fst x)"
  "session_id (fst (snd (close_client o1 x))) = session_id (fst x)"
  "session_id (fst (snd (close_server o2 x))) = session_id (fst x)"
  "session_id (fst (snd (log_error ec x))) = session_id (fst x)"
  by (auto simp: notify_def close_client_def close_server_def log_error_def split: prod.splits option.splits)

lemma Cancel_id: "session_id (fst (snd (session_Cancel call out x))) = session_id (fst x)"
  by (auto simp: session_Cancel_def seq_def split: prod.splits sum.splits) (metis action_ids fst_conv snd_conv)+

lemma handler_id: "session_id (fst (snd (run_handler R call out c x))) = session_id (fst x)"
proof (cases "completion_ec c = Success")
  case True
  from run_handler_success [OF True, of R call out x] obtain y where y: "run_handler R call out c x = (Inr (), y)"
    "sans_visitor (fst y) = sans_visitor (advance R (fst x) c)" by blast
  have "session_id (fst y) = session_id (advance R (fst x) c)"
    using arg_cong [OF y(2), of session_id] by (simp add: sans_visitor_def)
  also have "\<dots> = session_id (fst x)" by (cases c) simp_all
  finally show ?thesis by (simp add: y(1))
next
  case False
  obtain s w where x: "x = (s, w)" by fastforce
  show ?thesis unfolding x run_handler_error [OF False] Cancel_id action_ids by simp
qed

lemma visitor_keeps_counter: "w_next_id (snd (visitor_call L n v w)) = w_next_id w"
proof -
  have "w_next_id (lc_callback L n b w) = w_next_id w" for b
    by (cases n) (auto simp: on_least_connections_def split: selector.split)
  moreover have "w_next_id (snd (lrt_callback L n b t u w)) = w_next_id w" for b t u
    by (cases n) (auto simp: on_least_response_time_def split: selector.split)
  ultimately show ?thesis by (cases v) (simp_all add: visitor_call_def)
qed

lemma told_keeps_counter: "w_next_id (snd (told (visitor_call L) n (v, w))) = w_next_id w"
  by (cases v) (simp_all add: told_def visitor_keeps_counter)

lemma view_keeps_counter:
  "view y = view (x, w) \<or> (\<exists>n. view y = told (visitor_call L) n (view (x, w))) \<Longrightarrow> w_next_id (snd y) = w_next_id w"
  by (metis snd_conv fst_conv told_keeps_counter)

lemma handler_keeps_counter:
  assumes "run_handler R (visitor_call L) out c (x, w) = (r, y)"
  shows "w_next_id (snd y) = w_next_id w"
proof (rule view_keeps_counter)
  show "view y = view (x, w) \<or> (\<exists>n. view y = told (visitor_call L) n (view (x, w)))"
    using assms by (rule handler_view) blast+
qed

lemma run_session_number:
  "\<exists>s. fst (run_session L b w) = Inr (Running s) \<and> session_id s = w_next_id w \<and>
    w_next_id (snd (run_session L b w)) = w_next_id w + 1"
proof -
  let ?m = "MakeSession b w"
  have m: "session_id (fst ?m) = w_next_id w" "w_next_id (snd ?m) = w_next_id w + 1"
    by (simp_all add: MakeSession_def generateId_def HttpSession_ctor_def)
  have "session_id (fst (snd (session_Run (visitor_call L) ?m))) = session_id (fst ?m)"
    by (auto simp: session_Run_def seq_def ClientRead_def split: prod.splits sum.splits) (metis action_ids(1) fst_conv snd_conv)+
  moreover have "w_next_id (snd (snd (session_Run (visitor_call L) ?m))) = w_next_id (snd ?m)"
    using arg_cong [OF session_Run_effects(3) [of "visitor_call L" ?m], of snd]
    by simp (metis told_keeps_counter)
  ultimately show ?thesis
    using m session_Run_effects(1) [of "visitor_call L" ?m] by (simp add: run_session_def case_prod_unfold)
qed

subsection \<open>The numbers in use\<close>

definition numbers :: "('a, 'h, 'k, 'l, 'm) system \<Rightarrow> (64 word) list" where
  "numbers S = map session_Id (sys_sessions S @ sys_closing S)"

definition next_number :: "('a, 'h, 'k, 'l, 'm) system \<Rightarrow> 64 word" where
  "next_number S = w_next_id (sys_world S)"

text \<open>A step draws the next number for a new session, or at most lets numbers go.\<close>

definition draws :: "('a, 'h, 'k, 'l, 'm) system \<Rightarrow> ('a, 'h, 'k, 'l, 'm) system \<Rightarrow> bool" where
  "draws S T \<longleftrightarrow>
     next_number T = next_number S \<and> mset (numbers T) \<subseteq># mset (numbers S) \<or>
     next_number T = next_number S + 1 \<and> mset (numbers T) = add_mset (next_number S) (mset (numbers S))"

lemma seek_draws_none:
  "w_next_id (snd (seek_backend L peer w)) = w_next_id w" "fst (seek_backend L peer w) \<noteq> Inr (Running s)"
  by (auto simp: seek_backend_def MakeAndRunSession_def split: sum.splits prod.splits backend.splits)

lemma exclude_draws_none:
  "w_next_id (snd (exclude_and_retry L b w)) = w_next_id w" "fst (exclude_and_retry L b w) \<noteq> Inr (Running s)"
  by (auto simp: exclude_and_retry_def split: sum.splits prod.splits)

lemma attempt_draws:
  obtains (running) s where "fst (attempt_done L ec a w) = Inr (Running s)" and "session_id s = w_next_id w"
      and "w_next_id (snd (attempt_done L ec a w)) = w_next_id w + 1"
  | (other) "\<And>s. fst (attempt_done L ec a w) \<noteq> Inr (Running s)" and "w_next_id (snd (attempt_done L ec a w)) = w_next_id w"
proof -
  have "(\<exists>s. fst (attempt_done L ec a w) = Inr (Running s) \<and> session_id s = w_next_id w \<and>
      w_next_id (snd (attempt_done L ec a w)) = w_next_id w + 1) \<or>
    (\<forall>s. fst (attempt_done L ec a w) \<noteq> Inr (Running s)) \<and> w_next_id (snd (attempt_done L ec a w)) = w_next_id w"
    using run_session_number [of L "attempt_backend a" w] exclude_draws_none [of L "attempt_backend a" w]
    by (cases a) (auto simp: attempt_done_def HandleIpConnect_def HandleResolve_def HandleUrlConnect_def)
  with that show thesis by blast
qed

lemma draws_settle:
  assumes "\<And>s. fst x \<noteq> Inr (Running s)" and "w_next_id (snd x) = next_number S" and "numbers S' = numbers S"
  shows "draws S (settle x S')"
proof -
  have "numbers (settle x S') = numbers S"
    using assms(1,3) by (auto simp: numbers_def settle_simps split: sum.splits reaction.splits)
  with assms(2) show ?thesis by (simp add: draws_def next_number_def)
qed

lemma mset_map_erase_at: "i < length xs \<Longrightarrow> add_mset (f (xs ! i)) (mset (map f (erase_at i xs))) = mset (map f xs)"
proof -
  assume "i < length xs"
  then have "mset (map f xs) = mset (map f (take i xs @ xs ! i # drop (Suc i) xs))" by (simp only: id_take_nth_drop [symmetric])
  then show ?thesis by (simp add: erase_at_def)
qed

lemma draws_step:
  fixes L :: "('a, 'h, 'k, 'l, 'm) libs"
  assumes "sys_step R L S ev T"
  shows "draws S T"
  using assms
proof cases
  case (accept ec local)
  obtain r :: "'a reaction result" and a where h: "HandleAccept ec local ((sys_acceptor S)\<lparr>acc_waiting := False\<rparr>) = (r, a)"
    by fastforce
  then have "r \<noteq> Inr (Running s)" for s by (auto simp: HandleAccept_def Let_def split: if_splits sum.splits)
  then show ?thesis unfolding accept(2) on_accept_def h by (simp, intro draws_settle) (simp_all add: next_number_def numbers_def)
next
  case (attempt i ec)
  let ?x = "attempt_done L ec (sys_attempts S ! i) (sys_world S)"
  from attempt_draws [of L ec "sys_attempts S ! i" "sys_world S"] show ?thesis
  proof cases
    case (running s)
    then show ?thesis
      by (simp add: attempt(2) on_attempt_def Let_def draws_def numbers_def next_number_def settle_simps session_Id_def)
  next
    case other
    then show ?thesis unfolding attempt(2) on_attempt_def Let_def
      by (intro draws_settle) (simp_all add: next_number_def numbers_def)
  qed
next
  case (select peer)
  show ?thesis unfolding select(2) on_select_def
    by (intro draws_settle) (simp_all add: seek_draws_none next_number_def numbers_def)
next
  case (session i c out)
  let ?s = "sys_sessions S ! i"
  obtain r x w where h: "run_handler R (visitor_call L) out c (?s, sys_world S) = (r, x, w)" by (metis prod.collapse)
  from handler_id [of R "visitor_call L" out c "(?s, sys_world S)"] h have id: "session_id x = session_id ?s" by simp
  from handler_keeps_counter [OF h] have "next_number T = next_number S"
    by (auto simp: session(2) on_session_def h Let_def next_number_def split: sum.splits)
  moreover have "mset (numbers T) = mset (numbers S)"
  proof (cases "pending x = None")
    case True
    then have "mset (numbers T) = add_mset (session_Id ?s) (mset (map session_Id (erase_at i (sys_sessions S)))) + mset (map session_Id (sys_closing S))"
      by (auto simp: session(2) on_session_def h Let_def numbers_def session_Id_def id split: sum.splits)
    also have "\<dots> = mset (numbers S)" using session by (simp only: mset_map_erase_at numbers_def map_append mset_append)
    finally show ?thesis .
  next
    case False
    then have "numbers T = map session_Id ((sys_sessions S)[i := x] @ sys_closing S)"
      by (auto simp: session(2) on_session_def h Let_def numbers_def split: sum.splits)
    moreover have "map session_Id ((sys_sessions S)[i := x]) = (map session_Id (sys_sessions S))[i := map session_Id (sys_sessions S) ! i]"
      using session(4) by (simp add: map_update session_Id_def id)
    ultimately show ?thesis by (simp add: numbers_def)
  qed
  ultimately show ?thesis by (simp add: draws_def)
next
  case (destroy j out)
  obtain f x w where h: "HttpSession_dtor (visitor_call L) out (sys_closing S ! j, sys_world S) = (f, x, w)" by (metis prod.collapse)
  from view_keeps_counter [of "(x, w)" "sys_closing S ! j" "sys_world S" L] dtor_view [OF h]
  have "next_number T = next_number S" by (auto simp: destroy(2) on_destroy_def h next_number_def)
  moreover have "mset (numbers T) \<subseteq># mset (numbers S)"
  proof -
    let ?C = "sys_closing S"
    have "numbers T = map session_Id (sys_sessions S) @ map session_Id (erase_at j ?C)"
      by (simp add: destroy(2) on_destroy_def h numbers_def)
    moreover have "mset (numbers S) = add_mset (session_Id (?C ! j)) (mset (map session_Id (sys_sessions S) @ map session_Id (erase_at j ?C)))"
      using mset_map_erase_at [OF destroy(4), of session_Id] unfolding numbers_def by simp
    ultimately show ?thesis by simp
  qed
  ultimately show ?thesis by (simp add: draws_def)
next
  case (tick t)
  then show ?thesis by (simp add: draws_def numbers_def next_number_def on_tick_def)
next
  case stop
  then show ?thesis by (simp add: draws_def numbers_def next_number_def)
qed

subsection \<open>Numbers are unique\<close>

text \<open>A run of \<open>n\<close> steps.\<close>

inductive sys_run ::
    "reuse \<Rightarrow> ('a, 'h, 'k, 'l, 'm) libs \<Rightarrow> ('a, 'h, 'k, 'l, 'm) system \<Rightarrow> nat \<Rightarrow> ('a, 'h, 'k, 'l, 'm) system \<Rightarrow> bool"
  for R L S where
  none: "sys_run R L S 0 S"
| more: "sys_run R L S n T \<Longrightarrow> sys_step R L T ev U \<Longrightarrow> sys_run R L S (Suc n) U"

text \<open>After \<open>n\<close> steps at most \<open>n\<close> numbers have been drawn, and the numbers in use are different
  ones of those drawn.\<close>

definition numbered :: "nat \<Rightarrow> ('a, 'h, 'k, 'l, 'm) system \<Rightarrow> bool" where
  "numbered n S \<longleftrightarrow> (\<exists>k \<le> n. next_number S = word_of_nat k \<and> distinct (numbers S) \<and>
     set (numbers S) \<subseteq> word_of_nat ` {..<k})"

lemma distinct_mset_mono: "mset ys \<subseteq># mset xs \<Longrightarrow> distinct xs \<Longrightarrow> distinct ys"
proof -
  assume le: "mset ys \<subseteq># mset xs" and "distinct xs"
  then have "count (mset xs) a \<le> 1" for a by (simp add: distinct_count_atmost_1)
  with le have "count (mset ys) a \<le> 1" for a by (meson le_trans mset_subset_eq_count)
  then have "count (mset ys) a = (if a \<in> set ys then 1 else 0)" for a
    by (metis count_greater_eq_one_iff le_antisym not_in_iff set_mset_mset)
  then show ?thesis by (simp add: distinct_count_atmost_1)
qed

lemma numbered_step:
  assumes "draws S T" and "numbered n S" and "n < 2 ^ 64"
  shows "numbered (Suc n) T"
proof -
  from assms(2) obtain k where k: "k \<le> n" "next_number S = word_of_nat k" "distinct (numbers S)"
    "set (numbers S) \<subseteq> word_of_nat ` {..<k}" by (auto simp: numbered_def)
  from assms(1) show ?thesis
    unfolding draws_def
  proof (elim disjE conjE)
    assume T: "next_number T = next_number S" "mset (numbers T) \<subseteq># mset (numbers S)"
    from distinct_mset_mono [OF T(2) k(3)] set_mset_mono [OF T(2)] k T(1) show ?thesis
      unfolding numbered_def by (intro exI [of _ k]) auto
  next
    assume T: "next_number T = next_number S + 1" "mset (numbers T) = add_mset (next_number S) (mset (numbers S))"
    have fresh: "(word_of_nat k :: 64 word) \<notin> word_of_nat ` {..<k}"
      using k(1) assms(3) by (auto simp: word_of_nat_eq_iff take_bit_nat_eq_self)
    from T(2) have "mset (numbers T) = mset (next_number S # numbers S)" by simp
    from mset_eq_imp_distinct_iff [OF this] mset_eq_setD [OF this] k fresh
    have "distinct (numbers T)" "set (numbers T) \<subseteq> word_of_nat ` {..<Suc k}"
      by (auto simp: lessThan_Suc)
    with T(1) k(1,2) show ?thesis unfolding numbered_def by (intro exI [of _ "Suc k"]) simp
  qed
qed

text \<open>C30. No two sessions share a number: after up to \<^verbatim>\<open>2^64\<close> steps of the running balancer,
  whatever they are, the sessions running and those not yet destroyed have different numbers,
  although the counter wraps around.\<close>

theorem session_numbers_distinct:
  assumes "sys_run R L (balancer_start a sel) n S" and "n \<le> 2 ^ 64"
  shows "distinct (map session_Id (sys_sessions S @ sys_closing S))"
proof -
  have "numbered n S"
    using assms
  proof (induction rule: sys_run.induct)
    case none
    show ?case by (simp add: numbered_def numbers_def next_number_def balancer_start_def)
  next
    case (more n T ev U)
    then show ?case by (intro numbered_step [OF draws_step]) auto
  qed
  then show ?thesis by (auto simp: numbered_def numbers_def)
qed

lemma sample_accepted_run:
  "sys_run appending sample_libs R0 n S \<Longrightarrow> begins S \<Longrightarrow> acc_waiting (sys_acceptor S) \<Longrightarrow>
    sys_run appending sample_libs R0 (Suc (Suc n)) (sample_accepted S)"
  using sample_accepted_steps sys_run.more by blast

lemma sample_accepted_sessions: "sys_sessions (sample_accepted S) = sys_sessions S"
proof -
  let ?x = "seek_backend sample_libs (Inr (sample_ep ''::1'' 1)) (sys_world (on_accept Success (Inr ()) S))"
  have "fst ?x \<noteq> Inr (Running s)" for s by (rule seek_draws_none)
  then show ?thesis
    by (auto simp: sample_accepted_def on_select_def on_accept_def HandleAccept_def settle_simps split: sum.splits reaction.splits)
qed

lemma connected:
  assumes "sys_attempts S = ConnectingIp ep b # as" and "begins S"
  shows "sys_step R L S (AttemptDone 0 Success) (on_attempt L 0 Success S) \<and> begins (on_attempt L 0 Success S) \<and>
    sys_attempts (on_attempt L 0 Success S) = as \<and>
    length (sys_sessions (on_attempt L 0 Success S)) = Suc (length (sys_sessions S))"
  using assms run_session_Running [of L b "sys_world S"]
  by (auto simp: sys_step_attempt on_attempt_def Let_def attempt_done_def HandleIpConnect_def settle_simps begins_def)

theorem session_numbers_distinct_witness:
  "\<exists>S. sys_run appending sample_libs sample_rr2_start 6 S \<and> length (sys_sessions S) = 2 \<and>
    distinct (map session_Id (sys_sessions S @ sys_closing S))"
proof -
  have S0: "begins sample_rr2_start" "acc_waiting (sys_acceptor sample_rr2_start)" "sys_sessions sample_rr2_start = []"
    "w_selector (sys_world sample_rr2_start) = RoundRobinS \<lparr>rr_counter = 0, rr_backends = sample_bs\<rparr>"
    by (simp_all add: sample_rr2_start_def balancer_start_def begins_def Acceptor_Run_def DoAccept_def)
  from sample_accepted_rr [OF S0(4) _ S0(1)] have S1: "begins (sample_accepted sample_rr2_start)"
    "acc_waiting (sys_acceptor (sample_accepted sample_rr2_start))" by auto
  from sample_accepted_run [OF sample_accepted_run [OF sys_run.none S0(1,2)] S1]
  have run: "sys_run appending sample_libs sample_rr2_start 4 sample_two" by (simp add: sample_two_def numeral_eq_Suc)
  from sample_two_state obtain ep ep' where two: "begins sample_two"
    "sys_attempts sample_two = [ConnectingIp ep (sample_bs ! 1), ConnectingIp ep' (sample_bs ! 0)]" by blast
  let ?T = "on_attempt sample_libs 0 Success sample_two"
  let ?S = "on_attempt sample_libs 0 Success ?T"
  note T = connected [OF two(2,1), where L = sample_libs and R = appending]
  then have T': "sys_attempts ?T = [ConnectingIp ep' (sample_bs ! 0)]" "begins ?T" by auto
  note S = connected [OF T', where L = sample_libs and R = appending]
  have len: "length (sys_sessions ?S) = Suc (Suc (length (sys_sessions sample_two)))" using S T by simp
  from sys_run.more [OF sys_run.more [OF run T [THEN conjunct1]] S [THEN conjunct1]]
  have reach: "sys_run appending sample_libs sample_rr2_start 6 ?S" by (simp add: numeral_eq_Suc)
  have "distinct (map session_Id (sys_sessions ?S @ sys_closing ?S))"
    by (rule session_numbers_distinct [OF reach [unfolded sample_rr2_start_def]]) simp
  moreover have "sys_sessions sample_two = []" by (simp add: sample_two_def sample_accepted_sessions S0(3))
  ultimately show ?thesis using reach len by (intro exI [of _ ?S]) simp
qed

end
