(* ===== verification/Spec2Isabelle.thy ===== *)
theory Spec2Isabelle
  imports Thread_Pool Balancer_Spec Connection_Accounting Response_Accounting Session_Numbers
begin

text \<open>
  A verification development for \<^verbatim>\<open>lb2\<close>, an asynchronous HTTP load balancer in C++.

  \<^bold>\<open>The program.\<close> \<^verbatim>\<open>run\<close> (\<^verbatim>\<open>src/lb/application.cpp\<close>) reads a YAML configuration,
  builds one of six selectors (\<^verbatim>\<open>src/lb/tcp/selectors.cpp\<close>) and runs the handlers of an
  \<^verbatim>\<open>io_context\<close> in a number of threads. The acceptor (\<^verbatim>\<open>acceptor.cpp\<close>) hands each client
  to the connector (\<^verbatim>\<open>connector.cpp\<close>), which asks the selector for a backend and connects to it;
  a backend that refuses is excluded and the selector asked again. A connected pair of sockets is a
  session (\<^verbatim>\<open>session.cpp\<close>), which forwards requests and responses until an operation fails, and
  tells its visitor; for the selectors that count connections or response times the visitor reports
  back to the selector.

  \<^bold>\<open>The theories.\<close>
  \<^item> \<^verbatim>\<open>LB_Prelude\<close>: exceptions and results, decimal printing, lists and maps.
  \<^item> \<^verbatim>\<open>Regex_Match\<close>, \<^verbatim>\<open>Environment\<close>, \<^verbatim>\<open>Url\<close>, \<^verbatim>\<open>Backend\<close>,
    \<^verbatim>\<open>Yaml_Config\<close>: the regular expression of \<^verbatim>\<open>url.hpp\<close> and the class \<^verbatim>\<open>Url\<close>; the
    class \<^verbatim>\<open>Backend\<close>; the loop that reads the endpoints of a configuration.
  \<^item> \<^verbatim>\<open>Heap_Contract\<close>: what Boost documents of its heap, a heap that watches whether it is
    called as documented, and two heaps that keep the contract.
  \<^item> \<^verbatim>\<open>Selector\<close>: the contract of a selector as the locales \<^verbatim>\<open>backend_selector\<close>,
    \<^verbatim>\<open>excluding_selector\<close> and, for a selector that several handlers share,
    \<^verbatim>\<open>shared_selector\<close> and \<^verbatim>\<open>exact_selector\<close>; and the abstract failover loop with its
    termination and its result, proved once from the contract.
  \<^item> \<^verbatim>\<open>Round_Robin\<close>, \<^verbatim>\<open>Weighted_Round_Robin\<close>, \<^verbatim>\<open>Ip_Hash\<close>, \<^verbatim>\<open>Consistent_Hash\<close> (on
    the ring of \<^verbatim>\<open>third_party/pumba\<close>, \<^verbatim>\<open>Pumba_Router\<close>), \<^verbatim>\<open>Least_Connections\<close> and
    \<^verbatim>\<open>Least_Response_Time\<close> (on \<^verbatim>\<open>Keyed_Heap\<close>): one selector each, with its operations,
    its interpretation of the contract and what its algorithm promises.
  \<^item> \<^verbatim>\<open>Detect_Selector\<close>: the choice of the selector, the virtual calls, and the contract for
    whichever selector was chosen.
  \<^item> \<^verbatim>\<open>Http_Session\<close>: a session, with the operation in flight as part of its state.
  \<^item> \<^verbatim>\<open>Connector\<close>: visitors, connection attempts and their handlers; that they implement the
    abstract failover loop, and that visitors keep the selector's contract as long as they keep that
    of the heap.
  \<^item> \<^verbatim>\<open>Tcp_Acceptor\<close>, \<^verbatim>\<open>Balancer\<close>: the acceptor, and the step relation of the running
    program. A step is the part of a handler between two accesses to what the threads share, so
    that every interleaving of the handlers of several threads is a sequence of steps. That the
    visitor of a session is always the one of its selector's class; and which steps call the heap
    as documented (\<^verbatim>\<open>heap_calls_documented\<close>).
  \<^item> \<^verbatim>\<open>Balancer_Safety\<close>: what no interleaving does as long as a backend is left, and what happens
    when the last backend refuses.
  \<^item> \<^verbatim>\<open>Refinement_Map\<close>, \<^verbatim>\<open>Balancer_Spec\<close>: what it is to implement a specification, as the
    locale \<^verbatim>\<open>refinement_map\<close> on single steps with its consequence for traces; the specification
    of a load balancer, whose state is a pool of backends, the numbers of clients that wait, are
    served and leave, and the attempts in flight; that the running balancer implements it with
    every algorithm, until all backends are excluded or the heap of an algorithm that has one is
    called outside of its contract; and what is proved of the specification and so holds of the
    balancer.
  \<^item> \<^verbatim>\<open>Connection_Accounting\<close>, \<^verbatim>\<open>Response_Accounting\<close>: for least connections the
    invariant that ties the counters to the attempts and sessions of a running balancer, for least
    response time the averages and the times of the responses, in every state reached within the
    contract of the heap; and the steps with which each of them leaves it.
  \<^item> \<^verbatim>\<open>Session_Numbers\<close>: that no two sessions of a running balancer share a number.
  \<^item> \<^verbatim>\<open>Application\<close>: the command line, configuration of logging, threads and acceptor, and how
    the program ends.
  \<^item> \<^verbatim>\<open>Thread_Pool\<close>: the steps of the balancer when the number of threads is counted; that one
    thread is safe to the end, and the race of two on the selector.

  \<^bold>\<open>How code and model correspond.\<close> Classes are records with the member variables the code has;
  a member function is a function from the object to its result and the object after it. An
  exception is the left value of a result. What C++ leaves undefined (a remainder by zero, the top of
  an empty heap, a null pointer) is an outcome of its own and never a default. \<^verbatim>\<open>std::size_t\<close> hashes
  and session numbers are words of 64 bits and wrap, ports are words of 16 bits; counters that cannot
  reach their bound are natural numbers, with the bound proved; \<^verbatim>\<open>double\<close> is a rational with
  rounding to 53 bits and ties to even (\<^verbatim>\<open>Double_Arith\<close>).

  \<^bold>\<open>Parameters.\<close> Code that is not in the repository is an argument of the definitions that use it,
  with documented behaviour as a named hypothesis: the matcher of CTRE (\<^verbatim>\<open>pcre_env\<close>), address
  printing and parsing (\<^verbatim>\<open>addr_print_inj\<close>, \<^verbatim>\<open>addr_print_chars\<close>), \<^verbatim>\<open>std::hash\<close> (nothing is
  assumed), yaml-cpp (nothing is assumed), \<^verbatim>\<open>std::sort\<close> (sorted permutation), the pairing
  heap of Boost (\<^verbatim>\<open>heap_laws\<close>, what its documentation promises and no more), what Beast
  does when it reads into a message that has contents (\<^verbatim>\<open>reuse\<close>), and the libraries of the
  application (\<^verbatim>\<open>sys_libs\<close>). Network and clock are the inputs of the steps. Each hypothesis is
  met by the sample instances of the witnesses.

  \<^bold>\<open>The contract of the heap.\<close> Boost documents \<^verbatim>\<open>increase\<close> for an element whose priority has
  not fallen and \<^verbatim>\<open>decrease\<close> for one whose priority has not risen. The program breaks this:
  \<^verbatim>\<open>DecreaseConnectionCount\<close> calls \<^verbatim>\<open>decrease\<close> for an element whose priority rises, and
  \<^verbatim>\<open>AddResponseTime\<close> has the two the wrong way round. Nothing is known of the heap after such a
  call. What is shown of runs of the balancer, where it depends on the heap, is therefore shown of
  those whose steps call the heap as documented (\<^verbatim>\<open>in_contract\<close>): these are all runs for the four algorithms without a heap, and for the
  other two the runs up to the first step that breaks the contract. Whether a step does is computed
  by making it on a heap that watches (\<^verbatim>\<open>audited\<close>). Least connections breaks the contract with the
  first session with a backend of the pool that ends (\<^verbatim>\<open>lc_counters_account\<close>), least response
  time with the first response of one that takes a nanosecond or more
  (\<^verbatim>\<open>lrt_first_response_leaves_contract\<close>).

  \<^bold>\<open>Loops and fuel.\<close> The only loop that need not end is failover, which retries for as long as
  backends refuse. It is written with a number of attempts; as many as the selector has entries are
  enough (\<^verbatim>\<open>configured_failover\<close>), unless two entries of a keyed selector share a key, where no
  number is (\<^verbatim>\<open>lc_duplicate_retries_forever\<close>).

  \<^bold>\<open>What is shown.\<close> For each selector which backend it selects, and that exclusion removes exactly the
  refusing backends; for the whole of a configuration that failover reaches an accepting backend if
  there is one; that a session relays its messages in order, and what it announces; what the
  connection counters count and the averages are as long as the heap is called as documented, and
  when that ends; that within the contract of the heap no interleaving of the handlers runs into
  undefined behaviour before all backends are excluded, and that with two threads, but not with one,
  one does afterwards; that until then the balancer is a load balancer in the sense of an abstract
  specification, keeps every backend that has not refused and does not try one that has again, and
  accounts for every client; what ends
  the balancer, and with which exit code. Several theorems state behaviour the authors cannot have
  wanted, such as that the second request of a connection is read into a message with the first
  body; they are listed as findings beside the development.

  \<^bold>\<open>Bounds of the model.\<close> The steps of \<^verbatim>\<open>Balancer\<close> do not bound how many handlers run at
  once, so what is shown of all of them holds for every number of threads; \<^verbatim>\<open>Thread_Pool\<close> lets a
  handler begin only when a thread is free. It counts the handlers that are seen between two steps
  and not the signal handler, so it allows what the program can do and possibly more. Each call of
  a selector, of a visitor and of the counter of session numbers is atomic in the code, under a
  mutex or on an atomic variable; two of them are in one step only where the first, drawing a
  session number or reading the clock, commutes with all that other handlers do.

  \<^bold>\<open>Not modelled.\<close> The text of log messages and its formatters (which print through the functions
  \<^verbatim>\<open>ToString\<close> that are modelled), the descriptions in the usage message, thread priorities, the
  tests and the benchmarks. The memory the sockets and buffers take, and its lack, are outside the
  model.
\<close>

end
